(* ===== verification/Pj_Prelude.thy ===== *)
theory Pj_Prelude
  imports Main "HOL-Library.Multiset"
begin

text \<open>
  Shared base of the development: the status codes of \<^verbatim>\<open>pj/errno.h\<close>, the C idioms that
  every component uses (32-bit unsigned arithmetic, division truncating towards zero, pointers
  that may be null) and the generic list lemmas that carry the component proofs.
\<close>

named_theorems pj_defs \<open>unfolding rules of the straight-line operations\<close>
named_theorems pj_frame \<open>what an operation leaves unchanged\<close>

section \<open>Status codes\<close>

text \<open>
  A \<^verbatim>\<open>pj_status_t\<close> is an integer; the operations modelled here return only these values.
  \<open>PJ_FAIL\<close> is the literal \<open>-1\<close> that \<^verbatim>\<open>timer.c\<close> and \<^verbatim>\<open>fifobuf.c\<close> return.
\<close>

datatype pj_status =
    PJ_SUCCESS
  | PJ_EINVAL
  | PJ_EINVALIDOP
  | PJ_ENOMEM
  | PJ_ENOTFOUND
  | PJ_EBUG
  | PJ_EBUSY
  | PJ_FAIL

section \<open>Machine arithmetic\<close>

text \<open>
  An \<^verbatim>\<open>unsigned\<close> of 32 bits is a \<open>nat\<close> below \<open>2 ^ 32\<close>; every operation that can leave the
  range is written with one of the wrapping operators below.
\<close>

definition u32 :: "nat \<Rightarrow> nat" where
  "u32 n = n mod 2 ^ 32"

definition usub32 :: "nat \<Rightarrow> nat \<Rightarrow> nat" where
  "usub32 a b = (a + 2 ^ 32 - b) mod 2 ^ 32"

definition int_to_u32 :: "int \<Rightarrow> nat" where
  "int_to_u32 i = nat (i mod 2 ^ 32)"

text \<open>C division of signed integers truncates towards zero.\<close>

definition cdiv :: "int \<Rightarrow> int \<Rightarrow> int" where
  "cdiv a b = sgn a * sgn b * (\<bar>a\<bar> div \<bar>b\<bar>)"

definition cmod :: "int \<Rightarrow> int \<Rightarrow> int" where
  "cmod a b = a - b * cdiv a b"

lemma u32_less [simp]: "u32 n < 2 ^ 32"
  by (simp add: u32_def)

lemma u32_id [simp]: "n < 2 ^ 32 \<Longrightarrow> u32 n = n"
  by (simp add: u32_def)

lemma usub32_ge: "b \<le> a \<Longrightarrow> a < 2 ^ 32 \<Longrightarrow> usub32 a b = a - b"
  by (simp add: usub32_def mod_if)

lemma int_to_u32_id [simp]: "0 \<le> i \<Longrightarrow> i < 2 ^ 32 \<Longrightarrow> int_to_u32 i = nat i"
  by (simp add: int_to_u32_def)

lemma int_to_u32_less [simp]: "int_to_u32 i < 2 ^ 32"
  by (simp add: int_to_u32_def nat_less_iff)

lemma cdiv_nonneg: "0 \<le> a \<Longrightarrow> 0 < b \<Longrightarrow> cdiv a b = a div b"
  by (cases "a = 0") (auto simp: cdiv_def)

lemma cmod_nonneg: "0 \<le> a \<Longrightarrow> 0 < b \<Longrightarrow> cmod a b = a mod b"
  by (simp add: cmod_def cdiv_nonneg minus_mult_div_eq_mod)

section \<open>Lists as arrays\<close>

text \<open>
  The part of an array in use is a prefix of a longer list: \<open>take n xs\<close>. These lemmas relate
  writes to the array with the set and the multiset of that prefix.
\<close>

lemma set_take_conv_nth: "n \<le> length xs \<Longrightarrow> set (take n xs) = {xs ! i | i. i < n}"
  by (auto simp: set_conv_nth min_absorb2) (metis nth_take)

lemma take_update_ge [simp]: "n \<le> i \<Longrightarrow> take n (xs[i := x]) = take n xs"
  by simp

lemma take_Suc_update: "n < length xs \<Longrightarrow> take (Suc n) (xs[n := x]) = take n xs @ [x]"
  by (simp add: take_Suc_conv_app_nth)

lemma distinct_take_nth_neq:
  "distinct (take n xs) \<Longrightarrow> n \<le> length xs \<Longrightarrow> i < n \<Longrightarrow> j < n \<Longrightarrow> i \<noteq> j \<Longrightarrow> xs ! i \<noteq> xs ! j"
  by (metis length_take min_absorb2 nth_eq_iff_index_eq nth_take)

end
