(* ===== verification/Pj_Time.thy ===== *)
theory Pj_Time
  imports Pj_Prelude
begin

text \<open>
  Time values (\<^verbatim>\<open>pj_time_val\<close> of \<^verbatim>\<open>pj/types.h\<close> and \<^verbatim>\<open>pj_time_val_normalize\<close> of
  \<^verbatim>\<open>pjlib/src/pj/types.c\<close>): the comparison and arithmetic macros, the linear order they
  implement, and the meaning of normalisation in milliseconds. The fields are C \<^verbatim>\<open>long\<close>s,
  modelled as unbounded integers: times of day and the delays of the library stay far from
  the limits of a \<^verbatim>\<open>long\<close>.
\<close>

datatype pj_time_val = TimeVal (sec: int) (msec: int)

section \<open>The comparison macros\<close>

definition PJ_TIME_VAL_MSEC :: "pj_time_val \<Rightarrow> int" where
  "PJ_TIME_VAL_MSEC t = sec t * 1000 + msec t"

definition PJ_TIME_VAL_EQ :: "pj_time_val \<Rightarrow> pj_time_val \<Rightarrow> bool" where
  "PJ_TIME_VAL_EQ t1 t2 \<longleftrightarrow> sec t1 = sec t2 \<and> msec t1 = msec t2"

definition PJ_TIME_VAL_GT :: "pj_time_val \<Rightarrow> pj_time_val \<Rightarrow> bool" where
  "PJ_TIME_VAL_GT t1 t2 \<longleftrightarrow> sec t1 > sec t2 \<or> (sec t1 = sec t2 \<and> msec t1 > msec t2)"

definition PJ_TIME_VAL_GTE :: "pj_time_val \<Rightarrow> pj_time_val \<Rightarrow> bool" where
  "PJ_TIME_VAL_GTE t1 t2 \<longleftrightarrow> PJ_TIME_VAL_GT t1 t2 \<or> PJ_TIME_VAL_EQ t1 t2"

definition PJ_TIME_VAL_LT :: "pj_time_val \<Rightarrow> pj_time_val \<Rightarrow> bool" where
  "PJ_TIME_VAL_LT t1 t2 \<longleftrightarrow> \<not> PJ_TIME_VAL_GTE t1 t2"

definition PJ_TIME_VAL_LTE :: "pj_time_val \<Rightarrow> pj_time_val \<Rightarrow> bool" where
  "PJ_TIME_VAL_LTE t1 t2 \<longleftrightarrow> \<not> PJ_TIME_VAL_GT t1 t2"

text \<open>The macros decide a linear order, so the library's order automation applies to times.\<close>

instantiation pj_time_val :: linorder
begin

definition less_eq_pj_time_val :: "pj_time_val \<Rightarrow> pj_time_val \<Rightarrow> bool" where
  "less_eq_pj_time_val a b \<longleftrightarrow> sec a < sec b \<or> (sec a = sec b \<and> msec a \<le> msec b)"

definition less_pj_time_val :: "pj_time_val \<Rightarrow> pj_time_val \<Rightarrow> bool" where
  "less_pj_time_val a b \<longleftrightarrow> sec a < sec b \<or> (sec a = sec b \<and> msec a < msec b)"

instance
  by standard (auto simp: less_eq_pj_time_val_def less_pj_time_val_def intro: pj_time_val.expand)

end

lemmas time_macro_defs =
  PJ_TIME_VAL_EQ_def PJ_TIME_VAL_GT_def PJ_TIME_VAL_GTE_def PJ_TIME_VAL_LT_def PJ_TIME_VAL_LTE_def

lemma time_val_macros [simp]:
  "PJ_TIME_VAL_EQ a b \<longleftrightarrow> a = b"
  "PJ_TIME_VAL_GT a b \<longleftrightarrow> b < a"
  "PJ_TIME_VAL_GTE a b \<longleftrightarrow> b \<le> a"
  "PJ_TIME_VAL_LT a b \<longleftrightarrow> a < b"
  "PJ_TIME_VAL_LTE a b \<longleftrightarrow> a \<le> b"
  by (auto simp: time_macro_defs less_eq_pj_time_val_def less_pj_time_val_def
      intro: pj_time_val.expand)

section \<open>Normalisation\<close>

text \<open>
  The \<^verbatim>\<open>do ... while\<close> loop of \<^verbatim>\<open>pj_time_val_normalize\<close>: borrow seconds until the
  milliseconds are above \<open>-1000\<close>.
\<close>

function normalize_borrow :: "int \<Rightarrow> int \<Rightarrow> pj_time_val" where
  "normalize_borrow s m = (if m + 1000 \<le> -1000 then normalize_borrow (s - 1) (m + 1000)
     else TimeVal (s - 1) (m + 1000))"
  by pat_completeness auto
termination
  by (relation "measure (\<lambda>(s, m). nat (- m))") auto

declare normalize_borrow.simps [simp del]

definition pj_time_val_normalize :: "pj_time_val \<Rightarrow> pj_time_val" where
  "pj_time_val_normalize t =
     (let t1 = (if msec t \<ge> 1000 then TimeVal (sec t + cdiv (msec t) 1000) (cmod (msec t) 1000)
                else if msec t \<le> -1000 then normalize_borrow (sec t) (msec t)
                else t)
      in if sec t1 \<ge> 1 \<and> msec t1 < 0 then TimeVal (sec t1 - 1) (msec t1 + 1000)
         else if sec t1 < 0 \<and> msec t1 > 0 then TimeVal (sec t1 + 1) (msec t1 - 1000)
         else t1)"

definition PJ_TIME_VAL_ADD :: "pj_time_val \<Rightarrow> pj_time_val \<Rightarrow> pj_time_val" where
  "PJ_TIME_VAL_ADD t1 t2 = pj_time_val_normalize (TimeVal (sec t1 + sec t2) (msec t1 + msec t2))"

definition PJ_TIME_VAL_SUB :: "pj_time_val \<Rightarrow> pj_time_val \<Rightarrow> pj_time_val" where
  "PJ_TIME_VAL_SUB t1 t2 = pj_time_val_normalize (TimeVal (sec t1 - sec t2) (msec t1 - msec t2))"

text \<open>
  A normalised value: the fraction is below a second and both fields have the same sign. On
  such values the lexicographic order of the macros is the order of the times they denote.
\<close>

definition time_normal :: "pj_time_val \<Rightarrow> bool" where
  "time_normal t \<longleftrightarrow> \<bar>msec t\<bar> < 1000 \<and> (sec t \<ge> 1 \<longrightarrow> msec t \<ge> 0) \<and> (sec t < 0 \<longrightarrow> msec t \<le> 0)"

lemma normalize_borrow_msec: "PJ_TIME_VAL_MSEC (normalize_borrow s m) = s * 1000 + m"
proof (induction s m rule: normalize_borrow.induct)
  case (1 s m)
  then show ?case
    by (simp add: normalize_borrow.simps [of s m] PJ_TIME_VAL_MSEC_def)
qed

lemma normalize_borrow_range:
  "m \<le> -1000 \<Longrightarrow> -1000 < msec (normalize_borrow s m) \<and> msec (normalize_borrow s m) \<le> 0"
proof (induction s m rule: normalize_borrow.induct)
  case (1 s m)
  then show ?case
    by (simp add: normalize_borrow.simps [of s m])
qed

lemma normalize_msec [simp]: "PJ_TIME_VAL_MSEC (pj_time_val_normalize t) = PJ_TIME_VAL_MSEC t"
  using normalize_borrow_msec [of "sec t" "msec t"]
  by (auto simp: pj_time_val_normalize_def Let_def PJ_TIME_VAL_MSEC_def cmod_def algebra_simps)

lemma normalize_normal: "time_normal (pj_time_val_normalize t)"
  using normalize_borrow_range [of "msec t" "sec t"]
  by (auto simp: pj_time_val_normalize_def Let_def time_normal_def cmod_nonneg)

lemma time_normal_less_iff:
  assumes "time_normal a" "time_normal b"
  shows "a < b \<longleftrightarrow> PJ_TIME_VAL_MSEC a < PJ_TIME_VAL_MSEC b"
  using assms by (auto simp: time_normal_def less_pj_time_val_def PJ_TIME_VAL_MSEC_def)

text \<open>
  \<open>pj_time_val_normalize\<close> terminates with a normalised value (fraction below one second,
  no mixed signs) that denotes the same number of milliseconds, for every input.
\<close>

theorem normalize_correct:
  "time_normal (pj_time_val_normalize t) \<and>
   PJ_TIME_VAL_MSEC (pj_time_val_normalize t) = PJ_TIME_VAL_MSEC t"
  using normalize_normal normalize_msec by blast

end
