(* ===== verification/Timer_Heap.thy ===== *)
theory Timer_Heap
  imports Pj_Time
begin

text \<open>
  The timer heap (\<^verbatim>\<open>pjlib/src/pj/timer.c\<close>), on which every timeout and retransmission of the
  SIP stack runs. A heap is an array of pointers to timer entries ordered as a binary heap, a
  parallel array \<open>timer_ids\<close> that maps the id of a scheduled entry to its slot and threads the
  free ids into a list (a free id holds the negated next one), and a store of the entries that
  the pointers denote. The theory proves that the representation invariant is kept by every
  operation and that the operations implement a set of pending entries with their expiry times.

  Entries are addressed by \<open>eref\<close>; the entry's own fields live in the store \<open>ents\<close>, since the
  code updates \<open>_timer_id\<close> and \<open>_timer_value\<close> through pointers the heap and the user share.
  \<open>junk\<close> is the unspecified content of memory fresh from the pool. The lock object only
  serialises the calls; the fields that decide when it is destroyed are kept.
\<close>

section \<open>State\<close>

type_synonym eref = nat

record timer_entry =
  te_user_data :: nat
  te_id :: int
  te_cb :: "nat option"
  te_timer_id :: int
  te_timer_value :: pj_time_val

record timer_heap =
  max_size :: nat
  cur_size :: nat
  max_entries_per_poll :: nat
  lock :: "nat option"
  auto_delete_lock :: bool
  heap :: "eref list"
  timer_ids :: "int list"
  timer_ids_freelist :: int
  ents :: "eref \<Rightarrow> timer_entry"
  junk :: "nat \<Rightarrow> eref"
  destroyed_locks :: "nat list"

definition DEFAULT_MAX_TIMED_OUT_PER_POLL :: nat where
  "DEFAULT_MAX_TIMED_OUT_PER_POLL = 64"

definition HEAP_PARENT :: "nat \<Rightarrow> nat" where
  "HEAP_PARENT x = (if x = 0 then 0 else (x - 1) div 2)"

definition HEAP_LEFT :: "nat \<Rightarrow> nat" where
  "HEAP_LEFT x = x + x + 1"

text \<open>The expiry time and the id of an entry, and the expiry time at a slot of the heap.\<close>

abbreviation timer_value :: "timer_heap \<Rightarrow> eref \<Rightarrow> pj_time_val" where
  "timer_value ht e \<equiv> te_timer_value (ents ht e)"

abbreviation timer_id :: "timer_heap \<Rightarrow> eref \<Rightarrow> int" where
  "timer_id ht e \<equiv> te_timer_id (ents ht e)"

section \<open>Operations\<close>

definition copy_node :: "timer_heap \<Rightarrow> nat \<Rightarrow> eref \<Rightarrow> timer_heap" where
  "copy_node ht slot moved_node =
     ht\<lparr>heap := (heap ht)[slot := moved_node],
        timer_ids := (timer_ids ht)[nat (timer_id ht moved_node) := int slot]\<rparr>"

definition pop_freelist :: "timer_heap \<Rightarrow> timer_heap \<times> int" where
  "pop_freelist ht =
     (let new_id = timer_ids_freelist ht
      in (ht\<lparr>timer_ids_freelist := - (timer_ids ht ! nat (timer_ids_freelist ht))\<rparr>, new_id))"

definition push_freelist :: "timer_heap \<Rightarrow> int \<Rightarrow> timer_heap" where
  "push_freelist ht old_id =
     ht\<lparr>timer_ids := (timer_ids ht)[nat old_id := - timer_ids_freelist ht],
        timer_ids_freelist := old_id\<rparr>"

lemma cur_size_copy_node [simp]: "cur_size (copy_node ht s e) = cur_size ht"
  by (simp add: copy_node_def)

function reheap_down :: "timer_heap \<Rightarrow> eref \<Rightarrow> nat \<Rightarrow> nat \<Rightarrow> timer_heap" where
  "reheap_down ht moved_node slot child =
     (if child < cur_size ht then
        let child' = (if child + 1 < cur_size ht \<and>
                        PJ_TIME_VAL_LT (timer_value ht (heap ht ! (child + 1)))
                                       (timer_value ht (heap ht ! child))
                      then child + 1 else child)
        in if PJ_TIME_VAL_LT (timer_value ht (heap ht ! child')) (timer_value ht moved_node)
           then reheap_down (copy_node ht slot (heap ht ! child')) moved_node child'
                  (HEAP_LEFT child')
           else copy_node ht slot moved_node
      else copy_node ht slot moved_node)"
  by pat_completeness auto
termination
  by (relation "measure (\<lambda>(ht, m, s, c). cur_size ht - c)") (auto simp: HEAP_LEFT_def)

function reheap_up :: "timer_heap \<Rightarrow> eref \<Rightarrow> nat \<Rightarrow> nat \<Rightarrow> timer_heap" where
  "reheap_up ht moved_node slot parent =
     (if slot > 0 then
        if PJ_TIME_VAL_LT (timer_value ht moved_node) (timer_value ht (heap ht ! parent))
        then reheap_up (copy_node ht slot (heap ht ! parent)) moved_node parent
               (HEAP_PARENT parent)
        else copy_node ht slot moved_node
      else copy_node ht slot moved_node)"
  by pat_completeness auto
termination
  by (relation "measure (\<lambda>(ht, m, s, p). if s = 0 then 0 else Suc p)") (auto simp: HEAP_PARENT_def)

declare reheap_down.simps [simp del] reheap_up.simps [simp del]

definition set_timer_id :: "timer_heap \<Rightarrow> eref \<Rightarrow> int \<Rightarrow> timer_heap" where
  "set_timer_id ht e i = ht\<lparr>ents := (ents ht)(e := (ents ht e)\<lparr>te_timer_id := i\<rparr>)\<rparr>"

definition set_timer_value :: "timer_heap \<Rightarrow> eref \<Rightarrow> pj_time_val \<Rightarrow> timer_heap" where
  "set_timer_value ht e t = ht\<lparr>ents := (ents ht)(e := (ents ht e)\<lparr>te_timer_value := t\<rparr>)\<rparr>"

definition remove_node :: "timer_heap \<Rightarrow> nat \<Rightarrow> timer_heap \<times> eref" where
  "remove_node ht slot =
     (let removed_node = heap ht ! slot;
          ht = push_freelist ht (timer_id ht removed_node);
          ht = ht\<lparr>cur_size := cur_size ht - 1\<rparr>;
          ht = set_timer_id ht removed_node (-1)
      in if slot < cur_size ht then
           let moved_node = heap ht ! cur_size ht;
               ht = copy_node ht slot moved_node;
               parent = HEAP_PARENT slot
           in if PJ_TIME_VAL_GTE (timer_value ht moved_node) (timer_value ht (heap ht ! parent))
              then (reheap_down ht moved_node slot (HEAP_LEFT slot), removed_node)
              else (reheap_up ht moved_node slot parent, removed_node)
         else (ht, removed_node))"

definition grow_heap :: "timer_heap \<Rightarrow> timer_heap" where
  "grow_heap ht =
     (let new_size = max_size ht * 2
      in ht\<lparr>heap := take (max_size ht) (heap ht) @ map (junk ht) [max_size ht..<new_size],
            timer_ids := take (max_size ht) (timer_ids ht) @
                         map (\<lambda>i. - (int i + 1)) [max_size ht..<new_size],
            max_size := new_size\<rparr>)"

definition insert_node :: "timer_heap \<Rightarrow> eref \<Rightarrow> timer_heap" where
  "insert_node ht new_node =
     (let ht = (if cur_size ht + 2 \<ge> max_size ht then grow_heap ht else ht);
          ht = reheap_up ht new_node (cur_size ht) (HEAP_PARENT (cur_size ht))
      in ht\<lparr>cur_size := cur_size ht + 1\<rparr>)"

definition schedule_entry :: "timer_heap \<Rightarrow> eref \<Rightarrow> pj_time_val \<Rightarrow> timer_heap \<times> pj_status" where
  "schedule_entry ht entry future_time =
     (if cur_size ht < max_size ht then
        let (ht, new_id) = pop_freelist ht;
            ht = set_timer_id ht entry new_id;
            ht = set_timer_value ht entry future_time
        in (insert_node ht entry, PJ_SUCCESS)
      else (ht, PJ_FAIL))"

text \<open>
  \<open>cancel\<close> has a close hook, called when \<open>dont_call\<close> is zero; its only caller passes 1. The
  hook is the argument \<open>callback\<close>. The range check of the code admits the id \<open>max_size\<close> itself,
  one past the end of the array: that read is the case \<open>None\<close>.
\<close>

definition cancel ::
    "(timer_heap \<Rightarrow> eref \<Rightarrow> timer_heap) \<Rightarrow> timer_heap \<Rightarrow> eref \<Rightarrow> int \<Rightarrow> (timer_heap \<times> nat) option" where
  "cancel callback ht entry dont_call =
     (if timer_id ht entry < 0 \<or> nat (timer_id ht entry) > max_size ht then Some (ht, 0)
      else if nat (timer_id ht entry) \<ge> length (timer_ids ht) then None
      else
        let timer_node_slot = timer_ids ht ! nat (timer_id ht entry)
        in if timer_node_slot < 0 then Some (ht, 0)
           else if entry \<noteq> heap ht ! nat timer_node_slot then Some (ht, 0)
           else
             let ht = fst (remove_node ht (nat timer_node_slot));
                 ht = (if dont_call = 0 then callback ht entry else ht)
             in Some (ht, 1))"

definition pj_timer_heap_mem_size :: "nat \<Rightarrow> nat \<Rightarrow> nat \<Rightarrow> nat \<Rightarrow> nat" where
  "pj_timer_heap_mem_size sizeof_heap sizeof_ptr sizeof_id cnt =
     sizeof_heap + (cnt + 2) * (sizeof_ptr + sizeof_id) + 132"

text \<open>
  \<open>alloc_ok k\<close> tells whether the \<open>k\<close>-th allocation from the pool succeeds; \<open>es\<close> is the memory
  that holds the application's timer entries.
\<close>

definition pj_timer_heap_create ::
    "(nat \<Rightarrow> bool) \<Rightarrow> (nat \<Rightarrow> eref) \<Rightarrow> (eref \<Rightarrow> timer_entry) \<Rightarrow> nat \<Rightarrow> pj_status + timer_heap" where
  "pj_timer_heap_create alloc_ok jk es sz =
     (let size = sz + 2
      in if \<not> alloc_ok 0 then Inl PJ_ENOMEM
         else if \<not> alloc_ok 1 then Inl PJ_ENOMEM
         else if \<not> alloc_ok 2 then Inl PJ_ENOMEM
         else Inr \<lparr>max_size = size, cur_size = 0,
                   max_entries_per_poll = DEFAULT_MAX_TIMED_OUT_PER_POLL,
                   lock = None, auto_delete_lock = False,
                   heap = map jk [0..<size],
                   timer_ids = map (\<lambda>i. - (int i + 1)) [0..<size],
                   timer_ids_freelist = 1, ents = es, junk = jk, destroyed_locks = []\<rparr>)"

definition pj_timer_heap_destroy :: "timer_heap \<Rightarrow> timer_heap" where
  "pj_timer_heap_destroy ht =
     (case lock ht of
        Some l \<Rightarrow> if auto_delete_lock ht
                  then ht\<lparr>destroyed_locks := l # destroyed_locks ht, lock := None\<rparr> else ht
      | None \<Rightarrow> ht)"

definition pj_timer_heap_set_lock :: "timer_heap \<Rightarrow> nat option \<Rightarrow> bool \<Rightarrow> timer_heap" where
  "pj_timer_heap_set_lock ht l auto_del =
     (let ht = (case lock ht of
                  Some old \<Rightarrow> if auto_delete_lock ht
                              then ht\<lparr>destroyed_locks := old # destroyed_locks ht\<rparr> else ht
                | None \<Rightarrow> ht)
      in ht\<lparr>lock := l, auto_delete_lock := auto_del\<rparr>)"

definition pj_timer_heap_set_max_timed_out_per_poll :: "timer_heap \<Rightarrow> nat \<Rightarrow> timer_heap \<times> nat" where
  "pj_timer_heap_set_max_timed_out_per_poll ht cnt =
     (ht\<lparr>max_entries_per_poll := cnt\<rparr>, max_entries_per_poll ht)"

definition pj_timer_entry_init :: "timer_heap \<Rightarrow> eref \<Rightarrow> int \<Rightarrow> nat \<Rightarrow> nat \<Rightarrow> timer_heap" where
  "pj_timer_entry_init ht entry i user_data cb =
     ht\<lparr>ents := (ents ht)(entry := (ents ht entry)
          \<lparr>te_id := i, te_user_data := user_data, te_cb := Some cb\<rparr>)\<rparr>"

text \<open>\<open>now\<close> is the result of \<^verbatim>\<open>pj_gettimeofday\<close>.\<close>

definition pj_timer_heap_schedule ::
    "timer_heap \<Rightarrow> pj_time_val \<Rightarrow> eref \<Rightarrow> pj_time_val \<Rightarrow> timer_heap \<times> pj_status" where
  "pj_timer_heap_schedule ht now entry delay =
     (if te_cb (ents ht entry) = None then (ht, PJ_EINVAL)
      else if \<not> timer_id ht entry < 1 then (ht, PJ_EINVALIDOP)
      else schedule_entry ht entry (PJ_TIME_VAL_ADD now delay))"

definition pj_timer_heap_cancel :: "timer_heap \<Rightarrow> eref \<Rightarrow> (timer_heap \<times> nat) option" where
  "pj_timer_heap_cancel ht entry = cancel (\<lambda>h e. h) ht entry 1"

definition PJ_MAXINT32 :: int where
  "PJ_MAXINT32 = 2 ^ 31 - 1"

text \<open>
  The polling loop. \<open>call\<close> runs the callback with the given address on the heap and the fired
  entry; it may schedule, cancel and reconfigure, so the loop is partial: \<open>None\<close> is a poll that
  does not return. The third component of the state is the list of entries fired so far.
\<close>

partial_function (option) poll_loop ::
    "(nat \<Rightarrow> timer_heap \<Rightarrow> eref \<Rightarrow> timer_heap) \<Rightarrow> pj_time_val \<Rightarrow> timer_heap \<Rightarrow> nat \<Rightarrow> eref list \<Rightarrow>
     (timer_heap \<times> nat \<times> eref list) option" where
  "poll_loop call now ht cnt fired =
     (if cur_size ht \<noteq> 0 \<and> PJ_TIME_VAL_LTE (timer_value ht (heap ht ! 0)) now \<and>
         cnt < max_entries_per_poll ht
      then let (ht, node) = remove_node ht 0;
               ht = (case te_cb (ents ht node) of Some cb \<Rightarrow> call cb ht node | None \<Rightarrow> ht)
           in poll_loop call now ht (cnt + 1) (fired @ [node])
      else Some (ht, cnt, fired))"

declare poll_loop.simps [code]

definition next_delay_of :: "timer_heap \<Rightarrow> pj_time_val \<Rightarrow> pj_time_val" where
  "next_delay_of ht now =
     (if cur_size ht \<noteq> 0 then
        let d = PJ_TIME_VAL_SUB (timer_value ht (heap ht ! 0)) now
        in if sec d < 0 \<or> msec d < 0 then TimeVal 0 0 else d
      else TimeVal PJ_MAXINT32 PJ_MAXINT32)"

text \<open>
  \<open>want_delay\<close> tells whether the caller passed a \<^verbatim>\<open>next_delay\<close> to fill in. The result is the
  heap, the number of timers fired, the delay to the next one and the entries fired.
\<close>

definition pj_timer_heap_poll ::
    "(nat \<Rightarrow> timer_heap \<Rightarrow> eref \<Rightarrow> timer_heap) \<Rightarrow> pj_time_val \<Rightarrow> bool \<Rightarrow> timer_heap \<Rightarrow>
     (timer_heap \<times> nat \<times> pj_time_val option \<times> eref list) option" where
  "pj_timer_heap_poll call now want_delay ht =
     (if cur_size ht = 0 \<and> want_delay
      then Some (ht, 0, Some (TimeVal PJ_MAXINT32 PJ_MAXINT32), [])
      else case poll_loop call now ht 0 [] of
             None \<Rightarrow> None
           | Some (ht, cnt, fired) \<Rightarrow>
               Some (ht, cnt, (if want_delay then Some (next_delay_of ht now) else None), fired))"

definition pj_timer_heap_count :: "timer_heap \<Rightarrow> nat" where
  "pj_timer_heap_count ht = cur_size ht"

definition pj_timer_heap_earliest_time :: "timer_heap \<Rightarrow> pj_status + pj_time_val" where
  "pj_timer_heap_earliest_time ht =
     (if cur_size ht = 0 then Inl PJ_ENOTFOUND else Inr (timer_value ht (heap ht ! 0)))"

section \<open>The heap order\<close>

lemma HEAP_PARENT_less: "0 < i \<Longrightarrow> HEAP_PARENT i < i"
  by (auto simp: HEAP_PARENT_def)

lemma HEAP_PARENT_eq_iff: "0 < i \<Longrightarrow> HEAP_PARENT i = s \<longleftrightarrow> i = HEAP_LEFT s \<or> i = Suc (HEAP_LEFT s)"
  unfolding HEAP_PARENT_def HEAP_LEFT_def by presburger

definition heap_ord :: "('a \<Rightarrow> 'k::linorder) \<Rightarrow> 'a list \<Rightarrow> nat \<Rightarrow> bool" where
  "heap_ord v hp n \<longleftrightarrow> (\<forall>i. 0 < i \<and> i < n \<longrightarrow> v (hp ! HEAP_PARENT i) \<le> v (hp ! i))"

definition up_ok :: "('a \<Rightarrow> 'k::linorder) \<Rightarrow> 'a list \<Rightarrow> nat \<Rightarrow> nat \<Rightarrow> bool" where
  "up_ok v hp n s \<longleftrightarrow> (\<forall>i. 0 < i \<and> i < n \<longrightarrow>
     (i \<noteq> s \<longrightarrow> v (hp ! HEAP_PARENT i) \<le> v (hp ! i)) \<and>
     (HEAP_PARENT i = s \<and> 0 < s \<longrightarrow> v (hp ! HEAP_PARENT s) \<le> v (hp ! i)))"

definition down_ok :: "('a \<Rightarrow> 'k::linorder) \<Rightarrow> 'a list \<Rightarrow> nat \<Rightarrow> nat \<Rightarrow> bool" where
  "down_ok v hp n s \<longleftrightarrow> (\<forall>i. 0 < i \<and> i < n \<longrightarrow>
     (HEAP_PARENT i \<noteq> s \<longrightarrow> v (hp ! HEAP_PARENT i) \<le> v (hp ! i)) \<and>
     (HEAP_PARENT i = s \<and> 0 < s \<longrightarrow> v (hp ! HEAP_PARENT s) \<le> v (hp ! i)))"

lemma heap_ord_root:
  assumes "heap_ord v hp n" "i < n"
  shows "v (hp ! 0) \<le> v (hp ! i)"
  using assms(2)
proof (induction i rule: less_induct)
  case (less i)
  show ?case
  proof (cases "i = 0")
    case False
    then have p: "HEAP_PARENT i < i" by (simp add: HEAP_PARENT_less)
    with less have "v (hp ! 0) \<le> v (hp ! HEAP_PARENT i)" by simp
    also have "\<dots> \<le> v (hp ! i)"
      using assms(1) less.prems False by (simp add: heap_ord_def)
    finally show ?thesis .
  qed simp
qed

lemma up_step:
  assumes "up_ok v hp n s" "0 < s" "s < n" "n \<le> length hp" "v (hp ! s) < v (hp ! HEAP_PARENT s)"
  shows "up_ok v (hp[s := hp ! HEAP_PARENT s, HEAP_PARENT s := hp ! s]) n (HEAP_PARENT s)"
proof -
  have p: "HEAP_PARENT s < s" "HEAP_PARENT s < n" using assms HEAP_PARENT_less [of s] by auto
  show ?thesis
    unfolding up_ok_def
  proof (intro allI impI conjI)
    fix i assume i: "0 < i \<and> i < n"
    then have pi: "HEAP_PARENT i < i" by (simp add: HEAP_PARENT_less)
    assume h: "i \<noteq> HEAP_PARENT s"
    have "v (hp ! s) \<le> v (hp ! i)" if "HEAP_PARENT i = HEAP_PARENT s" "i \<noteq> s"
      using assms(1,5) i that unfolding up_ok_def by (metis less_imp_le order_trans)
    with h show "v (hp[s := hp ! HEAP_PARENT s, HEAP_PARENT s := hp ! s] ! HEAP_PARENT i)
        \<le> v (hp[s := hp ! HEAP_PARENT s, HEAP_PARENT s := hp ! s] ! i)"
      using assms p i pi unfolding up_ok_def
      by (cases "i = s"; cases "HEAP_PARENT i = s"; cases "HEAP_PARENT i = HEAP_PARENT s")
        (auto simp: nth_list_update intro: less_imp_le order_trans less_le_trans)
  next
    fix i assume i: "0 < i \<and> i < n"
    assume h: "HEAP_PARENT i = HEAP_PARENT s \<and> 0 < HEAP_PARENT s"
    then have pp: "HEAP_PARENT (HEAP_PARENT s) < HEAP_PARENT s" by (simp add: HEAP_PARENT_less)
    have g: "v (hp ! HEAP_PARENT (HEAP_PARENT s)) \<le> v (hp ! HEAP_PARENT s)"
      using assms(1) p h unfolding up_ok_def by auto
    have k: "v (hp ! HEAP_PARENT s) \<le> v (hp ! i)" if "i \<noteq> s"
      using assms(1) i h that unfolding up_ok_def by metis
    have "HEAP_PARENT s \<noteq> i" using i h HEAP_PARENT_less [of i] by auto
    then show "v (hp[s := hp ! HEAP_PARENT s, HEAP_PARENT s := hp ! s] ! HEAP_PARENT (HEAP_PARENT s))
        \<le> v (hp[s := hp ! HEAP_PARENT s, HEAP_PARENT s := hp ! s] ! i)"
      using assms(1,3,4) p i h pp g k
      by (cases "i = s") (auto simp: nth_list_update intro: order_trans)
  qed
qed

lemma up_done:
  assumes "up_ok v hp n s" "s = 0 \<or> v (hp ! HEAP_PARENT s) \<le> v (hp ! s)"
  shows "heap_ord v hp n"
  using assms unfolding up_ok_def heap_ord_def by (metis neq0_conv)

lemma down_step:
  assumes ok: "down_ok v hp n s" and n: "n \<le> length hp" and s: "s < n"
    and c: "c = HEAP_LEFT s \<or> c = Suc (HEAP_LEFT s)" "c < n"
    and least: "\<And>i. 0 < i \<Longrightarrow> i < n \<Longrightarrow> HEAP_PARENT i = s \<Longrightarrow> v (hp ! c) \<le> v (hp ! i)"
    and lt: "v (hp ! c) < v (hp ! s)"
  shows "down_ok v (hp[s := hp ! c, c := hp ! s]) n c"
proof -
  have c0: "0 < c" and pc: "HEAP_PARENT c = s" and sc: "s < c"
    using c by (auto simp: HEAP_LEFT_def HEAP_PARENT_def)
  have gp: "v (hp ! HEAP_PARENT s) \<le> v (hp ! c)" if "0 < s"
    using ok c0 pc c that unfolding down_ok_def by blast
  show ?thesis
    unfolding down_ok_def
  proof (intro allI impI conjI)
    fix i assume i: "0 < i \<and> i < n" and h: "HEAP_PARENT i \<noteq> c"
    then have pi: "HEAP_PARENT i < i" by (simp add: HEAP_PARENT_less)
    show "v (hp[s := hp ! c, c := hp ! s] ! HEAP_PARENT i) \<le> v (hp[s := hp ! c, c := hp ! s] ! i)"
      using ok n s c(2) i h pi lt gp least [of i] pc unfolding down_ok_def
      by (cases "i = s"; cases "i = c"; cases "HEAP_PARENT i = s")
        (auto simp: nth_list_update intro: less_imp_le)
  next
    fix i assume i: "0 < i \<and> i < n" and h: "HEAP_PARENT i = c \<and> 0 < c"
    then have "i \<noteq> c" "i \<noteq> s" using HEAP_PARENT_less [of i] sc by auto
    then show "v (hp[s := hp ! c, c := hp ! s] ! HEAP_PARENT c)
        \<le> v (hp[s := hp ! c, c := hp ! s] ! i)"
      using ok i h n s c(2) sc pc unfolding down_ok_def by (auto simp: nth_list_update)
  qed
qed

lemma down_done:
  assumes "down_ok v hp n s"
    "\<And>i. 0 < i \<Longrightarrow> i < n \<Longrightarrow> HEAP_PARENT i = s \<Longrightarrow> v (hp ! s) \<le> v (hp ! i)"
  shows "heap_ord v hp n"
  using assms unfolding down_ok_def heap_ord_def by metis

lemma heap_ord_cong:
  "(\<And>i. i < n \<Longrightarrow> v (hp ! i) = v' (hp' ! i)) \<Longrightarrow> heap_ord v hp n = heap_ord v' hp' n"
  unfolding heap_ord_def using HEAP_PARENT_less by (metis order.strict_trans)

lemma up_ok_append:
  assumes "heap_ord v hp n" "n < length hp"
  shows "up_ok v (hp[n := x]) (Suc n) n"
  unfolding up_ok_def
proof (intro allI impI)
  fix i assume i: "0 < i \<and> i < Suc n"
  then have "HEAP_PARENT i < i" by (simp add: HEAP_PARENT_less)
  then show "(i \<noteq> n \<longrightarrow> v (hp[n := x] ! HEAP_PARENT i) \<le> v (hp[n := x] ! i)) \<and>
      (HEAP_PARENT i = n \<and> 0 < n \<longrightarrow> v (hp[n := x] ! HEAP_PARENT n) \<le> v (hp[n := x] ! i))"
    using assms i by (auto simp: heap_ord_def nth_list_update less_Suc_eq)
qed

text \<open>The last element of a heap moved into any slot, the cases of a removal.\<close>

lemma replace_down:
  assumes "heap_ord v hp (Suc n)" "s < n" "n < length hp"
    "v (hp[s := hp ! n] ! HEAP_PARENT s) \<le> v (hp ! n)"
  shows "down_ok v (hp[s := hp ! n]) n s"
  unfolding down_ok_def
proof (intro allI impI conjI)
  fix i assume i: "0 < i \<and> i < n" and h: "HEAP_PARENT i \<noteq> s"
  then show "v (hp[s := hp ! n] ! HEAP_PARENT i) \<le> v (hp[s := hp ! n] ! i)"
    using assms by (cases "i = s") (auto simp: heap_ord_def nth_list_update)
next
  fix i assume i: "0 < i \<and> i < n" and h: "HEAP_PARENT i = s \<and> 0 < s"
  then have "v (hp ! HEAP_PARENT s) \<le> v (hp ! s)" "v (hp ! s) \<le> v (hp ! i)"
    using assms by (auto simp: heap_ord_def)
  then show "v (hp[s := hp ! n] ! HEAP_PARENT s) \<le> v (hp[s := hp ! n] ! i)"
    using i h HEAP_PARENT_less [of i] HEAP_PARENT_less [of s] assms
    by (auto simp: nth_list_update intro: order_trans)
qed

lemma replace_up:
  assumes "heap_ord v hp (Suc n)" "s < n" "n < length hp"
    "v (hp ! n) < v (hp[s := hp ! n] ! HEAP_PARENT s)"
  shows "0 < s" "up_ok v (hp[s := hp ! n]) n s"
proof -
  have "hp \<noteq> []" using assms by auto
  then show s: "0 < s" using assms(4) by (cases s) (auto simp: HEAP_PARENT_def)
  have ps: "HEAP_PARENT s < s" using s by (simp add: HEAP_PARENT_less)
  have vs: "v (hp ! n) < v (hp ! HEAP_PARENT s)" using assms ps by (simp add: nth_list_update)
  have gs: "v (hp ! HEAP_PARENT s) \<le> v (hp ! s)" using assms s by (auto simp: heap_ord_def)
  show "up_ok v (hp[s := hp ! n]) n s"
    unfolding up_ok_def
  proof (intro allI impI conjI)
    fix i assume i: "0 < i \<and> i < n" and h: "i \<noteq> s"
    then have "v (hp ! HEAP_PARENT i) \<le> v (hp ! i)" using assms by (auto simp: heap_ord_def)
    then show "v (hp[s := hp ! n] ! HEAP_PARENT i) \<le> v (hp[s := hp ! n] ! i)"
      using h vs gs assms by (cases "HEAP_PARENT i = s") (auto simp: nth_list_update)
  next
    fix i assume i: "0 < i \<and> i < n" and h: "HEAP_PARENT i = s \<and> 0 < s"
    then have "v (hp ! s) \<le> v (hp ! i)" using assms by (auto simp: heap_ord_def)
    then show "v (hp[s := hp ! n] ! HEAP_PARENT s) \<le> v (hp[s := hp ! n] ! i)"
      using i h gs ps HEAP_PARENT_less [of i] assms by (auto simp: nth_list_update)
  qed
qed

section \<open>The id table\<close>

text \<open>
  The first \<open>n\<close> slots are linked: the id of the entry in a slot leads back to the slot. Ids and
  entries in linked slots are therefore distinct.
\<close>

definition linked :: "timer_heap \<Rightarrow> nat \<Rightarrow> bool" where
  "linked ht n \<longleftrightarrow> n \<le> length (heap ht) \<and>
     (\<forall>i<n. 0 \<le> timer_id ht (heap ht ! i) \<and>
            nat (timer_id ht (heap ht ! i)) < length (timer_ids ht) \<and>
            timer_ids ht ! nat (timer_id ht (heap ht ! i)) = int i)"

abbreviation slot_ids :: "timer_heap \<Rightarrow> nat \<Rightarrow> nat set" where
  "slot_ids ht n \<equiv> (\<lambda>e. nat (timer_id ht e)) ` set (take n (heap ht))"

lemma linked_id_inj:
  assumes "linked ht n" "i < n" "j < n"
    "nat (timer_id ht (heap ht ! i)) = nat (timer_id ht (heap ht ! j))"
  shows "i = j"
  using assms unfolding linked_def by (metis of_nat_eq_iff)

lemma linked_distinct: "linked ht n \<Longrightarrow> distinct (take n (heap ht))"
  unfolding distinct_conv_nth
  by (auto simp: linked_def dest: linked_id_inj) (metis linked_def of_nat_eq_iff)

lemma linked_slot:
  assumes "linked ht n" "e \<in> set (take n (heap ht))"
  shows "\<exists>i<n. heap ht ! i = e \<and> timer_ids ht ! nat (timer_id ht e) = int i"
  using assms by (auto simp: linked_def set_take_conv_nth)

lemma copy_node_frame [pj_frame]:
  "max_size (copy_node ht s e) = max_size ht"
  "ents (copy_node ht s e) = ents ht"
  "timer_ids_freelist (copy_node ht s e) = timer_ids_freelist ht"
  "max_entries_per_poll (copy_node ht s e) = max_entries_per_poll ht"
  "lock (copy_node ht s e) = lock ht"
  "auto_delete_lock (copy_node ht s e) = auto_delete_lock ht"
  "junk (copy_node ht s e) = junk ht"
  "destroyed_locks (copy_node ht s e) = destroyed_locks ht"
  "length (heap (copy_node ht s e)) = length (heap ht)"
  "length (timer_ids (copy_node ht s e)) = length (timer_ids ht)"
  "heap (copy_node ht s e) = (heap ht)[s := e]"
  by (simp_all add: copy_node_def)

text \<open>
  \<open>moves ht ht' n\<close>: \<open>ht'\<close> differs from \<open>ht\<close> only in a permutation of the first \<open>n\<close> slots, with
  the id table following it.
\<close>

definition same_frame :: "timer_heap \<Rightarrow> timer_heap \<Rightarrow> bool" where
  "same_frame ht ht' \<longleftrightarrow>
     max_size ht' = max_size ht \<and> cur_size ht' = cur_size ht \<and>
     max_entries_per_poll ht' = max_entries_per_poll ht \<and> lock ht' = lock ht \<and>
     auto_delete_lock ht' = auto_delete_lock ht \<and>
     timer_ids_freelist ht' = timer_ids_freelist ht \<and> ents ht' = ents ht \<and>
     junk ht' = junk ht \<and> destroyed_locks ht' = destroyed_locks ht"

definition moves :: "timer_heap \<Rightarrow> timer_heap \<Rightarrow> nat \<Rightarrow> bool" where
  "moves ht ht' n \<longleftrightarrow>
     mset (take n (heap ht')) = mset (take n (heap ht)) \<and>
     length (heap ht') = length (heap ht) \<and>
     length (timer_ids ht') = length (timer_ids ht) \<and>
     (\<forall>k. k \<notin> slot_ids ht n \<longrightarrow> timer_ids ht' ! k = timer_ids ht ! k) \<and>
     same_frame ht ht'"

lemma moves_refl [simp]: "moves ht ht n"
  by (simp add: moves_def same_frame_def)

lemma moves_set: "moves a b n \<Longrightarrow> set (take n (heap b)) = set (take n (heap a))"
  unfolding moves_def by (metis mset_eq_setD)

lemma moves_ents: "moves a b n \<Longrightarrow> ents b = ents a"
  by (simp add: moves_def same_frame_def)

lemma moves_trans: "moves a b n \<Longrightarrow> moves b c n \<Longrightarrow> moves a c n"
  using moves_set [of a b n] moves_ents [of a b n] by (simp add: moves_def same_frame_def)

lemma swap_linked:
  assumes l: "linked ht n" and i: "i < n" and j: "j < n" and ij: "i \<noteq> j"
  defines "ht' \<equiv> copy_node (copy_node ht i (heap ht ! j)) j (heap ht ! i)"
  shows "linked ht' n" "moves ht ht' n"
    "heap ht' = (heap ht)[i := heap ht ! j, j := heap ht ! i]"
proof -
  let ?id = "\<lambda>k. nat (timer_id ht (heap ht ! k))"
  have n: "n \<le> length (heap ht)" using l by (simp add: linked_def)
  have neq: "?id k \<noteq> ?id k'" if "k < n" "k' < n" "k \<noteq> k'" for k k'
    using linked_id_inj [OF l] that by blast
  show hp: "heap ht' = (heap ht)[i := heap ht ! j, j := heap ht ! i]"
    by (simp add: ht'_def pj_frame)
  have ids: "timer_ids ht' = (timer_ids ht)[?id j := int i, ?id i := int j]"
    by (simp add: ht'_def copy_node_def)
  have en: "ents ht' = ents ht" by (simp add: ht'_def pj_frame)
  show "linked ht' n"
    unfolding linked_def
  proof (intro conjI allI impI)
    show "n \<le> length (heap ht')" using n by (simp add: hp)
  next
    fix k assume k: "k < n"
    let ?k = "if k = i then j else if k = j then i else k"
    have hk: "heap ht' ! k = heap ht ! ?k" using k i j n by (simp add: hp nth_list_update)
    have k': "?k < n" using i j k by simp
    have b: "0 \<le> timer_id ht (heap ht ! ?k)" "?id ?k < length (timer_ids ht)"
      using l k' unfolding linked_def by blast+
    then show "0 \<le> timer_id ht' (heap ht' ! k)"
      and "nat (timer_id ht' (heap ht' ! k)) < length (timer_ids ht')"
      by (simp_all only: hk en ids length_list_update)
    have "timer_ids ht ! ?id k = int k" using l k by (simp add: linked_def)
    with b neq [of k i] neq [of k j] neq [of i j] i j ij k
    show "timer_ids ht' ! nat (timer_id ht' (heap ht' ! k)) = int k"
      by (simp only: hk en ids) (auto simp: nth_list_update)
  qed
  have tk: "take n (heap ht') = (take n (heap ht))[i := take n (heap ht) ! j, j := take n (heap ht) ! i]"
    using i j by (simp add: hp take_update_swap)
  have "mset (take n (heap ht')) = mset (take n (heap ht))"
    unfolding tk using i j n by (intro mset_swap) auto
  moreover have "timer_ids ht' ! k = timer_ids ht ! k" if "k \<notin> slot_ids ht n" for k
  proof -
    have "heap ht ! i \<in> set (take n (heap ht))" "heap ht ! j \<in> set (take n (heap ht))"
      using i j n by (auto simp: set_take_conv_nth)
    with that have "k \<noteq> ?id i" "k \<noteq> ?id j" by blast+
    then show ?thesis by (simp add: ids)
  qed
  ultimately show "moves ht ht' n"
    by (auto simp: moves_def same_frame_def hp ids ht'_def pj_frame)
qed

text \<open>Copying a node down and placing the moved node in the hole is a swap.\<close>

lemma copy_node_hole:
  assumes "linked (copy_node ht s m) n" "s < n" "c < n" "c \<noteq> s"
  shows "copy_node (copy_node ht s (heap ht ! c)) c m =
    copy_node (copy_node (copy_node ht s m) s (heap (copy_node ht s m) ! c)) c
      (heap (copy_node ht s m) ! s)"
proof -
  let ?P = "copy_node ht s m"
  have len: "s < length (heap ht)" using assms by (simp add: linked_def pj_frame)
  have "nat (timer_id ht (heap ?P ! s)) \<noteq> nat (timer_id ht (heap ?P ! c))"
    using linked_id_inj [OF assms(1), of s c] assms by (auto simp: pj_frame)
  then have ne: "nat (timer_id ht m) \<noteq> nat (timer_id ht (heap ht ! c))"
    using assms len by (simp add: pj_frame)
  have ids: "(timer_ids ht)[nat (timer_id ht m) := int s, nat (timer_id ht (heap ht ! c)) := int s,
      nat (timer_id ht m) := int c] =
    (timer_ids ht)[nat (timer_id ht (heap ht ! c)) := int s, nat (timer_id ht m) := int c]"
    using ne by (metis list_update_overwrite list_update_swap)
  show ?thesis
    using assms len ids by (simp add: copy_node_def)
qed


section \<open>Restoring the order\<close>

text \<open>
  Both loops are stated over the heap with the moved node already placed in the hole: it is
  linked, and every iteration swaps the node with its parent or its smaller child.
\<close>

lemma reheap_up_correct:
  assumes "linked (copy_node ht m_slot m) n" "m_slot < n"
    "up_ok (timer_value ht) ((heap ht)[m_slot := m]) n m_slot" "parent = HEAP_PARENT m_slot"
  shows "moves (copy_node ht m_slot m) (reheap_up ht m m_slot parent) n \<and>
    linked (reheap_up ht m m_slot parent) n \<and>
    heap_ord (timer_value ht) (heap (reheap_up ht m m_slot parent)) n"
  using assms
proof (induction ht m m_slot parent rule: reheap_up.induct)
  case (1 ht m s p)
  let ?P = "copy_node ht s m"
  let ?v = "timer_value ht"
  have n: "n \<le> length (heap ht)" using "1.prems" by (simp add: linked_def pj_frame)
  show ?case
  proof (cases "s > 0 \<and> ?v m < ?v (heap ht ! p)")
    case True
    let ?Q = "copy_node (copy_node ht s (heap ht ! p)) p m"
    have p: "p < s" "p < n" using True "1.prems" HEAP_PARENT_less [of s] by auto
    have Q: "?Q = copy_node (copy_node ?P s (heap ?P ! p)) p (heap ?P ! s)"
      using "1.prems" p by (intro copy_node_hole [of ht s m n]) auto
    have sw: "linked ?Q n" "moves ?P ?Q n" "heap ?Q = (heap ?P)[s := heap ?P ! p, p := heap ?P ! s]"
      unfolding Q using swap_linked [of ?P n s p] "1.prems" p by auto
    have hQ: "heap ?Q = ((heap ht)[s := m])[s := (heap ht)[s := m] ! p, p := (heap ht)[s := m] ! s]"
      using sw(3) by (simp add: pj_frame)
    have "up_ok ?v (heap ?Q) n p"
      using up_step [of ?v "(heap ht)[s := m]" n s] "1.prems" True p n hQ
      by (auto simp: nth_list_update)
    then have "up_ok ?v ((heap (copy_node ht s (heap ht ! p)))[p := m]) n p"
      by (simp add: pj_frame)
    with "1.IH" True sw(1) p "1.prems" have
      "moves ?Q (reheap_up (copy_node ht s (heap ht ! p)) m p (HEAP_PARENT p)) n \<and>
       linked (reheap_up (copy_node ht s (heap ht ! p)) m p (HEAP_PARENT p)) n \<and>
       heap_ord ?v (heap (reheap_up (copy_node ht s (heap ht ! p)) m p (HEAP_PARENT p))) n"
      by (simp add: pj_frame)
    then show ?thesis
      using True sw(2) by (auto simp: reheap_up.simps [of ht m s p] intro: moves_trans)
  next
    case False
    then have r: "reheap_up ht m s p = ?P" by (auto simp: reheap_up.simps [of ht m s p])
    have "heap_ord ?v ((heap ht)[s := m]) n"
    proof (rule up_done [OF "1.prems"(3)])
      show "s = 0 \<or> ?v ((heap ht)[s := m] ! HEAP_PARENT s) \<le> ?v ((heap ht)[s := m] ! s)"
        using False "1.prems" n HEAP_PARENT_less [of s] by (cases "s = 0") auto
    qed
    then show ?thesis unfolding r using "1.prems" by (simp add: pj_frame)
  qed
qed

lemma reheap_down_correct:
  assumes "linked (copy_node ht m_slot m) n" "m_slot < n" "cur_size ht = n"
    "down_ok (timer_value ht) ((heap ht)[m_slot := m]) n m_slot" "child = HEAP_LEFT m_slot"
  shows "moves (copy_node ht m_slot m) (reheap_down ht m m_slot child) n \<and>
    linked (reheap_down ht m m_slot child) n \<and>
    heap_ord (timer_value ht) (heap (reheap_down ht m m_slot child)) n"
  using assms
proof (induction ht m m_slot child rule: reheap_down.induct)
  case (1 ht m s c)
  let ?P = "copy_node ht s m"
  let ?v = "timer_value ht"
  let ?c = "if c + 1 < cur_size ht \<and> ?v (heap ht ! (c + 1)) < ?v (heap ht ! c) then c + 1 else c"
  have n: "n \<le> length (heap ht)" using "1.prems" by (simp add: linked_def pj_frame)
  have sc: "s < ?c" "?c = HEAP_LEFT s \<or> ?c = Suc (HEAP_LEFT s)"
    using "1.prems" by (auto simp: HEAP_LEFT_def)
  have least: "?v (heap ht ! ?c) \<le> ?v (heap ht ! i)" if "0 < i" "i < n" "HEAP_PARENT i = s" for i
    using that "1.prems" by (auto simp: HEAP_PARENT_eq_iff)
  have pne: "HEAP_PARENT i = s \<Longrightarrow> 0 < i \<Longrightarrow> i \<noteq> s" for i
    using HEAP_PARENT_less [of i] by auto
  show ?case
  proof (cases "c < cur_size ht \<and> ?v (heap ht ! ?c) < ?v m")
    case True
    let ?Q = "copy_node (copy_node ht s (heap ht ! ?c)) ?c m"
    have cn: "?c < n" using True "1.prems" by auto
    have Q: "?Q = copy_node (copy_node ?P s (heap ?P ! ?c)) ?c (heap ?P ! s)"
      using "1.prems" cn sc(1) by (intro copy_node_hole [of ht s m n]) auto
    have sw: "linked ?Q n" "moves ?P ?Q n" "heap ?Q = (heap ?P)[s := heap ?P ! ?c, ?c := heap ?P ! s]"
      unfolding Q using swap_linked [of ?P n s ?c] "1.prems" cn sc(1) by auto
    have hQ: "heap ?Q = ((heap ht)[s := m])[s := (heap ht)[s := m] ! ?c, ?c := (heap ht)[s := m] ! s]"
      using sw(3) by (simp add: pj_frame)
    have hs: "(heap ht)[s := m] ! s = m" "(heap ht)[s := m] ! ?c = heap ht ! ?c"
      using "1.prems" n sc(1) by auto
    have "down_ok ?v (heap ?Q) n ?c"
      unfolding hQ
    proof (rule down_step)
      show "down_ok ?v ((heap ht)[s := m]) n s" by (rule "1.prems")
      show "?v ((heap ht)[s := m] ! ?c) \<le> ?v ((heap ht)[s := m] ! i)"
        if "0 < i" "i < n" "HEAP_PARENT i = s" for i
        using least [OF that] pne [of i] that hs by simp
      show "?v ((heap ht)[s := m] ! ?c) < ?v ((heap ht)[s := m] ! s)" using True hs by simp
    qed (use "1.prems" n cn sc in auto)
    then have "down_ok ?v ((heap (copy_node ht s (heap ht ! ?c)))[?c := m]) n ?c"
      by (simp add: pj_frame)
    with "1.IH" [of ?c] True sw(1) cn "1.prems" have
      "moves ?Q (reheap_down (copy_node ht s (heap ht ! ?c)) m ?c (HEAP_LEFT ?c)) n \<and>
       linked (reheap_down (copy_node ht s (heap ht ! ?c)) m ?c (HEAP_LEFT ?c)) n \<and>
       heap_ord ?v (heap (reheap_down (copy_node ht s (heap ht ! ?c)) m ?c (HEAP_LEFT ?c))) n"
      by (simp add: pj_frame)
    moreover have "reheap_down ht m s c = reheap_down (copy_node ht s (heap ht ! ?c)) m ?c (HEAP_LEFT ?c)"
      using True by (subst reheap_down.simps) (simp add: Let_def)
    ultimately show ?thesis using sw(2) by (auto intro: moves_trans)
  next
    case False
    then have r: "reheap_down ht m s c = ?P"
      by (subst reheap_down.simps) (auto simp: Let_def)
    have "heap_ord ?v ((heap ht)[s := m]) n"
    proof (rule down_done [OF "1.prems"(4)])
      fix i assume i: "0 < i" "i < n" "HEAP_PARENT i = s"
      then have "c < cur_size ht" using "1.prems" by (auto simp: HEAP_PARENT_eq_iff)
      with False have "?v m \<le> ?v (heap ht ! ?c)" by auto
      with least [OF i] pne [of i] i show "?v ((heap ht)[s := m] ! s) \<le> ?v ((heap ht)[s := m] ! i)"
        using "1.prems" n by simp
    qed
    then show ?thesis unfolding r using "1.prems" by (simp add: pj_frame)
  qed
qed

section \<open>The free list\<close>

text \<open>
  \<open>free_chain ids f fs n\<close>: starting from id \<open>f\<close>, the negated table entries lead through the ids
  \<open>fs\<close> to \<open>n\<close>, the first id past the table.
\<close>

fun free_chain :: "int list \<Rightarrow> int \<Rightarrow> nat list \<Rightarrow> nat \<Rightarrow> bool" where
  "free_chain ids f [] n \<longleftrightarrow> f = int n"
| "free_chain ids f (x # xs) n \<longleftrightarrow> f = int x \<and> x < length ids \<and> free_chain ids (- (ids ! x)) xs n"

lemma free_chain_cong:
  "(\<And>x. x \<in> set fs \<Longrightarrow> ids' ! x = ids ! x) \<Longrightarrow> length ids \<le> length ids' \<Longrightarrow>
   free_chain ids f fs n \<Longrightarrow> free_chain ids' f fs n"
  by (induction fs arbitrary: f) auto


lemma free_chain_upt:
  assumes "\<And>i. m \<le> i \<Longrightarrow> i < n \<Longrightarrow> ids ! i = - (int i + 1)" "m \<le> n" "n \<le> length ids"
  shows "free_chain ids (int m) [m..<n] n"
  using assms
proof (induction "n - m" arbitrary: m)
  case (Suc k)
  then have "free_chain ids (int (Suc m)) [Suc m..<n] n" by (intro Suc.hyps(1)) auto
  moreover have "[m..<n] = m # [Suc m..<n]" using Suc by (simp add: upt_conv_Cons)
  moreover have "- (ids ! m) = int (Suc m)" "m < length ids" using Suc.prems Suc.hyps(2) by auto
  ultimately show ?case by (simp del: of_nat_Suc)
qed simp

lemma free_chain_trans:
  "free_chain ids f xs m \<Longrightarrow> free_chain ids (int m) ys n \<Longrightarrow> free_chain ids f (xs @ ys) n"
  by (induction xs arbitrary: f) auto

section \<open>The representation invariant\<close>

definition pending :: "timer_heap \<Rightarrow> eref set" where
  "pending ht = set (take (cur_size ht) (heap ht))"

text \<open>The abstract state of a timer heap: its pending entries with their expiry times.\<close>

definition timers :: "timer_heap \<Rightarrow> eref \<rightharpoonup> pj_time_val" where
  "timers ht = (\<lambda>e. if e \<in> pending ht then Some (timer_value ht e) else None)"

text \<open>The ids in use and the free ids \<open>fs\<close> share out the table but for the unused id 0.\<close>

definition ids_inv :: "timer_heap \<Rightarrow> nat \<Rightarrow> nat list \<Rightarrow> bool" where
  "ids_inv ht n fs \<longleftrightarrow> free_chain (timer_ids ht) (timer_ids_freelist ht) fs (max_size ht) \<and>
     distinct fs \<and> set fs \<inter> slot_ids ht n = {} \<and> set fs \<union> slot_ids ht n = {1..<max_size ht} \<and>
     timer_ids ht ! 0 = -1"

definition th_inv :: "timer_heap \<Rightarrow> bool" where
  "th_inv ht \<longleftrightarrow> length (heap ht) = max_size ht \<and> length (timer_ids ht) = max_size ht \<and>
     cur_size ht + 2 \<le> max_size ht \<and> linked ht (cur_size ht) \<and>
     heap_ord (timer_value ht) (heap ht) (cur_size ht) \<and>
     (\<exists>fs. ids_inv ht (cur_size ht) fs) \<and>
     (\<forall>e. 1 \<le> timer_id ht e \<longrightarrow> e \<in> pending ht)"

lemma slot_ids_card: "linked ht n \<Longrightarrow> card (slot_ids ht n) = n"
proof -
  assume l: "linked ht n"
  have "inj_on (\<lambda>e. nat (timer_id ht e)) (set (take n (heap ht)))"
    using linked_slot [OF l] by (intro inj_onI) (metis of_nat_eq_iff)
  then have "card (slot_ids ht n) = card (set (take n (heap ht)))" by (rule card_image)
  also have "\<dots> = n"
    using linked_distinct [OF l] l by (simp add: distinct_card linked_def)
  finally show ?thesis .
qed

lemma free_nonempty:
  assumes "th_inv ht" "ids_inv ht (cur_size ht) fs"
  shows "fs \<noteq> []"
proof
  assume "fs = []"
  with assms(2) have "slot_ids ht (cur_size ht) = {1..<max_size ht}" by (simp add: ids_inv_def)
  then have "card (slot_ids ht (cur_size ht)) = max_size ht - 1" by simp
  with slot_ids_card [of ht "cur_size ht"] assms(1) show False by (auto simp: th_inv_def)
qed

lemma pending_iff: "th_inv ht \<Longrightarrow> e \<in> pending ht \<longleftrightarrow> 1 \<le> timer_id ht e"
proof
  assume inv: "th_inv ht" and e: "e \<in> pending ht"
  from inv obtain fs where "ids_inv ht (cur_size ht) fs" by (auto simp: th_inv_def)
  with e have "nat (timer_id ht e) \<in> {1..<max_size ht}" by (auto simp: ids_inv_def pending_def)
  then show "1 \<le> timer_id ht e" by auto
qed (simp add: th_inv_def)

lemma pending_id_less: "th_inv ht \<Longrightarrow> e \<in> pending ht \<Longrightarrow> nat (timer_id ht e) < max_size ht"
  by (auto simp: th_inv_def linked_def pending_def set_take_conv_nth)

lemma ids_inv_slot_range: "ids_inv ht n fs \<Longrightarrow> k \<in> slot_ids ht n \<Longrightarrow> 1 \<le> k \<and> k < max_size ht"
  unfolding ids_inv_def by (metis UnI2 atLeastLessThan_iff)

lemma ids_inv_moves:
  assumes "ids_inv ht n fs" "moves ht ht' n"
  shows "ids_inv ht' n fs"
proof -
  have "free_chain (timer_ids ht') (timer_ids_freelist ht') fs (max_size ht')"
  proof (rule free_chain_cong)
    show "free_chain (timer_ids ht) (timer_ids_freelist ht') fs (max_size ht')"
      using assms by (simp add: ids_inv_def moves_def same_frame_def)
    show "length (timer_ids ht) \<le> length (timer_ids ht')" using assms(2) by (simp add: moves_def)
    show "timer_ids ht' ! x = timer_ids ht ! x" if "x \<in> set fs" for x
      using assms that unfolding ids_inv_def moves_def by blast
  qed
  moreover have "0 \<notin> slot_ids ht n" using ids_inv_slot_range [OF assms(1)] by force
  then have "timer_ids ht' ! 0 = -1" using assms by (simp add: ids_inv_def moves_def)
  ultimately show ?thesis
    using assms moves_set [OF assms(2)] moves_ents [OF assms(2)]
    by (simp add: ids_inv_def moves_def same_frame_def)
qed

lemma th_inv_moves:
  assumes "length (heap ht) = max_size ht" "length (timer_ids ht) = max_size ht"
    "cur_size ht + 2 \<le> max_size ht" "ids_inv ht (cur_size ht) fs"
    "\<forall>e. 1 \<le> timer_id ht e \<longrightarrow> e \<in> pending ht"
    "moves ht ht' (cur_size ht)" "linked ht' (cur_size ht)"
    "heap_ord (timer_value ht) (heap ht') (cur_size ht)"
  shows "th_inv ht'" "pending ht' = pending ht"
proof -
  have f: "same_frame ht ht'" "length (heap ht') = length (heap ht)"
    "length (timer_ids ht') = length (timer_ids ht)"
    using assms(6) by (auto simp: moves_def)
  show p: "pending ht' = pending ht"
    using moves_set [OF assms(6)] f by (simp add: pending_def same_frame_def)
  show "th_inv ht'"
    using assms f p ids_inv_moves [OF assms(4,6)] by (auto simp: th_inv_def same_frame_def)
qed


section \<open>The operations keep the invariant and implement the abstract state\<close>

lemma set_timer_frame [pj_frame]:
  "heap (set_timer_id ht e i) = heap ht" "timer_ids (set_timer_id ht e i) = timer_ids ht"
  "cur_size (set_timer_id ht e i) = cur_size ht" "max_size (set_timer_id ht e i) = max_size ht"
  "timer_ids_freelist (set_timer_id ht e i) = timer_ids_freelist ht"
  "heap (set_timer_value ht e t) = heap ht" "timer_ids (set_timer_value ht e t) = timer_ids ht"
  "cur_size (set_timer_value ht e t) = cur_size ht" "max_size (set_timer_value ht e t) = max_size ht"
  "timer_ids_freelist (set_timer_value ht e t) = timer_ids_freelist ht"
  "timer_id (set_timer_id ht e i) x = (if x = e then i else timer_id ht x)"
  "timer_value (set_timer_id ht e i) x = timer_value ht x"
  "timer_id (set_timer_value ht e t) x = timer_id ht x"
  "timer_value (set_timer_value ht e t) x = (if x = e then t else timer_value ht x)"
  "te_cb (ents (set_timer_id ht e i) x) = te_cb (ents ht x)"
  "te_cb (ents (set_timer_value ht e t) x) = te_cb (ents ht x)"
  "max_entries_per_poll (set_timer_id ht e i) = max_entries_per_poll ht"
  "max_entries_per_poll (set_timer_value ht e t) = max_entries_per_poll ht"
  by (simp_all add: set_timer_id_def set_timer_value_def)

lemma push_freelist_frame [pj_frame]:
  "heap (push_freelist ht i) = heap ht" "ents (push_freelist ht i) = ents ht"
  "cur_size (push_freelist ht i) = cur_size ht" "max_size (push_freelist ht i) = max_size ht"
  "timer_ids (push_freelist ht i) = (timer_ids ht)[nat i := - timer_ids_freelist ht]"
  "timer_ids_freelist (push_freelist ht i) = i"
  "max_entries_per_poll (push_freelist ht i) = max_entries_per_poll ht"
  by (simp_all add: push_freelist_def)

text \<open>
  The state of a removal before the order is restored: the id is back on the free list, the last
  entry of the heap fills the slot.
\<close>

definition unlink :: "timer_heap \<Rightarrow> nat \<Rightarrow> timer_heap" where
  "unlink ht slot =
     (let e = heap ht ! slot
      in set_timer_id ((push_freelist ht (timer_id ht e))\<lparr>cur_size := cur_size ht - 1\<rparr>) e (-1))"

lemma remove_node_unlink:
  "remove_node ht slot =
     (let u = unlink ht slot; m = heap u ! cur_size u; p = copy_node u slot m in
      (if slot < cur_size u then
         if timer_value p (heap p ! HEAP_PARENT slot) \<le> timer_value p m
         then reheap_down p m slot (HEAP_LEFT slot)
         else reheap_up p m slot (HEAP_PARENT slot)
       else u, heap ht ! slot))"
  by (simp add: remove_node_def unlink_def Let_def pj_frame)

lemma unlink_frame [pj_frame]:
  "heap (unlink ht s) = heap ht" "cur_size (unlink ht s) = cur_size ht - 1"
  "max_size (unlink ht s) = max_size ht"
  "timer_value (unlink ht s) e = timer_value ht e"
  "timer_id (unlink ht s) e = (if e = heap ht ! s then -1 else timer_id ht e)"
  "te_cb (ents (unlink ht s) e) = te_cb (ents ht e)"
  "timer_ids_freelist (unlink ht s) = timer_id ht (heap ht ! s)"
  "timer_ids (unlink ht s) = (timer_ids ht)[nat (timer_id ht (heap ht ! s)) := - timer_ids_freelist ht]"
  "max_entries_per_poll (unlink ht s) = max_entries_per_poll ht"
  by (simp_all add: unlink_def Let_def pj_frame)

lemma unlink_placed:
  assumes inv: "th_inv ht" and s: "s < cur_size ht"
  defines "u \<equiv> unlink ht s" and "n \<equiv> cur_size ht - 1"
  defines "p \<equiv> (if s < n then copy_node u s (heap ht ! n) else u)"
  shows "linked p n" "set (take n (heap p)) = pending ht - {heap ht ! s}"
    "\<exists>fs. ids_inv p n fs" "heap p = (if s < n then (heap ht)[s := heap ht ! n] else heap ht)"
proof -
  let ?e = "heap ht ! s"
  have len: "length (heap ht) = max_size ht" "length (timer_ids ht) = max_size ht"
    "cur_size ht + 2 \<le> max_size ht" and l: "linked ht (cur_size ht)"
    using inv by (auto simp: th_inv_def)
  have n: "cur_size ht = Suc n" "n < length (heap ht)" using s len by (auto simp: n_def)
  have dist: "distinct (take (Suc n) (heap ht))" using linked_distinct [OF l] n by simp
  have neq: "heap ht ! i \<noteq> heap ht ! j" if "i < Suc n" "j < Suc n" "i \<noteq> j" for i j
    using distinct_take_nth_neq [OF dist] that n by simp
  have idneq: "nat (timer_id ht (heap ht ! i)) \<noteq> nat (timer_id ht (heap ht ! j))"
    if "i < Suc n" "j < Suc n" "i \<noteq> j" for i j
    using linked_id_inj [OF l] that n by metis
  have lk: "0 \<le> timer_id ht (heap ht ! i)" "nat (timer_id ht (heap ht ! i)) < length (timer_ids ht)"
    "timer_ids ht ! nat (timer_id ht (heap ht ! i)) = int i" if "i < Suc n" for i
    using l that n by (auto simp: linked_def)
  show hp: "heap p = (if s < n then (heap ht)[s := heap ht ! n] else heap ht)"
    by (simp add: p_def u_def pj_frame)
  have idp: "timer_id p x = (if x = ?e then -1 else timer_id ht x)" for x
    by (simp add: p_def u_def pj_frame)
  have tip: "timer_ids p = (if s < n then (timer_ids ht)[nat (timer_id ht ?e) := - timer_ids_freelist ht,
      nat (timer_id ht (heap ht ! n)) := int s]
      else (timer_ids ht)[nat (timer_id ht ?e) := - timer_ids_freelist ht])"
    using neq [of n s] by (auto simp: p_def u_def copy_node_def pj_frame)
  show "linked p n"
    unfolding linked_def
  proof (intro conjI allI impI)
    show "n \<le> length (heap p)" using n by (simp add: hp)
  next
    fix i assume i: "i < n"
    let ?i = "if i = s then n else i"
    have hi: "heap p ! i = heap ht ! ?i" using i n by (auto simp: hp nth_list_update)
    have ib: "?i < Suc n" "?i \<noteq> s" using i s n by auto
    then have "heap ht ! ?i \<noteq> ?e" using neq [of ?i s] s n by simp
    then have id: "timer_id p (heap p ! i) = timer_id ht (heap ht ! ?i)"
      by (simp only: hi idp if_False)
    show "0 \<le> timer_id p (heap p ! i)" unfolding id using lk(1) ib by blast
    show "nat (timer_id p (heap p ! i)) < length (timer_ids p)"
      unfolding id using lk(2) [OF ib(1)] by (simp only: tip length_list_update split: if_split) simp
    show "timer_ids p ! nat (timer_id p (heap p ! i)) = int i"
      unfolding id using lk [of ?i] lk [of n] idneq [of ?i s] idneq [of ?i n] ib i s n
      by (auto simp: tip nth_list_update)
  qed
  have pend: "pending ht = insert (heap ht ! n) (set (take n (heap ht)))"
    using n by (simp add: pending_def take_Suc_conv_app_nth)
  have dn: "distinct (take n (heap ht))" "heap ht ! n \<notin> set (take n (heap ht))"
    using dist n by (simp_all add: take_Suc_conv_app_nth)
  show sp: "set (take n (heap p)) = pending ht - {?e}"
  proof (cases "s < n")
    case True
    then have "set (take n (heap p)) = insert (heap ht ! n) (set (take n (heap ht)) - {take n (heap ht) ! s})"
      using dn n by (simp add: hp take_update_swap set_update_distinct)
    then show ?thesis using True neq [of n s] by (auto simp: pend)
  next
    case False
    then show ?thesis using s n dn by (auto simp: hp pend less_Suc_eq)
  qed
  obtain fs where fs: "ids_inv ht (Suc n) fs" using inv n by (auto simp: th_inv_def)
  let ?k = "nat (timer_id ht ?e)"
  have eS: "?e \<in> pending ht" using s n by (auto simp: pending_def set_take_conv_nth)
  have sl: "slot_ids p n = slot_ids ht (Suc n) - {?k}"
  proof -
    have "slot_ids p n = (\<lambda>e. nat (timer_id ht e)) ` (pending ht - {?e})"
      unfolding sp by (rule image_cong) (auto simp: idp)
    moreover have "nat (timer_id ht x) \<noteq> ?k" if "x \<in> pending ht" "x \<noteq> ?e" for x
      using that idneq s n by (auto simp: pending_def set_take_conv_nth)
    ultimately show ?thesis using eS n by (auto simp: pending_def)
  qed
  have kin: "?k \<in> slot_ids ht (Suc n)" using eS n by (simp add: pending_def)
  have nin: "nat (timer_id ht (heap ht ! n)) \<in> slot_ids ht (Suc n)" using pend n by (simp add: pending_def)
  have "ids_inv p n (?k # fs)"
  proof -
    have "timer_ids p ! x = timer_ids ht ! x" if "x \<in> set fs" for x
    proof -
      have "x \<noteq> ?k" "x \<noteq> nat (timer_id ht (heap ht ! n))" using that fs kin nin by (auto simp: ids_inv_def)
      then show ?thesis by (simp add: tip)
    qed
    moreover have "free_chain (timer_ids ht) (timer_ids_freelist ht) fs (max_size ht)"
      using fs by (simp add: ids_inv_def)
    ultimately have "free_chain (timer_ids p) (timer_ids_freelist ht) fs (max_size ht)"
      using free_chain_cong [of fs "timer_ids p" "timer_ids ht"] by (simp add: tip)
    moreover have "- (timer_ids p ! ?k) = timer_ids_freelist ht" "?k < length (timer_ids p)"
      using lk(2) [of s] idneq [of n s] s n by (auto simp: tip nth_list_update)
    moreover have "timer_ids_freelist p = int ?k" "max_size p = max_size ht"
      using lk(1) [of s] s n by (simp_all add: p_def u_def pj_frame)
    moreover have "?k \<notin> set fs" using fs kin by (auto simp: ids_inv_def)
    moreover have "timer_ids p ! 0 = -1"
    proof -
      have "?k \<noteq> 0" "nat (timer_id ht (heap ht ! n)) \<noteq> 0"
        using ids_inv_slot_range [OF fs] kin nin by force+
      then show ?thesis using fs by (simp add: tip ids_inv_def)
    qed
    ultimately show ?thesis using fs kin unfolding ids_inv_def sl by auto
  qed
  then show "\<exists>fs. ids_inv p n fs" ..
qed

lemma copy_node_idem [simp]: "copy_node (copy_node ht s m) s m = copy_node ht s m"
  by (simp add: copy_node_def)

lemma remove_node_correct:
  assumes inv: "th_inv ht" and s: "s < cur_size ht"
  shows "th_inv (fst (remove_node ht s))" "snd (remove_node ht s) = heap ht ! s"
    "pending (fst (remove_node ht s)) = pending ht - {heap ht ! s}"
    "cur_size (fst (remove_node ht s)) = cur_size ht - 1"
    "timer_value (fst (remove_node ht s)) = timer_value ht"
    "timer_id (fst (remove_node ht s)) = (timer_id ht)(heap ht ! s := -1)"
    "te_cb (ents (fst (remove_node ht s)) e) = te_cb (ents ht e)"
    "max_entries_per_poll (fst (remove_node ht s)) = max_entries_per_poll ht"
proof -
  let ?u = "unlink ht s" and ?n = "cur_size ht - 1"
  let ?p = "if s < ?n then copy_node ?u s (heap ht ! ?n) else ?u"
  let ?r = "fst (remove_node ht s)"
  have n: "cur_size ht = Suc ?n" using s by simp
  note pl = unlink_placed [OF inv s]
  have ord: "heap_ord (timer_value ht) (heap ht) (Suc ?n)" and len: "length (heap ht) = max_size ht"
    "length (timer_ids ht) = max_size ht" "cur_size ht + 2 \<le> max_size ht"
    using inv n by (auto simp: th_inv_def)
  have val: "timer_value ?p = timer_value ht" by (auto simp: pj_frame)
  have fp: "cur_size ?p = ?n" "max_size ?p = max_size ht" "length (heap ?p) = max_size ht"
    "length (timer_ids ?p) = max_size ht"
    by (simp_all add: pj_frame len copy_node_def)
  show "snd (remove_node ht s) = heap ht ! s"
    by (simp add: remove_node_unlink Let_def)
  have r: "moves ?p ?r ?n \<and> linked ?r ?n \<and> heap_ord (timer_value ?p) (heap ?r) ?n"
  proof (cases "s < ?n")
    case True
    let ?m = "heap ht ! ?n"
    let ?q = "copy_node ?u s ?m"
    have p: "?p = ?q" using True by simp
    have hq: "heap ?q = (heap ht)[s := ?m]" by (simp add: pj_frame)
    have lq: "linked (copy_node ?q s ?m) ?n" using pl(1) True by simp
    show ?thesis
    proof (cases "timer_value ht ((heap ht)[s := ?m] ! HEAP_PARENT s) \<le> timer_value ht ?m")
      case le: True
      then have "down_ok (timer_value ?q) ((heap ?q)[s := ?m]) ?n s"
        using replace_down [OF ord True] len n by (simp add: hq pj_frame)
      then have "moves (copy_node ?q s ?m) (reheap_down ?q ?m s (HEAP_LEFT s)) ?n \<and>
          linked (reheap_down ?q ?m s (HEAP_LEFT s)) ?n \<and>
          heap_ord (timer_value ?q) (heap (reheap_down ?q ?m s (HEAP_LEFT s))) ?n"
        using lq True fp p by (intro reheap_down_correct) (simp_all add: pj_frame)
      moreover have "?r = reheap_down ?q ?m s (HEAP_LEFT s)"
        using True le by (simp add: remove_node_unlink Let_def pj_frame)
      ultimately show ?thesis by (simp only: p copy_node_idem)
    next
      case False
      then have "up_ok (timer_value ?q) ((heap ?q)[s := ?m]) ?n s"
        using replace_up(2) [OF ord True] len n by (simp add: hq pj_frame)
      then have "moves (copy_node ?q s ?m) (reheap_up ?q ?m s (HEAP_PARENT s)) ?n \<and>
          linked (reheap_up ?q ?m s (HEAP_PARENT s)) ?n \<and>
          heap_ord (timer_value ?q) (heap (reheap_up ?q ?m s (HEAP_PARENT s))) ?n"
        using lq True by (intro reheap_up_correct) simp_all
      moreover have "?r = reheap_up ?q ?m s (HEAP_PARENT s)"
        using True False by (simp add: remove_node_unlink Let_def pj_frame)
      ultimately show ?thesis by (simp only: p copy_node_idem)
    qed
  next
    case False
    then have "?r = ?p" by (simp add: remove_node_unlink Let_def pj_frame)
    moreover have "heap_ord (timer_value ?p) (heap ?p) ?n"
      using False ord by (simp add: pj_frame heap_ord_def)
    ultimately show ?thesis using pl(1) by (simp only: moves_refl)
  qed
  have pend: "pending ?p = pending ht - {heap ht ! s}" using pl(2) fp by (simp add: pending_def)
  have old: "1 \<le> timer_id ?p e \<Longrightarrow> e \<in> pending ?p" for e
    using inv unfolding pend by (auto simp: pj_frame th_inv_def split: if_splits)
  obtain fs where fs: "ids_inv ?p ?n fs" using pl(3) by blast
  show "th_inv ?r" "pending ?r = pending ht - {heap ht ! s}"
    using th_inv_moves [of ?p fs ?r] fs fp r len old s pend by auto
  have fr: "same_frame ?p ?r" using r by (simp add: moves_def)
  show "cur_size ?r = ?n" "timer_value ?r = timer_value ht"
    "timer_id ?r = (timer_id ht)(heap ht ! s := -1)" "te_cb (ents ?r e) = te_cb (ents ht e)"
    "max_entries_per_poll ?r = max_entries_per_poll ht"
    using fr fp val by (auto simp: same_frame_def pj_frame fun_eq_iff)
qed

text \<open>
  \<open>reserved ht e x fs\<close>: the id \<open>x\<close> has been taken from the free list for the entry \<open>e\<close>, which is
  not yet in the heap. Growing the heap keeps this, and leaves room for the entry.
\<close>

definition reserved :: "timer_heap \<Rightarrow> eref \<Rightarrow> nat \<Rightarrow> nat list \<Rightarrow> bool" where
  "reserved ht e x fs \<longleftrightarrow> length (heap ht) = max_size ht \<and> length (timer_ids ht) = max_size ht \<and>
     linked ht (cur_size ht) \<and> heap_ord (timer_value ht) (heap ht) (cur_size ht) \<and>
     e \<notin> pending ht \<and> timer_id ht e = int x \<and> x \<notin> slot_ids ht (cur_size ht) \<and> x \<notin> set fs \<and>
     free_chain (timer_ids ht) (timer_ids_freelist ht) fs (max_size ht) \<and> distinct fs \<and>
     set fs \<inter> slot_ids ht (cur_size ht) = {} \<and>
     insert x (set fs \<union> slot_ids ht (cur_size ht)) = {1..<max_size ht} \<and>
     (\<forall>a. 1 \<le> timer_id ht a \<longrightarrow> a \<in> insert e (pending ht)) \<and> timer_ids ht ! 0 = -1"

lemma reservedD:
  assumes "reserved ht e x fs"
  shows "length (heap ht) = max_size ht" "length (timer_ids ht) = max_size ht"
    "linked ht (cur_size ht)" "heap_ord (timer_value ht) (heap ht) (cur_size ht)"
    "e \<notin> pending ht" "timer_id ht e = int x" "x \<notin> slot_ids ht (cur_size ht)" "x \<notin> set fs"
    "free_chain (timer_ids ht) (timer_ids_freelist ht) fs (max_size ht)" "distinct fs"
    "set fs \<inter> slot_ids ht (cur_size ht) = {}"
    "insert x (set fs \<union> slot_ids ht (cur_size ht)) = {1..<max_size ht}"
    "\<forall>a. 1 \<le> timer_id ht a \<longrightarrow> a \<in> insert e (pending ht)" "timer_ids ht ! 0 = -1"
  using assms unfolding reserved_def by blast+

lemma grow_heap_frame [pj_frame]:
  "cur_size (grow_heap ht) = cur_size ht" "ents (grow_heap ht) = ents ht"
  "max_size (grow_heap ht) = 2 * max_size ht"
  "timer_ids_freelist (grow_heap ht) = timer_ids_freelist ht"
  "max_entries_per_poll (grow_heap ht) = max_entries_per_poll ht"
  by (simp_all add: grow_heap_def Let_def)

lemma grow_heap_reserved:
  assumes r: "reserved ht e x fs" and n: "cur_size ht + 2 \<le> max_size ht"
  shows "reserved (grow_heap ht) e x (fs @ [max_size ht..<2 * max_size ht])"
proof -
  let ?g = "grow_heap ht" and ?m = "max_size ht"
  have len: "length (heap ht) = ?m" "length (timer_ids ht) = ?m" using r by (auto simp: reserved_def)
  have hp: "heap ?g = heap ht @ map (junk ht) [?m..<2 * ?m]"
    and ti: "timer_ids ?g = timer_ids ht @ map (\<lambda>i. - (int i + 1)) [?m..<2 * ?m]"
    using len by (simp_all add: grow_heap_def Let_def mult.commute)
  have tk: "take (cur_size ht) (heap ?g) = take (cur_size ht) (heap ht)" using n len by (simp add: hp)
  have nth: "i < ?m \<Longrightarrow> heap ?g ! i = heap ht ! i" "i < ?m \<Longrightarrow> timer_ids ?g ! i = timer_ids ht ! i" for i
    using len by (simp_all add: hp ti nth_append)
  have lk: "linked ?g (cur_size ht)"
    using r n len nth unfolding reserved_def linked_def by (auto simp: hp ti pj_frame)
  have ho: "heap_ord (timer_value ht) (heap ?g) (cur_size ht)"
    using r n nth heap_ord_cong [of "cur_size ht" "timer_value ht" "heap ?g" "timer_value ht" "heap ht"]
    by (simp add: reserved_def)
  have "free_chain (timer_ids ?g) (timer_ids_freelist ht) fs ?m"
  proof (rule free_chain_cong)
    show "free_chain (timer_ids ht) (timer_ids_freelist ht) fs ?m" using r by (simp add: reserved_def)
    show "timer_ids ?g ! y = timer_ids ht ! y" if "y \<in> set fs" for y
      using r that by (intro nth(2)) (auto simp: reserved_def)
  qed (simp add: ti)
  moreover have "free_chain (timer_ids ?g) (int ?m) [?m..<2 * ?m] (2 * ?m)"
    using len by (intro free_chain_upt) (simp_all add: ti nth_append)
  ultimately have "free_chain (timer_ids ?g) (timer_ids_freelist ht) (fs @ [?m..<2 * ?m]) (2 * ?m)"
    by (rule free_chain_trans)
  moreover have sub: "set fs \<subseteq> {1..<?m}" "slot_ids ht (cur_size ht) \<subseteq> {1..<?m}" "x < ?m"
    using reservedD(12) [OF r] by auto
  then have "distinct (fs @ [?m..<2 * ?m])" "x \<notin> set (fs @ [?m..<2 * ?m])"
    "set (fs @ [?m..<2 * ?m]) \<inter> slot_ids ht (cur_size ht) = {}"
    using reservedD(8,10,11) [OF r] by auto
  moreover have "insert x (set (fs @ [?m..<2 * ?m]) \<union> slot_ids ht (cur_size ht)) = {1..<2 * ?m}"
  proof -
    have "insert x (set (fs @ [?m..<2 * ?m]) \<union> slot_ids ht (cur_size ht)) =
        insert x (set fs \<union> slot_ids ht (cur_size ht)) \<union> {?m..<2 * ?m}" by auto
    also have "\<dots> = {1..<2 * ?m}" unfolding reservedD(12) [OF r] using n by auto
    finally show ?thesis .
  qed
  moreover have "pending ?g = pending ht" "slot_ids ?g (cur_size ?g) = slot_ids ht (cur_size ht)"
    by (simp_all add: pending_def pj_frame tk)
  moreover have "length (heap ?g) = 2 * ?m" "length (timer_ids ?g) = 2 * ?m"
    using len by (simp_all add: hp ti)
  moreover have "timer_ids ?g ! 0 = -1" using nth(2) [of 0] n reservedD(14) [OF r] by simp
  ultimately show ?thesis
    unfolding reserved_def grow_heap_frame using lk ho reservedD(5,6,7,13) [OF r] by (intro conjI) simp_all
qed

lemma reserved_insert:
  assumes r: "reserved ht e x fs" and n: "cur_size ht + 3 \<le> max_size ht"
  defines "h \<equiv> reheap_up ht e (cur_size ht) (HEAP_PARENT (cur_size ht))"
  defines "h' \<equiv> h\<lparr>cur_size := cur_size h + 1\<rparr>"
  shows "th_inv h'" "pending h' = insert e (pending ht)" "ents h' = ents ht"
    "cur_size h' = Suc (cur_size ht)" "max_entries_per_poll h' = max_entries_per_poll ht"
proof -
  let ?n = "cur_size ht"
  let ?p = "copy_node ht ?n e"
  have len: "length (heap ht) = max_size ht" "length (timer_ids ht) = max_size ht"
    and lk: "linked ht ?n" and ho: "heap_ord (timer_value ht) (heap ht) ?n" using r by (auto simp: reserved_def)
  have x: "nat (timer_id ht e) = x" "x < length (timer_ids ht)" "x \<notin> slot_ids ht ?n"
    using r by (auto simp: reserved_def)
  have tk: "take (Suc ?n) (heap ?p) = take ?n (heap ht) @ [e]"
    using n len by (simp add: pj_frame take_Suc_update)
  have sl: "slot_ids ?p (Suc ?n) = insert x (slot_ids ht ?n)" using tk x(1) by (auto simp: pj_frame)
  have ti: "timer_ids ?p = (timer_ids ht)[x := int ?n]" using x by (simp add: copy_node_def)
  have lp: "linked ?p (Suc ?n)"
    unfolding linked_def
  proof (intro conjI allI impI)
    show "Suc ?n \<le> length (heap ?p)" using n len by (simp add: pj_frame)
  next
    fix i assume i: "i < Suc ?n"
    have old: "0 \<le> timer_id ht (heap ht ! i) \<and> nat (timer_id ht (heap ht ! i)) < length (timer_ids ht) \<and>
        timer_ids ht ! nat (timer_id ht (heap ht ! i)) = int i \<and> nat (timer_id ht (heap ht ! i)) \<noteq> x"
      if "i < ?n"
      using that x(3) n len lk by (auto simp: linked_def set_take_conv_nth)
    have hi: "heap ?p ! i = (if i = ?n then e else heap ht ! i)"
      using n len by (simp add: pj_frame nth_list_update)
    have e: "timer_id ht e = int x" using r by (simp add: reserved_def)
    have "0 \<le> timer_id ?p (heap ?p ! i) \<and> nat (timer_id ?p (heap ?p ! i)) < length (timer_ids ?p) \<and>
      timer_ids ?p ! nat (timer_id ?p (heap ?p ! i)) = int i"
      using old i x(2) e unfolding hi by (cases "i = ?n") (simp_all add: ti pj_frame)
    then show "0 \<le> timer_id ?p (heap ?p ! i)" "nat (timer_id ?p (heap ?p ! i)) < length (timer_ids ?p)"
      "timer_ids ?p ! nat (timer_id ?p (heap ?p ! i)) = int i" by blast+
  qed
  have ids: "ids_inv ?p (Suc ?n) fs"
  proof -
    have "free_chain (timer_ids ?p) (timer_ids_freelist ht) fs (max_size ht)"
    proof (rule free_chain_cong)
      show "free_chain (timer_ids ht) (timer_ids_freelist ht) fs (max_size ht)" by (rule reservedD(9) [OF r])
      show "timer_ids ?p ! y = timer_ids ht ! y" if "y \<in> set fs" for y
        using that reservedD(8) [OF r] by (metis ti nth_list_update_neq)
    qed (simp add: ti)
    moreover have "x \<in> {1..<max_size ht}" unfolding reservedD(12) [OF r, symmetric] by simp
    then have "x \<noteq> 0" by simp
    then have "timer_ids ?p ! 0 = -1" using reservedD(14) [OF r] by (simp add: ti)
    ultimately show ?thesis
      unfolding ids_inv_def sl unfolding copy_node_frame
      using reservedD(7,8,10,11,12) [OF r] by (intro conjI) auto
  qed
  have up: "moves ?p h (Suc ?n) \<and> linked h (Suc ?n) \<and> heap_ord (timer_value ht) (heap h) (Suc ?n)"
    unfolding h_def using lp up_ok_append [OF ho, of e] n len
    by (intro reheap_up_correct) auto
  let ?q = "?p\<lparr>cur_size := Suc ?n\<rparr>"
  have fr: "same_frame ?p h" using up by (simp add: moves_def)
  have mv: "moves ?q h' (Suc ?n)" "linked h' (Suc ?n)"
    using up fr by (auto simp: moves_def same_frame_def h'_def linked_def)
  have pq: "pending ?q = insert e (pending ht)" using tk by (auto simp: pending_def)
  have ent: "\<forall>a. 1 \<le> timer_id ?q a \<longrightarrow> a \<in> pending ?q"
    using r unfolding pq by (simp add: reserved_def pj_frame)
  have hoq: "heap_ord (timer_value ?q) (heap h') (cur_size ?q)"
    using up by (simp add: h'_def pj_frame)
  have "ids_inv ?q (cur_size ?q) fs" using ids by (simp add: ids_inv_def)
  from th_inv_moves [OF _ _ _ this ent _ _ hoq] mv n len
  show "th_inv h'" "pending h' = insert e (pending ht)"
    by (simp_all add: pj_frame pq)
  show "ents h' = ents ht" "cur_size h' = Suc ?n" "max_entries_per_poll h' = max_entries_per_poll ht"
    using fr by (simp_all add: h'_def same_frame_def pj_frame)
qed

lemma schedule_entry_correct:
  fixes t :: pj_time_val
  assumes inv: "th_inv ht" and e: "e \<notin> pending ht"
  defines "h \<equiv> fst (schedule_entry ht e t)"
  shows "th_inv h" "snd (schedule_entry ht e t) = PJ_SUCCESS"
    "pending h = insert e (pending ht)" "timer_value h = (timer_value ht)(e := t)"
    "cur_size h = Suc (cur_size ht)" "te_cb (ents h a) = te_cb (ents ht a)"
    "max_entries_per_poll h = max_entries_per_poll ht"
proof -
  obtain fs where fs: "ids_inv ht (cur_size ht) fs" using inv by (auto simp: th_inv_def)
  with free_nonempty [OF inv fs] obtain x xs where xs: "fs = x # xs" by (cases fs) auto
  have f: "timer_ids_freelist ht = int x" "free_chain (timer_ids ht) (- (timer_ids ht ! x)) xs (max_size ht)"
    using fs by (auto simp: ids_inv_def xs)
  define s where "s = set_timer_value (set_timer_id (fst (pop_freelist ht)) e (int x)) e t"
  have sf: "heap s = heap ht" "timer_ids s = timer_ids ht" "cur_size s = cur_size ht"
    "max_size s = max_size ht" "timer_ids_freelist s = - (timer_ids ht ! x)"
    "max_entries_per_poll s = max_entries_per_poll ht"
    "timer_id s a = (if a = e then int x else timer_id ht a)"
    "timer_value s a = (if a = e then t else timer_value ht a)"
    "te_cb (ents s a) = te_cb (ents ht a)" for a
    by (auto simp: s_def pj_frame pop_freelist_def Let_def f)
  have ne: "a \<in> set (take (cur_size ht) (heap ht)) \<Longrightarrow> a \<noteq> e" for a using e by (auto simp: pending_def)
  have sl: "slot_ids s (cur_size s) = slot_ids ht (cur_size ht)"
    unfolding sf by (rule image_cong) (auto dest: ne)
  have nei: "i < cur_size ht \<Longrightarrow> heap ht ! i \<noteq> e" for i
    using ne inv by (auto simp: th_inv_def set_take_conv_nth)
  have lk: "linked s (cur_size ht)" using inv nei by (auto simp: linked_def th_inv_def sf)
  have ho: "heap_ord (timer_value s) (heap ht) (cur_size ht)"
    using inv heap_ord_cong [of "cur_size ht" "timer_value s" "heap ht" "timer_value ht" "heap ht"] nei
    by (simp add: th_inv_def sf)
  have pend: "pending s = pending ht" by (simp add: pending_def sf)
  have r: "reserved s e x xs"
    using inv e fs lk ho f(2) unfolding reserved_def sl pend
    by (auto simp: th_inv_def ids_inv_def xs sf)
  let ?g = "if cur_size s + 2 \<ge> max_size s then grow_heap s else s"
  have "\<exists>fs. reserved ?g e x fs" using grow_heap_reserved [OF r] r inv sf by (auto simp: th_inv_def)
  then obtain fs' where rg: "reserved ?g e x fs'" by blast
  have room: "cur_size ?g + 3 \<le> max_size ?g" using inv sf by (auto simp: th_inv_def pj_frame)
  have gp: "pending ?g = pending ht" "cur_size ?g = cur_size ht" "ents ?g = ents s"
    "max_entries_per_poll ?g = max_entries_per_poll ht"
    using inv sf by (auto simp: pj_frame pending_def grow_heap_def Let_def th_inv_def)
  have "cur_size ht < max_size ht" using inv by (auto simp: th_inv_def)
  then have sc: "schedule_entry ht e t = (insert_node s e, PJ_SUCCESS)"
    by (simp add: schedule_entry_def s_def pop_freelist_def Let_def f)
  then show "snd (schedule_entry ht e t) = PJ_SUCCESS" by simp
  have h: "h = (let r = reheap_up ?g e (cur_size ?g) (HEAP_PARENT (cur_size ?g)) in r\<lparr>cur_size := cur_size r + 1\<rparr>)"
    by (simp add: h_def sc insert_node_def Let_def)
  note ri = reserved_insert [OF rg room]
  show "th_inv h" "pending h = insert e (pending ht)" "cur_size h = Suc (cur_size ht)"
    "timer_value h = (timer_value ht)(e := t)" "te_cb (ents h a) = te_cb (ents ht a)"
    "max_entries_per_poll h = max_entries_per_poll ht"
    using ri gp sf unfolding h Let_def by (simp_all add: fun_eq_iff)
qed

lemma th_inv_linked_slot:
  assumes "th_inv ht" "e \<in> pending ht"
  shows "\<exists>s<cur_size ht. heap ht ! s = e \<and> timer_ids ht ! nat (timer_id ht e) = int s"
  using assms linked_slot [of ht "cur_size ht" e] by (auto simp: th_inv_def pending_def)

lemma cancel_pending:
  assumes inv: "th_inv ht" and e: "e \<in> pending ht"
  shows "\<exists>s<cur_size ht. heap ht ! s = e \<and>
    pj_timer_heap_cancel ht e = Some (fst (remove_node ht s), 1)"
proof -
  obtain s where s: "s < cur_size ht" "heap ht ! s = e" "timer_ids ht ! nat (timer_id ht e) = int s"
    using th_inv_linked_slot [OF inv e] by blast
  have id: "1 \<le> timer_id ht e" "nat (timer_id ht e) < max_size ht"
    using pending_iff [OF inv] pending_id_less [OF inv e] e by auto
  have "length (timer_ids ht) = max_size ht" using inv by (simp add: th_inv_def)
  then have "pj_timer_heap_cancel ht e = Some (fst (remove_node ht s), 1)"
    using s id by (simp add: pj_timer_heap_cancel_def cancel_def Let_def)
  with s show ?thesis by blast
qed

lemma cancel_idle:
  assumes inv: "th_inv ht" and e: "e \<notin> pending ht"
  shows "pj_timer_heap_cancel ht e = Some (ht, 0)"
proof -
  have "timer_id ht e < 1" using inv e pending_iff by force
  moreover have "timer_ids ht ! 0 = -1" "max_size ht = length (timer_ids ht)" "0 < max_size ht"
    using inv by (auto simp: th_inv_def ids_inv_def)
  ultimately show ?thesis
    by (cases "timer_id ht e = 0") (simp_all add: pj_timer_heap_cancel_def cancel_def Let_def)
qed

lemma create_inv:
  assumes "\<forall>e. te_timer_id (es e) < 1" "\<And>k. alloc_ok k"
  shows "\<exists>ht. pj_timer_heap_create alloc_ok jk es sz = Inr ht \<and> th_inv ht \<and> timers ht = Map.empty \<and>
     max_size ht = sz + 2 \<and> ents ht = es"
proof -
  let ?ids = "map (\<lambda>i. - (int i + 1)) [0..<sz + 2]"
  have "free_chain ?ids (int 1) [1..<sz + 2] (sz + 2)"
    by (rule free_chain_upt) (simp_all del: upt_Suc)
  moreover have "?ids ! 0 = -1" by (simp add: nth_map_upt del: upt_Suc)
  ultimately show ?thesis
    using assms
    by (auto simp: pj_timer_heap_create_def Let_def th_inv_def ids_inv_def linked_def heap_ord_def
        pending_def timers_def not_le fun_eq_iff intro!: exI [of _ "[1..<sz + 2]"] simp del: upt_Suc)
qed

section \<open>Timers as an interface\<close>

text \<open>
  What the users of the timer heap rely on: a partial map from entries to expiry times, changed
  by starting and stopping entries.
\<close>

locale timer_service =
  fixes invar :: "'h \<Rightarrow> bool"
    and deadline :: "'h \<Rightarrow> 'e \<rightharpoonup> 't::linorder"
    and start :: "'h \<Rightarrow> 'e \<Rightarrow> 't \<Rightarrow> 'h"
    and stop :: "'h \<Rightarrow> 'e \<Rightarrow> 'h"
    and earliest :: "'h \<Rightarrow> 't"
  assumes start_inv: "invar h \<Longrightarrow> deadline h e = None \<Longrightarrow> invar (start h e t)"
    and start_deadline: "invar h \<Longrightarrow> deadline h e = None \<Longrightarrow> deadline (start h e t) = (deadline h)(e \<mapsto> t)"
    and stop_inv: "invar h \<Longrightarrow> invar (stop h e)"
    and stop_deadline: "invar h \<Longrightarrow> deadline (stop h e) = (deadline h)(e := None)"
    and earliest_least: "invar h \<Longrightarrow> deadline h e = Some t \<Longrightarrow> earliest h \<le> t"
    and earliest_mem: "invar h \<Longrightarrow> deadline h e \<noteq> None \<Longrightarrow> \<exists>a. deadline h a = Some (earliest h)"
begin

definition restart :: "'h \<Rightarrow> 'e \<Rightarrow> 't \<Rightarrow> 'h" where
  "restart h e t = start (stop h e) e t"

lemma restart_correct:
  "invar h \<Longrightarrow> invar (restart h e t) \<and> deadline (restart h e t) = (deadline h)(e \<mapsto> t)"
  by (simp add: restart_def stop_inv stop_deadline start_inv start_deadline)

lemma stop_start: "invar h \<Longrightarrow> deadline h e = None \<Longrightarrow> deadline (stop (start h e t) e) = deadline h"
  by (auto simp: start_inv start_deadline stop_deadline)

lemma earliest_eq_Min:
  assumes "invar h" "deadline h e \<noteq> None" "finite (dom (deadline h))"
  shows "earliest h = Min (ran (deadline h))"
proof (rule Min_eqI [symmetric])
  have "ran (deadline h) \<subseteq> (\<lambda>e. the (deadline h e)) ` dom (deadline h)" by (force simp: ran_def)
  then show "finite (ran (deadline h))" using assms(3) finite_surj by blast
  show "earliest h \<in> ran (deadline h)" using earliest_mem [OF assms(1,2)] by (auto simp: ran_def)
  show "earliest h \<le> t" if "t \<in> ran (deadline h)" for t
    using that earliest_least [OF assms(1)] by (auto simp: ran_def)
qed

end

lemma th_start:
  assumes "th_inv ht" "timers ht e = None"
  shows "th_inv (fst (schedule_entry ht e t))" "timers (fst (schedule_entry ht e t)) = (timers ht)(e \<mapsto> t)"
proof -
  have e: "e \<notin> pending ht" using assms(2) by (auto simp: timers_def split: if_splits)
  note s = schedule_entry_correct [OF assms(1) e, of t]
  show "th_inv (fst (schedule_entry ht e t))" by (rule s)
  show "timers (fst (schedule_entry ht e t)) = (timers ht)(e \<mapsto> t)"
    using s(3,4) by (auto simp: timers_def fun_eq_iff)
qed

lemma th_stop:
  assumes "th_inv ht"
  shows "\<exists>ht'. pj_timer_heap_cancel ht e = Some (ht', if e \<in> pending ht then 1 else 0) \<and> th_inv ht' \<and>
    timers ht' = (timers ht)(e := None)"
proof (cases "e \<in> pending ht")
  case True
  then obtain s where s: "s < cur_size ht" "heap ht ! s = e"
    "pj_timer_heap_cancel ht e = Some (fst (remove_node ht s), 1)"
    using cancel_pending [OF assms] by blast
  note r = remove_node_correct [OF assms s(1)]
  have "timers (fst (remove_node ht s)) = (timers ht)(e := None)"
    using r(3) r(5) s(2) by (auto simp: timers_def fun_eq_iff)
  with s(3) r(1) True show ?thesis by simp
next
  case False
  then show ?thesis using cancel_idle [OF assms] assms by (auto simp: timers_def fun_eq_iff)
qed

lemma th_root:
  assumes "th_inv ht" "e \<in> pending ht"
  shows "timer_value ht (heap ht ! 0) \<le> timer_value ht e" "heap ht ! 0 \<in> pending ht" "cur_size ht \<noteq> 0"
proof -
  obtain s where s: "s < cur_size ht" "heap ht ! s = e" using th_inv_linked_slot [OF assms] by blast
  then show "timer_value ht (heap ht ! 0) \<le> timer_value ht e"
    using assms(1) heap_ord_root [of "timer_value ht" "heap ht" "cur_size ht" s] by (simp add: th_inv_def)
  show "heap ht ! 0 \<in> pending ht" "cur_size ht \<noteq> 0"
    using s assms(1) by (auto simp: pending_def th_inv_def set_take_conv_nth)
qed

interpretation th: timer_service th_inv timers
  "\<lambda>ht e t. fst (schedule_entry ht e t)" "\<lambda>ht e. fst (the (pj_timer_heap_cancel ht e))"
  "\<lambda>ht. timer_value ht (heap ht ! 0)"
proof
  fix ht e assume "th_inv ht"
  then show "th_inv (fst (the (pj_timer_heap_cancel ht e)))"
    and "timers (fst (the (pj_timer_heap_cancel ht e))) = (timers ht)(e := None)"
    using th_stop [of ht e] by auto
next
  fix ht :: timer_heap and e t assume "th_inv ht" "timers ht e = Some t"
  then show "timer_value ht (heap ht ! 0) \<le> t"
    using th_root(1) by (auto simp: timers_def split: if_splits)
next
  fix ht :: timer_heap and e assume "th_inv ht" "timers ht e \<noteq> None"
  then show "\<exists>a. timers ht a = Some (timer_value ht (heap ht ! 0))"
    using th_root(2) [of ht e] by (auto simp: timers_def split: if_splits)
qed (rule th_start, assumption+)+

section \<open>Polling\<close>

lemma dom_timers: "dom (timers ht) = pending ht"
  by (auto simp: timers_def dom_def)

lemma poll_step:
  assumes "th_inv ht" "cur_size ht \<noteq> 0"
  shows "th_inv (fst (remove_node ht 0))" "snd (remove_node ht 0) = heap ht ! 0"
    "pending (fst (remove_node ht 0)) = pending ht - {heap ht ! 0}"
    "timer_value (fst (remove_node ht 0)) = timer_value ht"
    "max_entries_per_poll (fst (remove_node ht 0)) = max_entries_per_poll ht"
    "te_cb (ents (fst (remove_node ht 0)) e) = te_cb (ents ht e)"
    "heap ht ! 0 \<in> pending ht"
proof -
  have s: "0 < cur_size ht" using assms(2) by simp
  note r = remove_node_correct [OF assms(1) s]
  show "th_inv (fst (remove_node ht 0))" "snd (remove_node ht 0) = heap ht ! 0"
    "pending (fst (remove_node ht 0)) = pending ht - {heap ht ! 0}"
    "timer_value (fst (remove_node ht 0)) = timer_value ht"
    "max_entries_per_poll (fst (remove_node ht 0)) = max_entries_per_poll ht"
    "te_cb (ents (fst (remove_node ht 0)) e) = te_cb (ents ht e)"
    by (rule r)+
  show "heap ht ! 0 \<in> pending ht"
    using assms s by (auto simp: pending_def th_inv_def set_take_conv_nth)
qed

text \<open>What the heap requires of a callback: keep the heap consistent and the polling limit.\<close>

definition good_callbacks :: "(nat \<Rightarrow> timer_heap \<Rightarrow> eref \<Rightarrow> timer_heap) \<Rightarrow> bool" where
  "good_callbacks call \<longleftrightarrow> (\<forall>cb ht e. th_inv ht \<longrightarrow>
     th_inv (call cb ht e) \<and> max_entries_per_poll (call cb ht e) = max_entries_per_poll ht)"

lemma poll_loop_returns:
  assumes "good_callbacks call" "th_inv ht" "n \<le> max_entries_per_poll ht"
  shows "\<exists>ht' k fired'. poll_loop call now ht n fired = Some (ht', n + k, fired @ fired') \<and>
    th_inv ht' \<and> length fired' = k \<and> n + k \<le> max_entries_per_poll ht \<and>
    (n + k = max_entries_per_poll ht \<or> (\<forall>e\<in>pending ht'. now < timer_value ht' e))"
  using assms(2,3)
proof (induction "max_entries_per_poll ht - n" arbitrary: ht n fired)
  case 0
  then have "poll_loop call now ht n fired = Some (ht, n, fired)"
    by (subst poll_loop.simps) auto
  with 0 show ?case by (intro exI [of _ ht] exI [of _ 0] exI [of _ "[]"]) simp
next
  case (Suc d)
  show ?case
  proof (cases "cur_size ht \<noteq> 0 \<and> timer_value ht (heap ht ! 0) \<le> now")
    case False
    then have "poll_loop call now ht n fired = Some (ht, n, fired)"
      by (subst poll_loop.simps) auto
    moreover have "\<forall>e\<in>pending ht. now < timer_value ht e"
      using False th_root [OF Suc.prems(1)] by force
    ultimately show ?thesis
      using Suc.prems by (intro exI [of _ ht] exI [of _ 0] exI [of _ "[]"]) simp
  next
    case True
    let ?r = "fst (remove_node ht 0)" and ?e = "heap ht ! 0"
    let ?h = "case te_cb (ents ?r ?e) of Some cb \<Rightarrow> call cb ?r ?e | None \<Rightarrow> ?r"
    note r = poll_step [OF Suc.prems(1)]
    have h: "th_inv ?h" "max_entries_per_poll ?h = max_entries_per_poll ht"
      using r True assms(1) by (auto simp: good_callbacks_def split: option.splits)
    have "n < max_entries_per_poll ht" using Suc.hyps(2) by simp
    then have "poll_loop call now ht n fired = poll_loop call now ?h (n + 1) (fired @ [?e])"
      using True r(2) by (subst poll_loop.simps) (simp add: Let_def case_prod_beta)
    moreover have "d = max_entries_per_poll ?h - (n + 1)" "n + 1 \<le> max_entries_per_poll ?h"
      using Suc.hyps(2) h(2) by simp_all
    note ih = Suc.hyps(1) [OF this(1) h(1) this(2), of "fired @ [?e]"]
    ultimately obtain ht' k f where "poll_loop call now ht n fired = Some (ht', n + 1 + k, (fired @ [?e]) @ f)"
      "th_inv ht'" "length f = k" "n + 1 + k \<le> max_entries_per_poll ht"
      "n + 1 + k = max_entries_per_poll ht \<or> (\<forall>e\<in>pending ht'. now < timer_value ht' e)"
      using ih h(2) by auto
    then show ?thesis
      by (intro exI [of _ ht'] exI [of _ "Suc k"] exI [of _ "?e # f"]) simp
  qed
qed

text \<open>Callbacks that do not touch the heap: the fired entries are the earliest ones, in order.\<close>

definition fires_in_order :: "timer_heap \<Rightarrow> pj_time_val \<Rightarrow> timer_heap \<Rightarrow> eref list \<Rightarrow> bool" where
  "fires_in_order ht now ht' fired \<longleftrightarrow>
     distinct fired \<and> set fired \<subseteq> pending ht \<and> sorted (map (timer_value ht) fired) \<and>
     (\<forall>e\<in>set fired. timer_value ht e \<le> now) \<and>
     (\<forall>e\<in>set fired. \<forall>a\<in>pending ht'. timer_value ht e \<le> timer_value ht a) \<and>
     timers ht' = (timers ht) |` (- set fired)"

lemma poll_loop_passive:
  assumes "th_inv ht"
    "poll_loop (\<lambda>cb h e. h) now ht n fired = Some (ht', n', fired @ f)" "n \<le> max_entries_per_poll ht"
  shows "fires_in_order ht now ht' f"
  using assms
proof (induction "max_entries_per_poll ht - n" arbitrary: ht n fired f)
  case 0
  then have "poll_loop (\<lambda>cb h e. h) now ht n fired = Some (ht, n, fired)"
    by (subst poll_loop.simps) auto
  with 0 show ?case by (auto simp: fires_in_order_def restrict_map_def)
next
  case (Suc d)
  show ?case
  proof (cases "cur_size ht \<noteq> 0 \<and> timer_value ht (heap ht ! 0) \<le> now")
    case False
    then have "poll_loop (\<lambda>cb h e. h) now ht n fired = Some (ht, n, fired)"
      by (subst poll_loop.simps) auto
    with Suc.prems show ?thesis by (auto simp: fires_in_order_def restrict_map_def)
  next
    case True
    let ?r = "fst (remove_node ht 0)" and ?e = "heap ht ! 0"
    note r = poll_step [OF Suc.prems(1)]
    have n: "n < max_entries_per_poll ht" using Suc.hyps(2) by simp
    then have eq: "poll_loop (\<lambda>cb h e. h) now ht n fired = poll_loop (\<lambda>cb h e. h) now ?r (n + 1) (fired @ [?e])"
      using True r(2) by (subst poll_loop.simps) (auto simp: Let_def case_prod_beta split: option.splits)
    have g: "good_callbacks (\<lambda>cb h e. h)" by (simp add: good_callbacks_def)
    have le: "n + 1 \<le> max_entries_per_poll ?r" using n r True by simp
    obtain k f' where "poll_loop (\<lambda>cb h e. h) now ?r (n + 1) (fired @ [?e]) = Some (ht', k, (fired @ [?e]) @ f')"
      using poll_loop_returns [OF g _ le, of now "fired @ [?e]"] r True Suc.prems(2) eq by auto
    moreover from this have f: "f = ?e # f'" using Suc.prems(2) eq by simp
    ultimately have IH: "fires_in_order ?r now ht' f'"
      using Suc.hyps(1) [of ?r "n + 1" "fired @ [?e]" f'] Suc.hyps(2) r True le Suc.prems(2) eq by simp
    have pend: "pending ?r = pending ht - {?e}" "timer_value ?r = timer_value ht" "?e \<in> pending ht"
      using r True by auto
    have tr: "timers ?r = (timers ht) |` (- {?e})"
      using pend by (auto simp: timers_def fun_eq_iff restrict_map_def)
    have "timers ht' = (timers ?r) |` (- set f')" using IH by (simp add: fires_in_order_def)
    then have "dom (timers ht') \<subseteq> dom (timers ht)" unfolding tr by auto
    then have sub: "pending ht' \<subseteq> pending ht" by (simp add: dom_timers)
    have least: "a \<in> pending ht \<Longrightarrow> timer_value ht ?e \<le> timer_value ht a" for a
      using th_root(1) [OF Suc.prems(1)] by blast
    have "timers ht' = (timers ht) |` (- set f)"
      using IH tr f by (auto simp: fires_in_order_def restrict_map_def fun_eq_iff)
    moreover have "timer_value ?r a = timer_value ht a" for a using pend(2) by (rule fun_cong)
    ultimately show ?thesis
      using IH True pend(1,3) sub least unfolding fires_in_order_def f by auto
  qed
qed

lemma next_delay_msec:
  assumes "cur_size ht \<noteq> 0"
  shows "PJ_TIME_VAL_MSEC (next_delay_of ht now) =
    max 0 (PJ_TIME_VAL_MSEC (timer_value ht (heap ht ! 0)) - PJ_TIME_VAL_MSEC now)"
proof -
  let ?t = "timer_value ht (heap ht ! 0)"
  let ?d = "PJ_TIME_VAL_SUB ?t now"
  have "time_normal ?d" "PJ_TIME_VAL_MSEC ?d = PJ_TIME_VAL_MSEC ?t - PJ_TIME_VAL_MSEC now"
    by (simp_all add: PJ_TIME_VAL_SUB_def normalize_normal PJ_TIME_VAL_MSEC_def [of "TimeVal _ _"])
      (simp add: PJ_TIME_VAL_MSEC_def algebra_simps)
  then show ?thesis
    using assms by (auto simp: next_delay_of_def Let_def time_normal_def PJ_TIME_VAL_MSEC_def max_def)
qed

section \<open>Properties\<close>

text \<open>A heap with room for one entry and an application whose entries are all idle, for witnesses.\<close>

definition idle_entry :: timer_entry where
  "idle_entry = \<lparr>te_user_data = 0, te_id = 0, te_cb = Some 0, te_timer_id = 0, te_timer_value = TimeVal 0 0\<rparr>"

definition sample_heap :: timer_heap where
  "sample_heap = projr (pj_timer_heap_create (\<lambda>_. True) (\<lambda>_. 0) (\<lambda>_. idle_entry) 1)"

lemma sample_heap_inv: "th_inv sample_heap" "timers sample_heap = Map.empty" "ents sample_heap = (\<lambda>_. idle_entry)"
  using create_inv [of "\<lambda>_. idle_entry" "\<lambda>_. True" "\<lambda>_. 0" 1]
  by (auto simp: sample_heap_def idle_entry_def)

lemma sample_heap_pending [simp]: "pending sample_heap = {}"
  using dom_timers [of sample_heap] by (simp add: sample_heap_inv)

definition busy_heap :: timer_heap where
  "busy_heap = fst (pj_timer_heap_schedule sample_heap (TimeVal 10 0) 7 (TimeVal 1 500))"

lemma busy_heap_schedule:
  "pj_timer_heap_schedule sample_heap (TimeVal 10 0) 7 (TimeVal 1 500) =
     schedule_entry sample_heap 7 (TimeVal 11 500)"
  by (simp add: pj_timer_heap_schedule_def sample_heap_inv idle_entry_def PJ_TIME_VAL_ADD_def
      pj_time_val_normalize_def)

lemma busy_heap_inv: "th_inv busy_heap" "timers busy_heap = [7 \<mapsto> TimeVal 11 500]"
  using th_start [of sample_heap 7 "TimeVal 11 500"]
  by (simp_all add: sample_heap_inv busy_heap_def busy_heap_schedule)

lemma busy_heap_pending [simp]: "pending busy_heap = {7}"
  using dom_timers [of busy_heap] by (simp add: busy_heap_inv)

text \<open>
  C23. Scheduling an idle entry with a callback succeeds, whatever the number of entries already
  pending (the arrays grow as needed): the representation invariant is kept, the entry becomes
  pending at now + delay (normalised) and the deadlines of all other entries are unchanged.
\<close>

theorem schedule_refines:
  assumes "th_inv ht" "te_cb (ents ht e) \<noteq> None" "e \<notin> pending ht"
  shows "\<exists>ht'. pj_timer_heap_schedule ht now e delay = (ht', PJ_SUCCESS) \<and> th_inv ht' \<and>
    timers ht' = (timers ht)(e \<mapsto> PJ_TIME_VAL_ADD now delay)"
proof -
  have "timer_id ht e < 1" using assms pending_iff by force
  then have eq: "pj_timer_heap_schedule ht now e delay = schedule_entry ht e (PJ_TIME_VAL_ADD now delay)"
    using assms by (auto simp: pj_timer_heap_schedule_def)
  have "timers ht e = None" using assms by (simp add: timers_def)
  with th_start [OF assms(1) this] schedule_entry_correct(2) [OF assms(1,3)] eq show ?thesis
    by (metis prod.collapse)
qed

theorem schedule_refines_witness:
  "\<exists>ht'. pj_timer_heap_schedule sample_heap (TimeVal 10 0) 7 (TimeVal 1 500) = (ht', PJ_SUCCESS) \<and>
    th_inv ht' \<and> timers ht' = [7 \<mapsto> PJ_TIME_VAL_ADD (TimeVal 10 0) (TimeVal 1 500)]"
  using schedule_refines [of sample_heap 7 "TimeVal 10 0" "TimeVal 1 500"]
  by (simp add: sample_heap_inv idle_entry_def)

text \<open>
  C24. Cancelling never reads outside the tables: on a consistent heap it returns 1 exactly when
  the entry was pending, afterwards the entry is not pending, and every other deadline is kept.
\<close>

theorem cancel_refines:
  assumes "th_inv ht"
  shows "\<exists>ht'. pj_timer_heap_cancel ht e = Some (ht', if e \<in> pending ht then 1 else 0) \<and>
    th_inv ht' \<and> timers ht' = (timers ht)(e := None)"
  using th_stop [OF assms] .

theorem cancel_refines_witness:
  "\<exists>ht'. pj_timer_heap_cancel busy_heap 7 = Some (ht', 1) \<and> th_inv ht' \<and> timers ht' = Map.empty"
  using cancel_refines [OF busy_heap_inv(1), of 7] by (auto simp: busy_heap_inv)



text \<open>
  C25. A poll whose callbacks leave the heap alone fires distinct due entries in order of expiry,
  each no later than any entry left pending, and removes exactly those.
\<close>

theorem poll_fires_in_order:
  assumes "th_inv ht" "pj_timer_heap_poll (\<lambda>cb h e. h) now want ht = Some (ht', k, d, fired)"
  shows "fires_in_order ht now ht' fired"
proof (cases "cur_size ht = 0 \<and> want")
  case True
  then show ?thesis
    using assms by (auto simp: pj_timer_heap_poll_def fires_in_order_def restrict_map_def)
next
  case False
  then have "poll_loop (\<lambda>cb h e. h) now ht 0 [] = Some (ht', k, [] @ fired)"
    using assms(2) by (auto simp: pj_timer_heap_poll_def split: option.splits)
  from poll_loop_passive [OF assms(1) this] show ?thesis by simp
qed

lemma poll_busy_heap:
  "\<exists>ht' d. pj_timer_heap_poll (\<lambda>cb h e. h) (TimeVal 12 0) True busy_heap = Some (ht', 1, d, [7])"
proof -
  have "map_option (\<lambda>(h, k, d, f). (k, f)) (pj_timer_heap_poll (\<lambda>cb h e. h) (TimeVal 12 0) True busy_heap) = Some (1, [7])"
    by code_simp
  then show ?thesis by auto
qed

theorem poll_fires_in_order_witness:
  "\<exists>ht' d. pj_timer_heap_poll (\<lambda>cb h e. h) (TimeVal 12 0) True busy_heap = Some (ht', 1, d, [7]) \<and>
     fires_in_order busy_heap (TimeVal 12 0) ht' [7]"
  using poll_busy_heap poll_fires_in_order [OF busy_heap_inv(1)] by blast

text \<open>
  The earliest time reported is the least deadline among the pending entries.
\<close>

theorem earliest_time_is_least:
  assumes "th_inv ht" "pj_timer_heap_count ht \<noteq> 0"
  shows "pj_timer_heap_earliest_time ht = Inr (Min (ran (timers ht)))"
proof -
  have e: "timers ht (heap ht ! 0) \<noteq> None"
    using poll_step(7) [OF assms(1)] assms(2) by (simp add: timers_def pj_timer_heap_count_def)
  have "dom (timers ht) \<subseteq> set (heap ht)"
    by (auto simp: timers_def pending_def dom_def split: if_splits dest: in_set_takeD)
  then have "finite (dom (timers ht))" by (rule finite_subset) simp
  with th.earliest_eq_Min [OF assms(1) e] assms(2) show ?thesis
    by (simp add: pj_timer_heap_earliest_time_def pj_timer_heap_count_def)
qed

theorem earliest_time_is_least_witness:
  "pj_timer_heap_earliest_time busy_heap = Inr (Min (ran (timers busy_heap)))"
proof -
  have "pj_timer_heap_count busy_heap \<noteq> 0"
    using busy_heap_pending unfolding pending_def pj_timer_heap_count_def
    by (metis empty_iff insertI1 list.set(1) take0)
  then show ?thesis by (rule earliest_time_is_least [OF busy_heap_inv(1)])
qed

end
