(* ===== verification/Hash_Table.thy ===== *)
theory Hash_Table
  imports Pj_Prelude
begin

unbundle bit_operations_syntax

text \<open>
  The chained hash table of \<^verbatim>\<open>pjlib/src/pj/hash.c\<close>, which keeps the transactions, dialogs and
  transports of the stack. A chain of entries is a list, in the order of the links; a place in it
  (the \<^verbatim>\<open>p_entry\<close> of the code) is its index. A value is a pointer that is not null, so that the
  null value of the interface is \<open>None\<close>. Keys are held by value: the code keeps the pointer and
  relies on its users not to change the bytes. \<open>None\<close> as a result of \<open>pj_hash_create\<close> means that
  the call does not return.
\<close>

section \<open>Data\<close>

type_synonym bytes = "nat list"

datatype key_len = PJ_HASH_KEY_STRING | Keylen nat

record 'v hash_entry =
  he_key :: bytes
  he_hash :: nat
  he_value :: 'v

record 'v hash_table =
  ht_table :: "'v hash_entry list list"
  ht_count :: nat
  ht_rows :: nat

record hash_iterator =
  it_index :: nat
  it_entry :: nat

definition PJ_HASH_MULTIPLIER :: nat where
  "PJ_HASH_MULTIPLIER = 33"

section \<open>Hash values\<close>

text \<open>The bytes of a key: up to its terminating zero, or as many as the length says.\<close>

definition key_bytes :: "bytes \<Rightarrow> key_len \<Rightarrow> bytes" where
  "key_bytes key keylen =
     (case keylen of PJ_HASH_KEY_STRING \<Rightarrow> takeWhile (\<lambda>c. c \<noteq> 0) key | Keylen n \<Rightarrow> take n key)"

fun hash_loop :: "nat \<Rightarrow> bytes \<Rightarrow> nat" where
  "hash_loop hash [] = hash"
| "hash_loop hash (c # cs) = hash_loop (u32 (hash * PJ_HASH_MULTIPLIER + c)) cs"

definition pj_hash_calc :: "nat \<Rightarrow> bytes \<Rightarrow> key_len \<Rightarrow> nat" where
  "pj_hash_calc hash key keylen = hash_loop hash (key_bytes key keylen)"

definition pj_tolower :: "nat \<Rightarrow> nat" where
  "pj_tolower c = (if 65 \<le> c \<and> c \<le> 90 then c + 32 else c)"

text \<open>The lower-case copy is a signed \<^verbatim>\<open>char\<close>, extended with its sign when it is added.\<close>

definition char_value :: "nat \<Rightarrow> int" where
  "char_value c = (if c < 128 then int c else int c - 256)"

fun pj_hash_calc_tolower :: "nat \<Rightarrow> bytes \<Rightarrow> nat \<times> bytes" where
  "pj_hash_calc_tolower hval [] = (hval, [])"
| "pj_hash_calc_tolower hval (c # cs) =
     (let r = pj_tolower c;
          hval = int_to_u32 (int (hval * PJ_HASH_MULTIPLIER) + char_value r);
          (hval, rs) = pj_hash_calc_tolower hval cs
      in (hval, r # rs))"

section \<open>Operations\<close>

partial_function (option) table_size_loop :: "nat \<Rightarrow> nat \<Rightarrow> nat option" where
  "table_size_loop req table_size =
     (let table_size = u32 (table_size * 2)
      in if table_size < req then table_size_loop req table_size else Some table_size)"

declare table_size_loop.simps [code]

definition pj_hash_create :: "nat \<Rightarrow> 'v hash_table option" where
  "pj_hash_create req =
     (case table_size_loop req 8 of
        None \<Rightarrow> None
      | Some table_size \<Rightarrow>
          Some \<lparr>ht_table = replicate (usub32 table_size 1 + 1) [], ht_count = 0, ht_rows = usub32 table_size 1\<rparr>)"

fun scan_chain :: "nat \<Rightarrow> bytes \<Rightarrow> 'v hash_entry list \<Rightarrow> nat" where
  "scan_chain hash key [] = 0"
| "scan_chain hash key (e # es) =
     (if he_hash e = hash \<and> length (he_key e) = length key \<and> he_key e = key then 0
      else Suc (scan_chain hash key es))"

text \<open>
  The table after the search (changed when an entry was created), the place of the entry, and the
  hash value reported back. A given hash value other than zero is used as it is.
\<close>

definition find_entry ::
    "'v hash_table \<Rightarrow> bytes \<Rightarrow> key_len \<Rightarrow> 'v option \<Rightarrow> nat option \<Rightarrow>
     'v hash_table \<times> nat \<times> nat \<times> nat option" where
  "find_entry ht key keylen val hval =
     (let given = (case hval of Some h \<Rightarrow> h \<noteq> 0 | None \<Rightarrow> False);
          kb = key_bytes key keylen;
          hash = (if given then the hval else pj_hash_calc 0 key keylen);
          hval = (if given then hval else map_option (\<lambda>_. hash) hval);
          i = hash AND ht_rows ht;
          pos = scan_chain hash kb (ht_table ht ! i)
      in if pos < length (ht_table ht ! i) then (ht, i, pos, hval)
         else case val of
                None \<Rightarrow> (ht, i, pos, hval)
              | Some v \<Rightarrow>
                  (ht\<lparr>ht_table := (ht_table ht)[i := ht_table ht ! i @ [\<lparr>he_key = kb, he_hash = hash, he_value = v\<rparr>]],
                      ht_count := u32 (ht_count ht + 1)\<rparr>, i, pos, hval))"

definition pj_hash_get ::
    "'v hash_table \<Rightarrow> bytes \<Rightarrow> key_len \<Rightarrow> nat option \<Rightarrow> 'v option \<times> nat option" where
  "pj_hash_get ht key keylen hval =
     (case find_entry ht key keylen None hval of
        (ht, i, pos, hval) \<Rightarrow>
          (if pos < length (ht_table ht ! i) then Some (he_value (ht_table ht ! i ! pos)) else None, hval))"

definition pj_hash_set ::
    "'v hash_table \<Rightarrow> bytes \<Rightarrow> key_len \<Rightarrow> nat \<Rightarrow> 'v option \<Rightarrow> 'v hash_table" where
  "pj_hash_set ht key keylen hval value =
     (case find_entry ht key keylen value (Some hval) of
        (ht, i, pos, _) \<Rightarrow>
          if pos < length (ht_table ht ! i) then
            case value of
              None \<Rightarrow>
                ht\<lparr>ht_table := (ht_table ht)[i := take pos (ht_table ht ! i) @ drop (pos + 1) (ht_table ht ! i)],
                   ht_count := usub32 (ht_count ht) 1\<rparr>
            | Some v \<Rightarrow>
                ht\<lparr>ht_table := (ht_table ht)[i := (ht_table ht ! i)[pos := (ht_table ht ! i ! pos)\<lparr>he_value := v\<rparr>]]\<rparr>
          else ht)"

text \<open>
  \<^verbatim>\<open>pj_hash_set_np\<close> takes the memory of a new entry from its caller; the table after it is the same.
\<close>

definition pj_hash_set_np ::
    "'v hash_table \<Rightarrow> bytes \<Rightarrow> key_len \<Rightarrow> nat \<Rightarrow> 'v option \<Rightarrow> 'v hash_table" where
  "pj_hash_set_np ht key keylen hval value = pj_hash_set ht key keylen hval value"

definition pj_hash_count :: "'v hash_table \<Rightarrow> nat" where
  "pj_hash_count ht = ht_count ht"

text \<open>Find the first chain that is not empty, from an index on and below the number of rows.\<close>

function scan_rows :: "'v hash_table \<Rightarrow> nat \<Rightarrow> hash_iterator option" where
  "scan_rows ht i =
     (if i < ht_rows ht then
        if ht_table ht ! i \<noteq> [] then Some \<lparr>it_index = i, it_entry = 0\<rparr> else scan_rows ht (i + 1)
      else None)"
  by pat_completeness auto
termination by (relation "measure (\<lambda>(ht, i). ht_rows ht - i)") auto

declare scan_rows.simps [simp del]

definition pj_hash_first :: "'v hash_table \<Rightarrow> hash_iterator option" where
  "pj_hash_first ht = scan_rows ht 0"

definition pj_hash_next :: "'v hash_table \<Rightarrow> hash_iterator \<Rightarrow> hash_iterator option" where
  "pj_hash_next ht it =
     (if it_entry it + 1 < length (ht_table ht ! it_index it) then Some (it\<lparr>it_entry := it_entry it + 1\<rparr>)
      else scan_rows ht (it_index it + 1))"

definition pj_hash_this :: "'v hash_table \<Rightarrow> hash_iterator \<Rightarrow> 'v" where
  "pj_hash_this ht it = he_value (ht_table ht ! it_index it ! it_entry it)"

section \<open>Invariant and abstraction\<close>

definition entry_id :: "'v hash_entry \<Rightarrow> nat \<times> bytes" where
  "entry_id e = (he_hash e, he_key e)"

definition chain_map :: "'v hash_entry list \<Rightarrow> (nat \<times> bytes) \<rightharpoonup> 'v" where
  "chain_map es = map_of (map (\<lambda>e. (entry_id e, he_value e)) es)"

text \<open>
  The table has \<open>rows + 1\<close> chains, a power of two; each entry is in the chain its hash value
  selects, no chain has two entries for the same key and hash value, and \<open>count\<close> is the number of
  entries.
\<close>

definition ht_inv :: "'v hash_table \<Rightarrow> bool" where
  "ht_inv ht \<longleftrightarrow>
     (\<exists>k\<le>32. ht_rows ht = 2 ^ k - 1) \<and> length (ht_table ht) = ht_rows ht + 1 \<and>
     (\<forall>i<length (ht_table ht). (\<forall>e\<in>set (ht_table ht ! i). he_hash e AND ht_rows ht = i) \<and>
        distinct (map entry_id (ht_table ht ! i))) \<and>
     ht_count ht = u32 (sum_list (map length (ht_table ht)))"

text \<open>The table as a map from hash value and key to value.\<close>

definition ht_lookup :: "'v hash_table \<Rightarrow> (nat \<times> bytes) \<rightharpoonup> 'v" where
  "ht_lookup ht = (\<lambda>(h, k). chain_map (ht_table ht ! (h AND ht_rows ht)) (h, k))"

lemma and_mask_mod: "h AND (2 ^ k - 1) = h mod 2 ^ k" for h :: nat
  by (metis mask_eq_exp_minus_1 take_bit_eq_mask take_bit_eq_mod)

lemma ht_inv_row: "ht_inv ht \<Longrightarrow> h AND ht_rows ht < length (ht_table ht)"
  by (auto simp: ht_inv_def and_mask_mod[unfolded One_nat_def])

lemma ht_invD:
  assumes "ht_inv ht"
  shows "length (ht_table ht) = ht_rows ht + 1" "ht_count ht = u32 (sum_list (map length (ht_table ht)))"
    "\<And>i e. i < length (ht_table ht) \<Longrightarrow> e \<in> set (ht_table ht ! i) \<Longrightarrow> he_hash e AND ht_rows ht = i"
    "\<And>i. i < length (ht_table ht) \<Longrightarrow> distinct (map entry_id (ht_table ht ! i))"
  using assms by (auto simp: ht_inv_def)

section \<open>Chains\<close>

lemma scan_chain_le: "scan_chain h k es \<le> length es"
  by (induction es) auto

lemma scan_chain_found:
  "scan_chain h k es < length es \<Longrightarrow> entry_id (es ! scan_chain h k es) = (h, k)"
  by (induction es) (auto simp: entry_id_def)

lemma scan_chain_not_found:
  "\<not> scan_chain h k es < length es \<longleftrightarrow> (h, k) \<notin> entry_id ` set es"
  by (induction es) (auto simp: entry_id_def)

lemma chain_map_scan:
  "chain_map es (h, k) =
     (if scan_chain h k es < length es then Some (he_value (es ! scan_chain h k es)) else None)"
  by (induction es) (auto simp: chain_map_def entry_id_def)

lemma chain_map_append_new:
  "(h, k) \<notin> entry_id ` set es \<Longrightarrow>
   chain_map (es @ [\<lparr>he_key = k, he_hash = h, he_value = v\<rparr>]) = (chain_map es)((h, k) \<mapsto> v)"
  by (induction es) (auto simp: chain_map_def entry_id_def fun_upd_twist)

lemma chain_map_update:
  "scan_chain h k es < length es \<Longrightarrow>
   chain_map (es[scan_chain h k es := (es ! scan_chain h k es)\<lparr>he_value := v\<rparr>]) = (chain_map es)((h, k) \<mapsto> v)"
  by (induction es) (auto simp: chain_map_def entry_id_def fun_upd_twist)

lemma chain_map_delete:
  "distinct (map entry_id es) \<Longrightarrow> scan_chain h k es < length es \<Longrightarrow>
   chain_map (take (scan_chain h k es) es @ drop (Suc (scan_chain h k es)) es) = (chain_map es)((h, k) := None)"
proof (induction es)
  case (Cons e es)
  show ?case
  proof (cases "entry_id e = (h, k)")
    case True
    then have "scan_chain h k (e # es) = 0" by (simp add: entry_id_def)
    moreover have "chain_map es (h, k) = None"
      using Cons.prems(1) True by (auto simp: chain_map_def map_of_eq_None_iff)
    ultimately show ?thesis using True by (auto simp: chain_map_def fun_eq_iff)
  next
    case False
    then have "scan_chain h k (e # es) = Suc (scan_chain h k es)" by (auto simp: entry_id_def)
    then show ?thesis using Cons False by (auto simp: chain_map_def fun_eq_iff)
  qed
qed simp

lemma map_entry_id_update:
  "scan_chain h k es < length es \<Longrightarrow>
   map entry_id (es[scan_chain h k es := (es ! scan_chain h k es)\<lparr>he_value := v\<rparr>]) = map entry_id es"
  by (simp add: map_update entry_id_def) (metis entry_id_def list_update_id nth_map)

section \<open>Set and get\<close>

definition hash_of :: "nat \<Rightarrow> bytes \<Rightarrow> key_len \<Rightarrow> nat" where
  "hash_of hval key keylen = (if hval \<noteq> 0 then hval else pj_hash_calc 0 key keylen)"

lemma find_entry_None:
  "find_entry ht key keylen None hval =
     (let h = hash_of (case hval of None \<Rightarrow> 0 | Some h \<Rightarrow> h) key keylen; i = h AND ht_rows ht
      in (ht, i, scan_chain h (key_bytes key keylen) (ht_table ht ! i), map_option (\<lambda>_. h) hval))"
  by (auto simp: find_entry_def hash_of_def Let_def split: option.splits)

lemma hash_get_lookup:
  "pj_hash_get ht key keylen hval =
     (let h = hash_of (case hval of None \<Rightarrow> 0 | Some h \<Rightarrow> h) key keylen
      in (ht_lookup ht (h, key_bytes key keylen), map_option (\<lambda>_. h) hval))"
  by (simp add: pj_hash_get_def find_entry_None Let_def ht_lookup_def chain_map_scan)

text \<open>What setting a value does to the chain of the key.\<close>

definition set_chain :: "nat \<Rightarrow> bytes \<Rightarrow> 'v option \<Rightarrow> 'v hash_entry list \<Rightarrow> 'v hash_entry list" where
  "set_chain h k value es =
     (let pos = scan_chain h k es
      in case value of
           None \<Rightarrow> if pos < length es then take pos es @ drop (Suc pos) es else es
         | Some v \<Rightarrow> if pos < length es then es[pos := (es ! pos)\<lparr>he_value := v\<rparr>]
                     else es @ [\<lparr>he_key = k, he_hash = h, he_value = v\<rparr>])"

lemma set_chain_map:
  "distinct (map entry_id es) \<Longrightarrow> chain_map (set_chain h k value es) = (chain_map es)((h, k) := value)"
proof (cases "value")
  case None
  assume "distinct (map entry_id es)"
  then show ?thesis using None chain_map_delete[of es h k] chain_map_scan[of es h k]
    by (auto simp: set_chain_def Let_def fun_upd_idem)
next
  case (Some v)
  then show ?thesis using chain_map_update[of h k es v] scan_chain_not_found[of h k es]
      chain_map_append_new[of h k es v] by (auto simp: set_chain_def Let_def)
qed

lemma distinct_take_drop_Suc: "distinct xs \<Longrightarrow> distinct (take n xs @ drop (Suc n) xs)"
proof (induction xs arbitrary: n)
  case (Cons x xs)
  then show ?case by (cases n) (auto dest: in_set_takeD in_set_dropD)
qed simp

lemma set_chain_ids:
  "entry_id ` set (set_chain h k value es) \<subseteq> insert (h, k) (entry_id ` set es)"
  "distinct (map entry_id es) \<Longrightarrow> distinct (map entry_id (set_chain h k value es))"
proof -
  have t: "set (take n es @ drop (Suc n) es) \<subseteq> set es" for n
    by (auto dest: in_set_takeD in_set_dropD)
  show "entry_id ` set (set_chain h k value es) \<subseteq> insert (h, k) (entry_id ` set es)"
    using t[of "scan_chain h k es"] arg_cong[OF map_entry_id_update[of h k es], of set]
    by (cases "value"; cases "scan_chain h k es < length es")
       (auto simp: set_chain_def Let_def entry_id_def image_subset_iff)
  show "distinct (map entry_id (set_chain h k value es))" if d: "distinct (map entry_id es)"
  proof (cases "value")
    case None
    then show ?thesis using d distinct_take_drop_Suc[OF d]
      by (simp add: set_chain_def Let_def take_map drop_map)
  next
    case (Some v)
    then show ?thesis using d map_entry_id_update[of h k es v] scan_chain_not_found[of h k es]
      by (auto simp: set_chain_def Let_def entry_id_def)
  qed
qed

lemma scan_chain_append_new:
  "\<not> scan_chain h k es < length es \<Longrightarrow>
   scan_chain h k (es @ [\<lparr>he_key = k, he_hash = h, he_value = v\<rparr>]) = length es"
  by (induction es) auto

lemma hash_set_chain:
  fixes ht :: "'v hash_table" and key :: bytes and keylen :: key_len and hval :: nat and "value" :: "'v option"
  assumes inv: "ht_inv ht"
  defines "h \<equiv> hash_of hval key keylen" and "k \<equiv> key_bytes key keylen"
  defines "i \<equiv> h AND ht_rows ht"
  shows "ht_table (pj_hash_set ht key keylen hval value) = (ht_table ht)[i := set_chain h k value (ht_table ht ! i)]"
    "ht_rows (pj_hash_set ht key keylen hval value) = ht_rows ht"
    "ht_count (pj_hash_set ht key keylen hval value) =
       (let found = scan_chain h k (ht_table ht ! i) < length (ht_table ht ! i)
        in case value of None \<Rightarrow> if found then usub32 (ht_count ht) 1 else ht_count ht
           | Some v \<Rightarrow> if found then ht_count ht else u32 (ht_count ht + 1))"
proof -
  have i: "i < length (ht_table ht)" unfolding i_def by (rule ht_inv_row[OF inv])
  let ?es = "ht_table ht ! i" and ?pos = "scan_chain h k (ht_table ht ! i)"
  let ?ht' = "case value of None \<Rightarrow> ht
      | Some v \<Rightarrow> ht\<lparr>ht_table := (ht_table ht)[i := ?es @ [\<lparr>he_key = k, he_hash = h, he_value = v\<rparr>]],
                      ht_count := u32 (ht_count ht + 1)\<rparr>"
  have f: "find_entry ht key keylen value (Some hval) =
      (if ?pos < length ?es then ht else ?ht', i, ?pos, Some h)"
    by (auto simp: find_entry_def h_def k_def i_def hash_of_def Let_def split: option.splits)
  have n: "?pos = length ?es" if "\<not> ?pos < length ?es"
    using scan_chain_le[of h k ?es] that by simp
  have table: "pj_hash_set ht key keylen hval value =
      ht\<lparr>ht_table := (ht_table ht)[i := set_chain h k value ?es],
         ht_count := (let found = ?pos < length ?es
           in case value of None \<Rightarrow> if found then usub32 (ht_count ht) 1 else ht_count ht
              | Some v \<Rightarrow> if found then ht_count ht else u32 (ht_count ht + 1))\<rparr>"
  proof (cases "?pos < length ?es")
    case True
    then show ?thesis using i unfolding pj_hash_set_def f
      by (cases "value") (simp_all add: set_chain_def Let_def)
  next
    case False
    then show ?thesis using i n[OF False] unfolding pj_hash_set_def f
      by (cases "value") (simp_all add: set_chain_def Let_def)
  qed
  show "ht_table (pj_hash_set ht key keylen hval value) = (ht_table ht)[i := set_chain h k value ?es]"
    "ht_rows (pj_hash_set ht key keylen hval value) = ht_rows ht"
    "ht_count (pj_hash_set ht key keylen hval value) =
       (let found = ?pos < length ?es
        in case value of None \<Rightarrow> if found then usub32 (ht_count ht) 1 else ht_count ht
           | Some v \<Rightarrow> if found then ht_count ht else u32 (ht_count ht + 1))"
    unfolding table by simp_all
qed

lemma hash_set_lookup:
  assumes inv: "ht_inv ht"
  shows "ht_lookup (pj_hash_set ht key keylen hval value) =
    (ht_lookup ht)((hash_of hval key keylen, key_bytes key keylen) := value)"
proof -
  define h k i where "h = hash_of hval key keylen" and "k = key_bytes key keylen" and "i = h AND ht_rows ht"
  note S = hash_set_chain[OF inv, of key keylen hval "value", folded h_def k_def i_def]
  have i: "i < length (ht_table ht)" unfolding i_def by (rule ht_inv_row[OF inv])
  have m: "chain_map (set_chain h k value (ht_table ht ! i)) = (chain_map (ht_table ht ! i))((h, k) := value)"
    by (rule set_chain_map[OF ht_invD(4)[OF inv i]])
  have "ht_lookup (pj_hash_set ht key keylen hval value) (h', k') = ((ht_lookup ht)((h, k) := value)) (h', k')" for h' k'
    by (cases "h' AND ht_rows ht = i") (auto simp: ht_lookup_def S(1,2) i m simp flip: i_def)
  then show ?thesis by (auto simp: fun_eq_iff h_def k_def)
qed

lemma length_set_chain:
  "length (set_chain h k value es) =
     (let found = scan_chain h k es < length es
      in case value of None \<Rightarrow> if found then length es - 1 else length es
         | Some v \<Rightarrow> if found then length es else length es + 1)"
  by (auto simp: set_chain_def Let_def split: option.split)

lemma sum_list_update_nat:
  "i < length xs \<Longrightarrow> sum_list (xs[i := x]) + xs ! i = sum_list xs + (x :: nat)"
  by (induction xs arbitrary: i) (auto split: nat.splits)

lemma usub32_u32_pred: "0 < n \<Longrightarrow> usub32 (u32 n) 1 = u32 (n - 1)"
proof -
  assume "0 < n"
  then obtain m where m: "n = Suc m" by (cases n) auto
  have "(Suc m mod 2 ^ 32 + 2 ^ 32 - 1) mod 2 ^ 32 = m mod 2 ^ 32"
    by (simp add: mod_Suc)
  then show ?thesis by (simp add: usub32_def u32_def m)
qed

lemma u32_Suc_u32: "u32 (u32 n + 1) = u32 (n + 1)"
  by (simp add: u32_def mod_Suc_eq)

lemma ht_inv_set:
  assumes inv: "ht_inv ht"
  shows "ht_inv (pj_hash_set ht key keylen hval value)"
proof -
  define h k i where "h = hash_of hval key keylen" and "k = key_bytes key keylen" and "i = h AND ht_rows ht"
  let ?ht' = "pj_hash_set ht key keylen hval value" and ?es = "ht_table ht ! i"
  note S = hash_set_chain[OF inv, of key keylen hval "value", folded h_def k_def i_def]
  have i: "i < length (ht_table ht)" unfolding i_def by (rule ht_inv_row[OF inv])
  note D = ht_invD[OF inv]
  have row: "(\<forall>e\<in>set (ht_table ?ht' ! j). he_hash e AND ht_rows ht = j) \<and> distinct (map entry_id (ht_table ?ht' ! j))"
    if j: "j < length (ht_table ht)" for j
  proof (cases "j = i")
    case True
    have "he_hash e AND ht_rows ht = i" if "e \<in> set (set_chain h k value ?es)" for e
      using set_chain_ids(1)[of h k "value" ?es] that D(3)[OF i] by (force simp: entry_id_def i_def)
    then show ?thesis using True i set_chain_ids(2)[OF D(4)[OF i]] by (simp add: S(1))
  next
    case False
    then show ?thesis using D(3,4)[OF j] by (simp add: S(1))
  qed
  have sum: "sum_list (map length (ht_table ?ht')) + length ?es =
      sum_list (map length (ht_table ht)) + length (set_chain h k value ?es)"
    using sum_list_update_nat[of i "map length (ht_table ht)" "length (set_chain h k value ?es)"] i
    by (simp add: S(1) map_update)
  have ge: "length ?es \<le> sum_list (map length (ht_table ht))"
    using i by (simp add: member_le_sum_list)
  have "ht_count ?ht' = u32 (sum_list (map length (ht_table ?ht')))"
  proof (cases "scan_chain h k ?es < length ?es")
    case found: True
    show ?thesis
    proof (cases "value = None")
      case True
      have "length (set_chain h k value ?es) = length ?es - 1"
        using found True by (simp add: length_set_chain)
      then have "sum_list (map length (ht_table ?ht')) = sum_list (map length (ht_table ht)) - 1"
        using sum found ge by linarith
      moreover have "ht_count ?ht' = usub32 (u32 (sum_list (map length (ht_table ht)))) 1"
        using S(3) True found D(2) by simp
      moreover have "0 < sum_list (map length (ht_table ht))" using found ge by linarith
      ultimately show ?thesis using usub32_u32_pred by simp
    next
      case False
      then obtain v where v: "value = Some v" by auto
      have "length (set_chain h k value ?es) = length ?es" "ht_count ?ht' = ht_count ht"
        using found v S(3) by (simp_all add: length_set_chain)
      then show ?thesis using sum D(2) by simp
    qed
  next
    case new: False
    show ?thesis
    proof (cases "value = None")
      case True
      have "length (set_chain h k value ?es) = length ?es" "ht_count ?ht' = ht_count ht"
        using new True S(3) by (simp_all add: length_set_chain)
      then show ?thesis using sum D(2) by simp
    next
      case False
      then obtain v where v: "value = Some v" by auto
      have "length (set_chain h k value ?es) = length ?es + 1" "ht_count ?ht' = u32 (ht_count ht + 1)"
        using new v S(3) by (simp_all add: length_set_chain)
      then show ?thesis using sum D(2) u32_Suc_u32 by simp
    qed
  qed
  then show ?thesis using inv row S(1,2) unfolding ht_inv_def by simp
qed

section \<open>Creation\<close>

lemma table_size_loop_power:
  assumes "j < 31" "req \<le> 2 ^ 31"
  shows "\<exists>k. table_size_loop req (2 ^ j) = Some (2 ^ k) \<and> j < k \<and> k \<le> 31 \<and> req \<le> 2 ^ k"
  using assms
proof (induction "31 - j" arbitrary: j rule: less_induct)
  case less
  have u: "u32 (2 ^ j * 2) = 2 ^ Suc j"
  proof -
    have "(2::nat) ^ Suc j < 2 ^ 32" using less.prems(1) by (intro power_strict_increasing) auto
    then show ?thesis by (simp add: mult.commute)
  qed
  show ?case
  proof (cases "2 ^ Suc j < req")
    case True
    then have "(2::nat) ^ Suc j < 2 ^ 31" using less.prems(2) by linarith
    then have j: "Suc j < 31" by (meson one_less_numeral_iff power_less_imp_less_exp semiring_norm(76))
    have "table_size_loop req (2 ^ j) = table_size_loop req (2 ^ Suc j)"
      using True u by (subst table_size_loop.simps) (simp add: Let_def)
    moreover have "31 - Suc j < 31 - j" using j by simp
    ultimately show ?thesis using less.hyps[of "Suc j"] j less.prems(2) by (metis Suc_lessD)
  next
    case False
    have "table_size_loop req (2 ^ j) = Some (2 ^ Suc j)"
      using False u by (subst table_size_loop.simps) (simp add: Let_def)
    then show ?thesis using False less.prems(1) by (intro exI[of _ "Suc j"]) auto
  qed
qed

lemma hash_create_ok:
  assumes "req \<le> 2 ^ 31"
  obtains ht k where "pj_hash_create req = Some ht" "ht_inv ht" "ht_lookup ht = Map.empty"
    "ht_rows ht + 1 = 2 ^ k" "req \<le> ht_rows ht + 1"
proof -
  obtain k where k: "table_size_loop req 8 = Some (2 ^ k)" "3 < k" "k \<le> 31" "req \<le> 2 ^ k"
    using table_size_loop_power[of 3 req] assms by auto
  let ?n = "2 ^ k :: nat"
  have "?n \<le> 2 ^ 31" using k(3) by (intro power_increasing) auto
  then have u: "usub32 ?n 1 = ?n - 1" by (intro usub32_ge) auto
  define ht :: "'a hash_table" where "ht = \<lparr>ht_table = replicate ?n [], ht_count = 0, ht_rows = ?n - 1\<rparr>"
  have c: "pj_hash_create req = Some ht" using k(1) u by (simp add: pj_hash_create_def ht_def)
  have "ht_inv ht" using k(3) by (auto simp: ht_inv_def ht_def sum_list_replicate intro!: exI[of _ k])
  moreover have "ht_lookup ht = Map.empty"
  proof
    fix x :: "nat \<times> bytes"
    have "fst x AND (?n - 1) < ?n" by (simp add: and_mask_mod[unfolded One_nat_def])
    then show "ht_lookup ht x = None"
      by (simp add: ht_lookup_def ht_def chain_map_def case_prod_beta)
  qed
  ultimately show thesis using c k(4) that[of ht k] by (simp add: ht_def)
qed

section \<open>The table as a store\<close>

text \<open>
  The contract the users of the table rely on (the transaction layer, the dialog sets, the
  transport manager): a value can be looked up under the key it was set for, until it is replaced
  or removed, whatever happens to other keys.
\<close>

locale key_value_store =
  fixes inv :: "'s \<Rightarrow> bool" and lookup :: "'s \<Rightarrow> 'k \<Rightarrow> 'v option" and put :: "'s \<Rightarrow> 'k \<Rightarrow> 'v option \<Rightarrow> 's"
  assumes put_inv: "inv s \<Longrightarrow> inv (put s k v)"
    and lookup_put: "inv s \<Longrightarrow> lookup (put s k v) k' = (if k' = k then v else lookup s k')"
begin

lemma fold_inv: "inv s \<Longrightarrow> inv (fold (\<lambda>(k, v) s. put s k v) ops s)"
  by (induction ops arbitrary: s) (auto simp: put_inv)

lemma fold_lookup:
  "inv s \<Longrightarrow> lookup (fold (\<lambda>(k, v) s. put s k v) ops s) k =
     (case map_of (rev ops) k of None \<Rightarrow> lookup s k | Some v \<Rightarrow> v)"
proof (induction ops arbitrary: s)
  case (Cons op ops)
  obtain k1 v1 where op: "op = (k1, v1)" by (cases op)
  show ?case using Cons.IH[OF put_inv[OF Cons.prems], of k1 v1] lookup_put[OF Cons.prems]
    by (auto simp: op map_add_def split: option.splits)
qed simp

lemma put_other_commute:
  "inv s \<Longrightarrow> k \<noteq> k' \<Longrightarrow> lookup (put (put s k v) k' v') = lookup (put (put s k' v') k v)"
  by (rule ext) (simp add: put_inv lookup_put)

end

definition hash_lookup :: "'v hash_table \<Rightarrow> bytes \<Rightarrow> 'v option" where
  "hash_lookup ht key = fst (pj_hash_get ht key (Keylen (length key)) None)"

definition hash_put :: "'v hash_table \<Rightarrow> bytes \<Rightarrow> 'v option \<Rightarrow> 'v hash_table" where
  "hash_put ht key value = pj_hash_set ht key (Keylen (length key)) 0 value"

lemma hash_lookup_ht_lookup:
  "hash_lookup ht key = ht_lookup ht (pj_hash_calc 0 key (Keylen (length key)), key)"
  by (simp add: hash_lookup_def hash_get_lookup hash_of_def key_bytes_def Let_def)

interpretation hs: key_value_store ht_inv hash_lookup hash_put
proof
  fix ht :: "'v hash_table" and k k' :: bytes and v :: "'v option"
  assume inv: "ht_inv ht"
  show "ht_inv (hash_put ht k v)" unfolding hash_put_def by (rule ht_inv_set[OF inv])
  show "hash_lookup (hash_put ht k v) k' = (if k' = k then v else hash_lookup ht k')"
    unfolding hash_lookup_ht_lookup hash_put_def hash_set_lookup[OF inv]
    by (simp add: hash_of_def key_bytes_def)
qed

section \<open>Iteration\<close>

fun hash_iterate :: "nat \<Rightarrow> 'v hash_table \<Rightarrow> hash_iterator option \<Rightarrow> 'v list" where
  "hash_iterate 0 ht it = []"
| "hash_iterate (Suc n) ht None = []"
| "hash_iterate (Suc n) ht (Some it) = pj_hash_this ht it # hash_iterate n ht (pj_hash_next ht it)"

definition rest_rows :: "'v hash_table \<Rightarrow> nat \<Rightarrow> 'v hash_entry list" where
  "rest_rows ht i = concat (drop i (take (ht_rows ht) (ht_table ht)))"

lemma rest_rows_step:
  "i < ht_rows ht \<Longrightarrow> ht_rows ht \<le> length (ht_table ht) \<Longrightarrow> rest_rows ht i = ht_table ht ! i @ rest_rows ht (Suc i)"
  by (simp add: rest_rows_def flip: Cons_nth_drop_Suc)

lemma rest_rows_end: "ht_rows ht \<le> i \<Longrightarrow> rest_rows ht i = []"
  by (simp add: rest_rows_def)

lemma scan_rows_spec:
  "ht_rows ht \<le> length (ht_table ht) \<Longrightarrow>
   (case scan_rows ht i of
      None \<Rightarrow> rest_rows ht i = []
    | Some it \<Rightarrow> it_entry it = 0 \<and> it_index it < ht_rows ht \<and> ht_table ht ! it_index it \<noteq> [] \<and>
        rest_rows ht i = ht_table ht ! it_index it @ rest_rows ht (Suc (it_index it)))"
proof (induction ht i rule: scan_rows.induct)
  case (1 ht i)
  show ?case
  proof (cases "i < ht_rows ht \<and> ht_table ht ! i = []")
    case True
    then have "scan_rows ht i = scan_rows ht (i + 1)" by (subst scan_rows.simps) simp
    then show ?thesis using 1 True rest_rows_step[of i ht] by (simp split: option.splits)
  next
    case False
    then show ?thesis using 1(2) rest_rows_step[of i ht] rest_rows_end[of ht i]
      by (subst scan_rows.simps) (auto simp: rest_rows_end)
  qed
qed

lemma hash_iterate_at:
  assumes "ht_rows ht \<le> length (ht_table ht)" "it_index it < ht_rows ht"
    "it_entry it < length (ht_table ht ! it_index it)"
    "length (drop (it_entry it) (ht_table ht ! it_index it) @ rest_rows ht (Suc (it_index it))) < n"
  shows "hash_iterate n ht (Some it) =
    map he_value (drop (it_entry it) (ht_table ht ! it_index it) @ rest_rows ht (Suc (it_index it)))"
  using assms
proof (induction n arbitrary: it)
  case (Suc n)
  let ?es = "ht_table ht ! it_index it"
  have hd: "drop (it_entry it) ?es = ?es ! it_entry it # drop (Suc (it_entry it)) ?es"
    using Suc.prems(3) by (simp add: Cons_nth_drop_Suc)
  show ?case
  proof (cases "Suc (it_entry it) < length ?es")
    case True
    then have "pj_hash_next ht it = Some (it\<lparr>it_entry := Suc (it_entry it)\<rparr>)" by (simp add: pj_hash_next_def)
    then show ?thesis using Suc.IH[of "it\<lparr>it_entry := Suc (it_entry it)\<rparr>"] Suc.prems True hd
      by (simp add: pj_hash_this_def)
  next
    case False
    then have nx: "pj_hash_next ht it = scan_rows ht (Suc (it_index it))" and em: "drop (Suc (it_entry it)) ?es = []"
      by (simp_all add: pj_hash_next_def)
    note sp = scan_rows_spec[OF Suc.prems(1), of "Suc (it_index it)"]
    show ?thesis
    proof (cases "scan_rows ht (Suc (it_index it))")
      case None
      then show ?thesis using sp nx em hd by (cases n) (simp_all add: pj_hash_this_def)
    next
      case (Some it')
      then show ?thesis using Suc.IH[of it'] sp nx em hd Suc.prems by (simp add: pj_hash_this_def)
    qed
  qed
qed simp

lemma hash_iterate_first:
  assumes "ht_inv ht" "length (concat (ht_table ht)) < n"
  shows "hash_iterate n ht (pj_hash_first ht) = map he_value (concat (butlast (ht_table ht)))"
proof -
  note D = ht_invD[OF assms(1)]
  have le: "ht_rows ht \<le> length (ht_table ht)" using D(1) by simp
  have bl: "rest_rows ht 0 = concat (butlast (ht_table ht))"
    by (simp add: rest_rows_def butlast_conv_take D(1))
  have lt: "length (rest_rows ht 0) < n"
    unfolding bl using assms(2) by (metis append_butlast_last_id butlast.simps(1) concat_append le_add1
      length_append order.strict_trans1)
  obtain m where n: "n = Suc m" using lt by (cases n) auto
  show ?thesis
  proof (cases "scan_rows ht 0")
    case None
    then show ?thesis using scan_rows_spec[OF le, of 0] bl n by (simp add: pj_hash_first_def)
  next
    case (Some it)
    then show ?thesis using scan_rows_spec[OF le, of 0] hash_iterate_at[OF le, of it n] bl lt
      by (simp add: pj_hash_first_def)
  qed
qed

section \<open>Properties\<close>

text \<open>
  C32. A table created for any size up to \<open>2 ^ 31\<close> (the creation returns) behaves as a store: after
  any sequence of sets and removals, getting a key returns the value set last for it, or nothing
  when it was removed or never set.
\<close>

theorem hash_table_last_write:
  assumes "req \<le> 2 ^ 31"
  shows "\<exists>ht. pj_hash_create req = Some ht \<and>
     fst (pj_hash_get (fold (\<lambda>(k, v) ht. pj_hash_set ht k (Keylen (length k)) 0 v) ops ht)
            key (Keylen (length key)) None) =
       (case map_of (rev ops) key of None \<Rightarrow> None | Some v \<Rightarrow> v)"
proof -
  obtain ht :: "'a hash_table" and k where ht: "pj_hash_create req = Some ht" "ht_inv ht" "ht_lookup ht = Map.empty"
    using hash_create_ok[OF assms] by metis
  have "hash_lookup ht key = None" by (simp add: hash_lookup_ht_lookup ht(3))
  then show ?thesis using hs.fold_lookup[OF ht(2), of ops key] ht(1)
    unfolding hash_lookup_def hash_put_def by (auto split: option.splits)
qed

theorem hash_table_last_write_witness:
  "\<exists>ht. pj_hash_create 31 = Some ht \<and>
     fst (pj_hash_get (fold (\<lambda>(k, v) ht. pj_hash_set ht k (Keylen (length k)) 0 v)
            [([97], Some True), ([98], Some False), ([97], None)] ht) [98] (Keylen (length [98 :: nat])) None) = Some False"
  using hash_table_last_write[of 31 "[([97], Some True), ([98], Some False), ([97], None)]" "[98]"] by simp

lemma dom_chain_map: "dom (chain_map es) = entry_id ` set es"
  by (force simp: chain_map_def dom_map_of_conv_image_fst)

lemma dom_ht_lookup:
  assumes "ht_inv ht"
  shows "dom (ht_lookup ht) = (\<Union>i<length (ht_table ht). entry_id ` set (ht_table ht ! i))"
proof -
  have "(h, k) \<in> dom (ht_lookup ht) \<longleftrightarrow> (\<exists>i<length (ht_table ht). (h, k) \<in> entry_id ` set (ht_table ht ! i))" for h k
  proof -
    have "(h, k) \<in> dom (ht_lookup ht) \<longleftrightarrow> (h, k) \<in> entry_id ` set (ht_table ht ! (h AND ht_rows ht))"
      unfolding dom_chain_map[symmetric] by (auto simp: ht_lookup_def)
    also have "\<dots> \<longleftrightarrow> (\<exists>i<length (ht_table ht). (h, k) \<in> entry_id ` set (ht_table ht ! i))"
      using ht_inv_row[OF assms, of h] ht_invD(3)[OF assms] by (auto simp: entry_id_def)
    finally show ?thesis .
  qed
  then have "x \<in> dom (ht_lookup ht) \<longleftrightarrow> x \<in> (\<Union>i<length (ht_table ht). entry_id ` set (ht_table ht ! i))" for x
    by (cases x) (simp only: UN_iff lessThan_iff bex_simps, blast)
  then show ?thesis by (rule set_eqI)
qed

lemma sum_lengths_card:
  assumes "ht_inv ht"
  shows "sum_list (map length (ht_table ht)) = card (dom (ht_lookup ht))"
proof -
  note D = ht_invD[OF assms]
  let ?t = "ht_table ht"
  have "card (\<Union>i\<in>{..<length ?t}. entry_id ` set (?t ! i)) = (\<Sum>i<length ?t. card (entry_id ` set (?t ! i)))"
  proof (rule card_UN_disjoint)
    show "\<forall>i\<in>{..<length ?t}. \<forall>j\<in>{..<length ?t}. i \<noteq> j \<longrightarrow>
        entry_id ` set (?t ! i) \<inter> entry_id ` set (?t ! j) = {}"
    proof (intro ballI impI equals0I)
      fix i j x
      assume ij: "i \<in> {..<length ?t}" "j \<in> {..<length ?t}" "i \<noteq> j"
        and "x \<in> entry_id ` set (?t ! i) \<inter> entry_id ` set (?t ! j)"
      then obtain a b where "a \<in> set (?t ! i)" "b \<in> set (?t ! j)" "he_hash a = he_hash b"
        by (auto simp: entry_id_def)
      then show False using D(3)[of i a] D(3)[of j b] ij by simp
    qed
  qed auto
  also have "\<dots> = (\<Sum>i<length ?t. length (?t ! i))"
    by (rule sum.cong) (use D(4) in \<open>auto simp: distinct_card simp flip: set_map\<close>)
  also have "\<dots> = sum_list (map length ?t)"
    by (simp add: sum_list_sum_nth atLeast0LessThan)
  finally show ?thesis using dom_ht_lookup[OF assms] by simp
qed

text \<open>
  Every operation keeps the table in order, and \<open>pj_hash_count\<close> is the number of keys that have
  a value (as a 32-bit number).
\<close>

theorem hash_count_correct:
  assumes "ht_inv ht"
  shows "ht_inv (pj_hash_set ht key keylen hval value) \<and>
     pj_hash_count (pj_hash_set ht key keylen hval value) =
       u32 (card (dom ((ht_lookup ht)((hash_of hval key keylen, key_bytes key keylen) := value))))"
  using ht_inv_set[OF assms, of key keylen hval "value"]
    ht_invD(2)[OF ht_inv_set[OF assms, of key keylen hval "value"]]
    sum_lengths_card[OF ht_inv_set[OF assms, of key keylen hval "value"]]
    hash_set_lookup[OF assms, of key keylen hval "value"]
  by (simp add: pj_hash_count_def)

definition small_table :: "bool hash_table" where
  "small_table = \<lparr>ht_table = replicate 16 [], ht_count = 0, ht_rows = 15\<rparr>"

lemma small_table_inv: "ht_inv small_table"
proof -
  have "(15::nat) = 2 ^ 4 - 1" by simp
  then show ?thesis by (auto simp: ht_inv_def small_table_def sum_list_replicate intro: exI[of _ 4])
qed

theorem hash_count_correct_witness:
  "ht_inv (pj_hash_set small_table [97] (Keylen 1) 0 (Some True))"
  using hash_count_correct[OF small_table_inv] by blast

text \<open>
  The hash value \<open>pj_hash_get\<close> reports back can be handed to \<open>pj_hash_set\<close> for the same key: it
  has the effect of computing the hash value anew, for string keys and for keys with a length.
\<close>

theorem hash_value_reuse:
  "\<exists>v h. pj_hash_get ht key keylen (Some 0) = (v, Some h) \<and> h = pj_hash_calc 0 key keylen \<and>
     pj_hash_set ht' key keylen h value = pj_hash_set ht' key keylen 0 value"
proof -
  let ?h = "pj_hash_calc 0 key keylen"
  have "pj_hash_get ht key keylen (Some 0) = (ht_lookup ht (?h, key_bytes key keylen), Some ?h)"
    by (simp add: hash_get_lookup hash_of_def Let_def)
  moreover have "find_entry ht' key keylen value (Some ?h) = find_entry ht' key keylen value (Some 0)"
    by (simp add: find_entry_def Let_def split: option.split)
  then have "pj_hash_set ht' key keylen ?h value = pj_hash_set ht' key keylen 0 value"
    by (simp add: pj_hash_set_def)
  ultimately show ?thesis by blast
qed

text \<open>
  C33. Iterating over the table with \<open>pj_hash_first\<close> and \<open>pj_hash_next\<close> ends and visits every entry of
  every chain but the last exactly once, in order. The last chain, with index \<open>rows\<close>, is never
  visited: both loops stop one index early.
\<close>

theorem hash_iteration_skips_last_chain:
  assumes "ht_inv ht" "length (concat (ht_table ht)) < n"
  shows "hash_iterate n ht (pj_hash_first ht) = map he_value (concat (butlast (ht_table ht)))"
  by (rule hash_iterate_first[OF assms])

theorem hash_iteration_skips_last_chain_witness:
  "hash_iterate 5 (pj_hash_set small_table [111] (Keylen 1) 0 (Some True))
     (pj_hash_first (pj_hash_set small_table [111] (Keylen 1) 0 (Some True))) = [] \<and>
   pj_hash_count (pj_hash_set small_table [111] (Keylen 1) 0 (Some True)) = 1"
proof -
  let ?h = "pj_hash_set small_table [111] (Keylen 1) 0 (Some True)"
  have h: "hash_of 0 [111] (Keylen 1) = 111" "key_bytes [111] (Keylen 1) = [111]"
    by (simp_all add: hash_of_def pj_hash_calc_def key_bytes_def PJ_HASH_MULTIPLIER_def)
  have r: "ht_rows small_table = 15" "ht_count small_table = 0" "ht_table small_table = replicate 15 [] @ [[]]"
    by (simp_all add: small_table_def numeral_eq_Suc)
  have t: "ht_table ?h = replicate 15 [] @ [[\<lparr>he_key = [111], he_hash = 111, he_value = True\<rparr>]]"
    "ht_count ?h = 1"
    unfolding hash_set_chain[OF small_table_inv] h r by (simp_all add: set_chain_def Let_def nth_append list_update_append)
  have "hash_iterate 5 ?h (pj_hash_first ?h) = map he_value (concat (butlast (ht_table ?h)))"
    by (rule hash_iteration_skips_last_chain[OF ht_inv_set[OF small_table_inv]]) (simp add: t[simplified])
  then show ?thesis by (simp add: t[simplified] pj_hash_count_def butlast_append)
qed

end
