(* ===== verification/Sip_Transaction.thy ===== *)
theory Sip_Transaction
  imports Pj_Time
begin

text \<open>
  The SIP transaction state machine (\<^verbatim>\<open>pjsip/src/pjsip/sip_transaction.c\<close>): client and server
  transactions for INVITE and other methods. One transaction and what it touches is the state of the
  model; every function of the source that changes it is a definition here.

  \<^item> The two timers are their pending delay, or \<open>None\<close>: \<open>_timer_id != -1\<close> in the code. Starting and
    stopping them goes through the endpoint to the timer heap, which refuses to schedule an entry
    that is pending (theory \<open>Timer_Heap\<close>, operation \<open>pj_timer_heap_schedule\<close>).
  \<^item> What the network does is input: \<open>tp_results\<close> are the results of the next calls of
    \<^verbatim>\<open>pjsip_transport_send\<close> (zero for success and for a pending send), \<open>rs_results\<close> those of the next
    resolutions (\<^verbatim>\<open>pjsip_endpt_send_request_stateless\<close>, \<^verbatim>\<open>pjsip_endpt_send_response\<close>), each with the
    calls of \<open>send_msg_callback\<close> made before it returns; an exhausted list means success without
    callback. \<open>create_ack\<close> is \<^verbatim>\<open>pjsip_endpt_create_ack\<close>.
  \<^item> What the transaction user sees and what is sent is output, in \<open>log\<close>. The user has both
    callbacks and does not call back into the transaction from them.
  \<^item> \<open>td_refs\<close> and \<open>tp_refs\<close> count the references to messages and transports that the transaction
    itself has taken and released. \<open>registered\<close> tells whether the transaction is in the table of the
    layer, \<open>unregister_calls\<close> counts the calls that take it out. \<open>fault\<close> records a dereference of a null pointer.
  \<^item> Assertions (\<^verbatim>\<open>pj_assert\<close>) have no effect, as in a release build; \<^verbatim>\<open>PJ_ASSERT_RETURN\<close> returns.
\<close>

section \<open>Data\<close>

datatype tsx_state =
    PJSIP_TSX_STATE_NULL
  | PJSIP_TSX_STATE_CALLING
  | PJSIP_TSX_STATE_TRYING
  | PJSIP_TSX_STATE_PROCEEDING
  | PJSIP_TSX_STATE_COMPLETED
  | PJSIP_TSX_STATE_CONFIRMED
  | PJSIP_TSX_STATE_TERMINATED
  | PJSIP_TSX_STATE_DESTROYED

datatype pjsip_role = PJSIP_ROLE_UAC | PJSIP_ROLE_UAS

datatype method_id =
    PJSIP_INVITE_METHOD
  | PJSIP_CANCEL_METHOD
  | PJSIP_ACK_METHOD
  | PJSIP_BYE_METHOD
  | PJSIP_REGISTER_METHOD
  | PJSIP_OPTIONS_METHOD
  | PJSIP_OTHER_METHOD

datatype msg_type = PJSIP_REQUEST_MSG | PJSIP_RESPONSE_MSG

text \<open>The parts of a message the transaction looks at: the line, and the method of the CSeq header.\<close>

record sip_msg =
  m_type :: msg_type
  m_method :: method_id
  m_code :: int
  m_reason :: string
  m_cseq_method :: method_id

record tx_data =
  td_id :: nat
  td_msg :: sip_msg

record transport =
  tp_id :: nat
  tp_reliable :: bool

datatype tsx_timer = Retransmit_Timer | Timeout_Timer

datatype tsx_event =
    PJSIP_EVENT_TX_MSG tx_data
  | PJSIP_EVENT_RX_MSG sip_msg
  | PJSIP_EVENT_TIMER tsx_timer

datatype event_src =
    Src_Unknown
  | Src_User
  | Src_Tx tx_data
  | Src_Rx sip_msg
  | Src_Timer
  | Src_Transport_Error "tx_data option"

datatype sip_status =
    SIP_SUCCESS
  | SIP_EINVALIDOP
  | SIP_EINVAL
  | SIP_EBUG
  | SIP_EBUSY
  | SIP_EUNKNOWN
  | PJSIP_EMISSINGHDR
  | PJSIP_EINVALIDHDR
  | PJSIP_ENOTREQUESTMSG
  | PJSIP_ENOTRESPONSEMSG
  | SIP_ERR int

datatype status_text = No_Text | Reason string | Default_Text int | Error_Text sip_status

datatype tsx_output =
    Out_Rx_Response sip_msg
  | Out_State tsx_state tsx_state event_src
  | Out_Send nat tx_data
  | Out_Resolve tx_data

text \<open>A call of \<open>send_msg_callback\<close>: the current transport, the address, \<open>sent\<close> and \<open>cont\<close>.\<close>

record send_result =
  sr_transport :: "transport option"
  sr_addr :: nat
  sr_sent :: int
  sr_cont :: bool

record tsx =
  tsx_user :: bool
  role :: pjsip_role
  tsx_method :: method_id
  status_code :: int
  status_text :: status_text
  state :: tsx_state
  handle_200resp :: bool
  transport :: "transport option"
  is_reliable :: bool
  addr :: "nat option"
  res_transport :: "transport option"
  transport_err :: int
  has_pending_transport :: bool
  has_pending_resched :: bool
  has_pending_send :: bool
  has_pending_destroy :: bool
  has_resolved_server :: bool
  last_tx :: "tx_data option"
  retransmit_count :: nat
  retransmit_timer :: "pj_time_val option"
  timeout_timer :: "pj_time_val option"
  registered :: bool
  unregister_calls :: nat
  alive :: bool
  tp_results :: "int list"
  rs_results :: "(send_result list \<times> int) list"
  create_ack :: "tx_data option \<Rightarrow> sip_msg \<Rightarrow> sip_status + tx_data"
  log :: "tsx_output list"
  td_refs :: "nat \<Rightarrow> int"
  tp_refs :: "nat \<Rightarrow> int"
  fault :: bool

definition PJSIP_T1_TIMEOUT :: int where "PJSIP_T1_TIMEOUT = 500"
definition PJSIP_T2_TIMEOUT :: int where "PJSIP_T2_TIMEOUT = 4000"
definition PJSIP_T4_TIMEOUT :: int where "PJSIP_T4_TIMEOUT = 5000"
definition PJSIP_TD_TIMEOUT :: int where "PJSIP_TD_TIMEOUT = 32000"

definition t1_timer_val :: pj_time_val where
  "t1_timer_val = TimeVal (PJSIP_T1_TIMEOUT div 1000) (PJSIP_T1_TIMEOUT mod 1000)"
definition t2_timer_val :: pj_time_val where
  "t2_timer_val = TimeVal (PJSIP_T2_TIMEOUT div 1000) (PJSIP_T2_TIMEOUT mod 1000)"
definition t4_timer_val :: pj_time_val where
  "t4_timer_val = TimeVal (PJSIP_T4_TIMEOUT div 1000) (PJSIP_T4_TIMEOUT mod 1000)"
definition td_timer_val :: pj_time_val where
  "td_timer_val = TimeVal (PJSIP_TD_TIMEOUT div 1000) (PJSIP_TD_TIMEOUT mod 1000)"
definition timeout_timer_val :: pj_time_val where
  "timeout_timer_val = TimeVal ((64 * PJSIP_T1_TIMEOUT) div 1000) ((64 * PJSIP_T1_TIMEOUT) mod 1000)"

definition PJSIP_SC_TSX_TIMEOUT :: int where "PJSIP_SC_TSX_TIMEOUT = 408"
definition PJSIP_SC_TSX_TRANSPORT_ERROR :: int where "PJSIP_SC_TSX_TRANSPORT_ERROR = 503"

definition PJSIP_IS_STATUS_IN_CLASS :: "int \<Rightarrow> int \<Rightarrow> bool" where
  "PJSIP_IS_STATUS_IN_CLASS code cls \<longleftrightarrow> cdiv code 100 = cdiv cls 100"

section \<open>Timers, references, output\<close>

text \<open>A status from outside this file: zero is success.\<close>

definition status_of :: "int \<Rightarrow> sip_status" where
  "status_of e = (if e = 0 then SIP_SUCCESS else SIP_ERR e)"

definition schedule_retransmit :: "tsx \<Rightarrow> pj_time_val \<Rightarrow> tsx" where
  "schedule_retransmit t d = (if retransmit_timer t = None then t\<lparr>retransmit_timer := Some d\<rparr> else t)"

definition schedule_timeout :: "tsx \<Rightarrow> pj_time_val \<Rightarrow> tsx" where
  "schedule_timeout t d = (if timeout_timer t = None then t\<lparr>timeout_timer := Some d\<rparr> else t)"

definition cancel_retransmit :: "tsx \<Rightarrow> tsx" where
  "cancel_retransmit t = t\<lparr>retransmit_timer := None\<rparr>"

definition cancel_timeout :: "tsx \<Rightarrow> tsx" where
  "cancel_timeout t = t\<lparr>timeout_timer := None\<rparr>"

definition emit :: "tsx \<Rightarrow> tsx_output \<Rightarrow> tsx" where
  "emit t out = t\<lparr>log := log t @ [out]\<rparr>"

definition td_add_ref :: "tsx \<Rightarrow> tx_data \<Rightarrow> tsx" where
  "td_add_ref t d = t\<lparr>td_refs := (td_refs t)(td_id d := td_refs t (td_id d) + 1)\<rparr>"

definition td_dec_ref :: "tsx \<Rightarrow> tx_data \<Rightarrow> tsx" where
  "td_dec_ref t d = t\<lparr>td_refs := (td_refs t)(td_id d := td_refs t (td_id d) - 1)\<rparr>"

definition release_transport :: "tsx \<Rightarrow> tsx" where
  "release_transport t =
     (case transport t of
        None \<Rightarrow> t
      | Some tp \<Rightarrow> t\<lparr>tp_refs := (tp_refs t)(tp_id tp := tp_refs t (tp_id tp) - 1), transport := None\<rparr>)"

definition take_transport :: "tsx \<Rightarrow> transport \<Rightarrow> tsx" where
  "take_transport t tp =
     t\<lparr>transport := Some tp, tp_refs := (tp_refs t)(tp_id tp := tp_refs t (tp_id tp) + 1)\<rparr>"

section \<open>Destruction and state changes\<close>

definition tsx_destroy :: "tsx \<Rightarrow> tsx \<times> sip_status" where
  "tsx_destroy t =
     (let t = release_transport t;
          t = (case last_tx t of None \<Rightarrow> t | Some d \<Rightarrow> (td_dec_ref t d)\<lparr>last_tx := None\<rparr>);
          t = cancel_timeout t;
          t = cancel_retransmit t;
          t = t\<lparr>has_pending_resched := False, has_pending_send := False\<rparr>
      in if has_pending_transport t then (t\<lparr>has_pending_destroy := True, tsx_user := False\<rparr>, SIP_EBUSY)
         else (t\<lparr>alive := False\<rparr>, SIP_SUCCESS))"

definition tsx_set_state :: "tsx \<Rightarrow> tsx_state \<Rightarrow> event_src \<Rightarrow> tsx" where
  "tsx_set_state t st src =
     (let prev_state = state t;
          t = t\<lparr>state := st\<rparr>;
          t = (case src of
                 Src_Rx msg \<Rightarrow>
                   if tsx_user t \<and> m_type msg = PJSIP_RESPONSE_MSG then emit t (Out_Rx_Response msg) else t
               | _ \<Rightarrow> t);
          t = (if tsx_user t then emit t (Out_State prev_state st src) else t)
      in if st = PJSIP_TSX_STATE_TERMINATED then
           if has_pending_transport t then t\<lparr>has_pending_destroy := True\<rparr>
           else schedule_timeout (cancel_timeout t) (TimeVal 0 0)
         else if st = PJSIP_TSX_STATE_DESTROYED then fst (tsx_destroy (t\<lparr>registered := False, unregister_calls := unregister_calls t + 1\<rparr>))
         else t)"

definition tsx_set_status_code :: "tsx \<Rightarrow> int \<Rightarrow> status_text \<Rightarrow> tsx" where
  "tsx_set_status_code t code reason = t\<lparr>status_code := code, status_text := reason\<rparr>"

section \<open>Sending\<close>

text \<open>The shift and the product are made on \<^verbatim>\<open>int\<close>; a \<open>retransmit_count\<close> of up to 22 does not overflow.\<close>

definition to_int32 :: "int \<Rightarrow> int" where
  "to_int32 i = (i + 2 ^ 31) mod 2 ^ 32 - 2 ^ 31"

definition retransmit_msec :: "tsx \<Rightarrow> int" where
  "retransmit_msec t =
     (let msec_time = (if role t = PJSIP_ROLE_UAC \<and> status_code t \<ge> 100 then PJSIP_T2_TIMEOUT
                       else to_int32 (2 ^ retransmit_count t * PJSIP_T1_TIMEOUT))
      in if role t = PJSIP_ROLE_UAC then
           if msec_time > PJSIP_T2_TIMEOUT \<and> tsx_method t \<noteq> PJSIP_INVITE_METHOD then PJSIP_T2_TIMEOUT else msec_time
         else if msec_time > PJSIP_T2_TIMEOUT then PJSIP_T2_TIMEOUT else msec_time)"

definition tsx_resched_retransmission :: "tsx \<Rightarrow> tsx" where
  "tsx_resched_retransmission t =
     (let msec_time = retransmit_msec t
      in schedule_retransmit t (TimeVal (cdiv msec_time 1000) (cmod msec_time 1000)))"

definition transport_send :: "tsx \<Rightarrow> transport \<Rightarrow> tx_data \<Rightarrow> tsx \<times> int" where
  "transport_send t tp d =
     (let t = emit t (Out_Send (tp_id tp) d)
      in case tp_results t of [] \<Rightarrow> (t, 0) | r # rs \<Rightarrow> (t\<lparr>tp_results := rs\<rparr>, r))"

text \<open>
  The callback of the send framework. \<open>resend\<close> is \<open>tsx_send_msg\<close>, which it calls when a message has
  been held back. After a success the transaction adopts the transport and does what was held back.
\<close>

definition adopt_transport :: "tsx \<Rightarrow> send_result \<Rightarrow> tsx" where
  "adopt_transport t r =
     (case sr_transport r of
        None \<Rightarrow> if transport t = None then t else t\<lparr>fault := True\<rparr>
      | Some tp \<Rightarrow>
          if transport t \<noteq> Some tp
          then (take_transport (release_transport t) tp)\<lparr>addr := Some (sr_addr r), is_reliable := tp_reliable tp\<rparr>
          else t)"

definition resume_pending :: "(tsx \<Rightarrow> tx_data \<Rightarrow> tsx \<times> sip_status) \<Rightarrow> tsx \<Rightarrow> tsx" where
  "resume_pending resend t =
     (let t = (if has_pending_send t then
                 let t = t\<lparr>has_pending_send := False\<rparr>
                 in case last_tx t of None \<Rightarrow> t | Some d \<Rightarrow> fst (resend t d)
               else t)
      in if has_pending_resched t then
           let t = t\<lparr>has_pending_resched := False\<rparr>
           in if \<not> is_reliable t then tsx_resched_retransmission t else t
         else t)"

definition send_msg_callback_with ::
    "(tsx \<Rightarrow> tx_data \<Rightarrow> tsx \<times> sip_status) \<Rightarrow> tsx \<Rightarrow> tx_data \<Rightarrow> send_result \<Rightarrow> tsx" where
  "send_msg_callback_with resend t d r =
     (if sr_sent r > 0 then
        let t = (adopt_transport t r)\<lparr>has_pending_transport := False, has_resolved_server := True\<rparr>
        in if has_pending_destroy t then tsx_set_state t PJSIP_TSX_STATE_DESTROYED Src_Unknown
           else resume_pending resend t
      else
        let t = (if sr_transport r = transport t \<and> transport t \<noteq> None then release_transport t else t)
        in if \<not> sr_cont r then
             let t = t\<lparr>transport_err := - sr_sent r, has_pending_transport := False, has_resolved_server := True\<rparr>;
                 t = tsx_set_status_code t PJSIP_SC_TSX_TRANSPORT_ERROR (Error_Text (SIP_ERR (- sr_sent r)))
             in if state t \<noteq> PJSIP_TSX_STATE_TERMINATED \<and> state t \<noteq> PJSIP_TSX_STATE_DESTROYED
                then tsx_set_state t PJSIP_TSX_STATE_TERMINATED (Src_Transport_Error (Some d))
                else t
           else t)"

text \<open>
  \<open>tsx_send_msg\<close>, with \<open>run\<close> for the callbacks that a resolution makes before it returns.
\<close>

definition tsx_send_msg_with ::
    "(tsx \<Rightarrow> tx_data \<Rightarrow> send_result list \<Rightarrow> tsx) \<Rightarrow> tsx \<Rightarrow> tx_data \<Rightarrow> tsx \<times> sip_status" where
  "tsx_send_msg_with run t d =
     (if has_pending_transport t then (t\<lparr>has_pending_send := True\<rparr>, SIP_SUCCESS)
      else
        let has_tp = (transport t \<noteq> None);
            (t, st) = (case transport t of None \<Rightarrow> (t, 0) | Some tp \<Rightarrow> transport_send t tp d)
        in if has_tp \<and> st = 0 then (t, SIP_SUCCESS)
           else
             let t = (if has_tp then (release_transport t)\<lparr>addr := None, res_transport := None\<rparr> else t)
             in if has_resolved_server t then
                  let status = (if st = 0 then SIP_EUNKNOWN else SIP_ERR st);
                      t = tsx_set_status_code t PJSIP_SC_TSX_TRANSPORT_ERROR (Error_Text status)
                  in (tsx_set_state t PJSIP_TSX_STATE_TERMINATED (Src_Transport_Error None), status)
                else
                  let t = td_add_ref t d;
                      t = emit (t\<lparr>has_pending_transport := True\<rparr>) (Out_Resolve d);
                      (calls, st) = (case rs_results t of [] \<Rightarrow> ([], 0) | r # _ \<Rightarrow> r);
                      t = run (t\<lparr>rs_results := tl (rs_results t)\<rparr>) d calls;
                      t = (if st \<noteq> 0 then td_dec_ref t d else t)
                  in (t, if st = 0 \<and> state t = PJSIP_TSX_STATE_TERMINATED then status_of (transport_err t)
                         else status_of st))"

text \<open>
  A callback can send, and that sending can resolve again, each time taking one of the results to
  come: their number bounds the depth.
\<close>

primrec tsx_send_msg_depth :: "nat \<Rightarrow> tsx \<Rightarrow> tx_data \<Rightarrow> tsx \<times> sip_status" where
  "tsx_send_msg_depth 0 = tsx_send_msg_with (\<lambda>t d calls. t)"
| "tsx_send_msg_depth (Suc n) =
     tsx_send_msg_with (\<lambda>t d calls. fold (\<lambda>r t. send_msg_callback_with (tsx_send_msg_depth n) t d r) calls t)"

definition tsx_send_msg :: "tsx \<Rightarrow> tx_data \<Rightarrow> tsx \<times> sip_status" where
  "tsx_send_msg t = tsx_send_msg_depth (length (rs_results t)) t"

definition send_msg_callback :: "tsx \<Rightarrow> tx_data \<Rightarrow> send_result \<Rightarrow> tsx" where
  "send_msg_callback = send_msg_callback_with tsx_send_msg"

definition transport_callback :: "tsx \<Rightarrow> tx_data \<Rightarrow> int \<Rightarrow> tsx" where
  "transport_callback t d sent =
     (if sent < 0 then
        let t = t\<lparr>transport_err := - sent\<rparr>;
            t = release_transport t;
            t = tsx_set_status_code t PJSIP_SC_TSX_TRANSPORT_ERROR (Error_Text (SIP_ERR (- sent)))
        in tsx_set_state t PJSIP_TSX_STATE_TERMINATED (Src_Transport_Error (Some d))
      else t)"

definition tsx_retransmit :: "tsx \<Rightarrow> bool \<Rightarrow> tsx \<times> sip_status" where
  "tsx_retransmit t resched =
     (case last_tx t of
        None \<Rightarrow> (t, SIP_EBUG)
      | Some d \<Rightarrow>
          let t = t\<lparr>retransmit_count := retransmit_count t + 1\<rparr>;
              t = (if resched then
                     if has_pending_transport t then t\<lparr>has_pending_resched := True\<rparr>
                     else tsx_resched_retransmission t
                   else t)
          in tsx_send_msg t d)"

section \<open>State handlers\<close>

definition keep_last_tx :: "tsx \<Rightarrow> tx_data \<Rightarrow> tsx" where
  "keep_last_tx t d = (if last_tx t \<noteq> Some d then td_add_ref (t\<lparr>last_tx := Some d\<rparr>) d else t)"

definition drop_other_last_tx :: "tsx \<Rightarrow> tx_data \<Rightarrow> tsx" where
  "drop_other_last_tx t d =
     (case last_tx t of
        Some d' \<Rightarrow> if d' \<noteq> d then (td_dec_ref t d')\<lparr>last_tx := None\<rparr> else t
      | None \<Rightarrow> t)"

text \<open>Restart the retransmission of a message just sent: count from zero, now or when the transport is known.\<close>

definition start_retransmit :: "tsx \<Rightarrow> tsx" where
  "start_retransmit t =
     (let t = t\<lparr>retransmit_count := 0\<rparr>
      in if has_pending_transport t then t\<lparr>has_pending_resched := True\<rparr> else schedule_retransmit t t1_timer_val)"

definition tsx_on_state_null :: "tsx \<Rightarrow> tsx_event \<Rightarrow> tsx \<times> sip_status" where
  "tsx_on_state_null t event =
     (if role t = PJSIP_ROLE_UAS then
        (case event of
           PJSIP_EVENT_RX_MSG msg \<Rightarrow> tsx_set_state t PJSIP_TSX_STATE_TRYING (Src_Rx msg)
         | _ \<Rightarrow> (tsx_set_state t PJSIP_TSX_STATE_TRYING Src_Unknown)\<lparr>fault := True\<rparr>, SIP_SUCCESS)
      else
        case event of
          PJSIP_EVENT_TX_MSG d \<Rightarrow>
            let t = keep_last_tx (drop_other_last_tx t d) d;
                (t, status) = tsx_send_msg t d
            in if status \<noteq> SIP_SUCCESS then (t, status)
               else
                 let t = schedule_timeout t timeout_timer_val;
                     t = (if \<not> is_reliable t then start_retransmit t else t)
                 in (tsx_set_state t PJSIP_TSX_STATE_CALLING (Src_Tx d), SIP_SUCCESS)
        | _ \<Rightarrow> (t, SIP_EBUG))"

text \<open>
  The 300 to 699 responses to a client transaction. The reliability is read from \<open>transport_flag\<close>,
  whose bit 1 is \<open>TSX_HAS_PENDING_TRANSPORT\<close>.
\<close>

definition uac_final_response :: "tsx \<Rightarrow> sip_msg \<Rightarrow> tsx \<times> sip_status" where
  "uac_final_response t msg =
     (let t = cancel_timeout (cancel_retransmit t);
          (t, ack, status) =
            (if tsx_method t = PJSIP_INVITE_METHOD then
               case create_ack t (last_tx t) msg of
                 Inl e \<Rightarrow> (t, None, e)
               | Inr ack \<Rightarrow> (case tsx_send_msg t ack of (t, status) \<Rightarrow> (t, Some ack, status))
             else (t, None, SIP_SUCCESS))
      in if status \<noteq> SIP_SUCCESS then (t, status)
         else
           let t = tsx_set_state t PJSIP_TSX_STATE_COMPLETED (Src_Rx msg);
               t = (case ack of
                      None \<Rightarrow> t
                    | Some ack \<Rightarrow>
                        if last_tx t \<noteq> Some ack then
                          (case last_tx t of None \<Rightarrow> t\<lparr>fault := True\<rparr> | Some d \<Rightarrow> td_dec_ref t d)\<lparr>last_tx := Some ack\<rparr>
                        else t);
               unreliable = ((case transport t of Some tp \<Rightarrow> \<not> tp_reliable tp | None \<Rightarrow> False) \<or>
                             \<not> has_pending_transport t);
               timeout = (if unreliable then if tsx_method t = PJSIP_INVITE_METHOD then td_timer_val else t4_timer_val
                          else TimeVal 0 0)
           in (schedule_timeout t timeout, SIP_SUCCESS))"

definition uac_2xx_response :: "tsx \<Rightarrow> sip_msg \<Rightarrow> tsx" where
  "uac_2xx_response t msg =
     (let t = cancel_timeout t
      in if tsx_method t = PJSIP_INVITE_METHOD then tsx_set_state t PJSIP_TSX_STATE_TERMINATED (Src_Rx msg)
         else
           let timeout = (if \<not> is_reliable t then t4_timer_val else TimeVal 0 0);
               t = schedule_timeout t timeout;
               t = cancel_retransmit t
           in tsx_set_state t PJSIP_TSX_STATE_COMPLETED (Src_Rx msg))"

definition tsx_on_state_proceeding_uac :: "tsx \<Rightarrow> tsx_event \<Rightarrow> tsx \<times> sip_status" where
  "tsx_on_state_proceeding_uac t event =
     (case event of
        PJSIP_EVENT_TX_MSG d \<Rightarrow> (t, SIP_EINVALIDOP)
      | PJSIP_EVENT_TIMER Retransmit_Timer \<Rightarrow> tsx_retransmit t True
      | PJSIP_EVENT_TIMER Timeout_Timer \<Rightarrow>
          (let t = tsx_set_status_code t PJSIP_SC_TSX_TIMEOUT (Default_Text PJSIP_SC_TSX_TIMEOUT)
           in (tsx_set_state t PJSIP_TSX_STATE_TERMINATED Src_Timer, SIP_SUCCESS))
      | PJSIP_EVENT_RX_MSG msg \<Rightarrow>
          if m_type msg \<noteq> PJSIP_RESPONSE_MSG then (t, PJSIP_ENOTRESPONSEMSG)
          else
            let t = tsx_set_status_code t (m_code msg) (Reason (m_reason msg))
            in if PJSIP_IS_STATUS_IN_CLASS (status_code t) 100
               then (tsx_set_state t PJSIP_TSX_STATE_PROCEEDING (Src_Rx msg), SIP_SUCCESS)
               else if PJSIP_IS_STATUS_IN_CLASS (status_code t) 200
               then (uac_2xx_response t msg, SIP_SUCCESS)
               else if status_code t \<ge> 300 \<and> status_code t \<le> 699
               then uac_final_response t msg
               else (t, SIP_EBUG))"

definition calling_rx_timers :: "tsx \<Rightarrow> int \<Rightarrow> tsx" where
  "calling_rx_timers t code =
     (if code \<ge> 200 then cancel_timeout (cancel_retransmit t)
      else
        let t = cancel_retransmit t
        in if tsx_method t = PJSIP_INVITE_METHOD then cancel_timeout t
           else if \<not> is_reliable t then schedule_retransmit t t2_timer_val else t)"

definition tsx_on_state_calling :: "tsx \<Rightarrow> tsx_event \<Rightarrow> tsx \<times> sip_status" where
  "tsx_on_state_calling t event =
     (case event of
        PJSIP_EVENT_TIMER Retransmit_Timer \<Rightarrow>
          (case tsx_retransmit t True of
             (t, status) \<Rightarrow> if status \<noteq> SIP_SUCCESS then (t, status) else (t, SIP_SUCCESS))
      | PJSIP_EVENT_TIMER Timeout_Timer \<Rightarrow>
          (let t = (cancel_retransmit t)\<lparr>has_pending_resched := False\<rparr>;
               t = tsx_set_status_code t PJSIP_SC_TSX_TIMEOUT (Default_Text PJSIP_SC_TSX_TIMEOUT)
           in (tsx_set_state t PJSIP_TSX_STATE_TERMINATED Src_Timer, SIP_SUCCESS))
      | PJSIP_EVENT_RX_MSG msg \<Rightarrow>
          if m_type msg \<noteq> PJSIP_RESPONSE_MSG then (t, PJSIP_ENOTRESPONSEMSG)
          else
            let t = (calling_rx_timers t (m_code msg))\<lparr>has_pending_resched := False\<rparr>
            in (fst (tsx_on_state_proceeding_uac t event), SIP_SUCCESS)
      | PJSIP_EVENT_TX_MSG d \<Rightarrow> (t, SIP_EBUG))"

text \<open>
  The final 2xx response of a server transaction. The transport is dereferenced to ask whether it is
  reliable.
\<close>

definition uas_2xx_response :: "tsx \<Rightarrow> tx_data \<Rightarrow> tsx" where
  "uas_2xx_response t d =
     (if tsx_method t = PJSIP_INVITE_METHOD \<and> \<not> handle_200resp t
      then tsx_set_state t PJSIP_TSX_STATE_TERMINATED (Src_Tx d)
      else
        let t = (if tsx_method t = PJSIP_INVITE_METHOD then start_retransmit t else t);
            t = keep_last_tx t d;
            (t, timeout) =
              (if tsx_method t = PJSIP_INVITE_METHOD then (t, timeout_timer_val)
               else case transport t of
                      None \<Rightarrow> (t\<lparr>fault := True\<rparr>, timeout_timer_val)
                    | Some tp \<Rightarrow> (t, if \<not> tp_reliable tp then timeout_timer_val else TimeVal 0 0));
            t = schedule_timeout t timeout
        in tsx_set_state t PJSIP_TSX_STATE_COMPLETED (Src_Tx d))"

definition uas_final_response :: "tsx \<Rightarrow> tx_data \<Rightarrow> tsx" where
  "uas_final_response t d =
     (let t = keep_last_tx t d;
          t = schedule_timeout t
                (if tsx_method t = PJSIP_INVITE_METHOD then timeout_timer_val
                 else if \<not> is_reliable t then timeout_timer_val else TimeVal 0 0);
          t = (if \<not> is_reliable t \<and> m_cseq_method (td_msg d) = PJSIP_INVITE_METHOD then start_retransmit t else t)
      in tsx_set_state t PJSIP_TSX_STATE_COMPLETED (Src_Tx d))"

definition tsx_on_state_proceeding_uas :: "tsx \<Rightarrow> tsx_event \<Rightarrow> tsx \<times> sip_status" where
  "tsx_on_state_proceeding_uas t event =
     (case event of
        PJSIP_EVENT_RX_MSG msg \<Rightarrow>
          (case last_tx t of
             None \<Rightarrow> (t, SIP_EBUG)
           | Some d \<Rightarrow>
               if has_pending_transport t then (t\<lparr>has_pending_send := True\<rparr>, SIP_SUCCESS)
               else (case tsx_send_msg t d of
                       (t, status) \<Rightarrow> if status \<noteq> SIP_SUCCESS then (t, status) else (t, SIP_SUCCESS)))
      | PJSIP_EVENT_TX_MSG d \<Rightarrow>
          if m_type (td_msg d) \<noteq> PJSIP_RESPONSE_MSG then (t, PJSIP_ENOTRESPONSEMSG)
          else
            let t = tsx_set_status_code t (m_code (td_msg d)) (Reason (m_reason (td_msg d)));
                t = drop_other_last_tx t d;
                (t, status) = tsx_send_msg t d
            in if status \<noteq> SIP_SUCCESS then (t, status)
               else if PJSIP_IS_STATUS_IN_CLASS (status_code t) 100
               then (tsx_set_state (keep_last_tx t d) PJSIP_TSX_STATE_PROCEEDING (Src_Tx d), SIP_SUCCESS)
               else if PJSIP_IS_STATUS_IN_CLASS (status_code t) 200
               then (uas_2xx_response t d, SIP_SUCCESS)
               else if status_code t \<ge> 300 then (uas_final_response t d, SIP_SUCCESS)
               else (t, SIP_SUCCESS)
      | PJSIP_EVENT_TIMER Retransmit_Timer \<Rightarrow>
          (case tsx_retransmit t True of
             (t, status) \<Rightarrow> if status \<noteq> SIP_SUCCESS then (t, status) else (t, SIP_SUCCESS))
      | PJSIP_EVENT_TIMER Timeout_Timer \<Rightarrow>
          (let t = tsx_set_status_code t PJSIP_SC_TSX_TIMEOUT (Default_Text PJSIP_SC_TSX_TIMEOUT)
           in (tsx_set_state t PJSIP_TSX_STATE_TERMINATED Src_Timer, SIP_EBUG)))"

definition tsx_on_state_trying :: "tsx \<Rightarrow> tsx_event \<Rightarrow> tsx \<times> sip_status" where
  "tsx_on_state_trying t event =
     (case event of
        PJSIP_EVENT_TX_MSG d \<Rightarrow>
          (case tsx_on_state_proceeding_uas t event of
             (t, status) \<Rightarrow>
               if status = SIP_SUCCESS \<and> state t = PJSIP_TSX_STATE_TRYING
               then (tsx_set_state t PJSIP_TSX_STATE_PROCEEDING (Src_Tx d), status)
               else (t, status))
      | _ \<Rightarrow> (t, SIP_SUCCESS))"

definition tsx_on_state_completed_uas :: "tsx \<Rightarrow> tsx_event \<Rightarrow> tsx \<times> sip_status" where
  "tsx_on_state_completed_uas t event =
     (case event of
        PJSIP_EVENT_RX_MSG msg \<Rightarrow>
          if m_type msg \<noteq> PJSIP_REQUEST_MSG then (t, PJSIP_ENOTREQUESTMSG)
          else if m_method msg \<noteq> PJSIP_ACK_METHOD then
            (case tsx_retransmit t False of
               (t, status) \<Rightarrow> if status \<noteq> SIP_SUCCESS then (t, status) else (t, SIP_SUCCESS))
          else
            let t = (cancel_retransmit t)\<lparr>has_pending_resched := False\<rparr>;
                t = schedule_timeout (cancel_timeout t) t4_timer_val
            in (tsx_set_state t PJSIP_TSX_STATE_CONFIRMED (Src_Rx msg), SIP_SUCCESS)
      | PJSIP_EVENT_TIMER Retransmit_Timer \<Rightarrow>
          (case tsx_retransmit t True of
             (t, status) \<Rightarrow> if status \<noteq> SIP_SUCCESS then (t, status) else (t, SIP_SUCCESS))
      | PJSIP_EVENT_TIMER Timeout_Timer \<Rightarrow>
          if tsx_method t = PJSIP_INVITE_METHOD then
            (let t = tsx_set_status_code t PJSIP_SC_TSX_TIMEOUT (Default_Text PJSIP_SC_TSX_TIMEOUT)
             in (tsx_set_state t PJSIP_TSX_STATE_TERMINATED Src_Timer, SIP_SUCCESS))
          else (tsx_set_state t PJSIP_TSX_STATE_TERMINATED Src_Timer, SIP_SUCCESS)
      | PJSIP_EVENT_TX_MSG d \<Rightarrow> (t, if last_tx t = Some d then SIP_SUCCESS else SIP_EINVALIDOP))"

definition tsx_on_state_completed_uac :: "tsx \<Rightarrow> tsx_event \<Rightarrow> tsx \<times> sip_status" where
  "tsx_on_state_completed_uac t event =
     (case event of
        PJSIP_EVENT_TIMER _ \<Rightarrow> (tsx_set_state t PJSIP_TSX_STATE_TERMINATED Src_Timer, SIP_SUCCESS)
      | PJSIP_EVENT_RX_MSG msg \<Rightarrow>
          if tsx_method t = PJSIP_INVITE_METHOD \<and> m_type msg = PJSIP_RESPONSE_MSG \<and> m_code msg \<ge> 200 then
            (case tsx_retransmit t False of
               (t, status) \<Rightarrow> if status \<noteq> SIP_SUCCESS then (t, status) else (t, SIP_SUCCESS))
          else (t, SIP_SUCCESS)
      | PJSIP_EVENT_TX_MSG d \<Rightarrow> (t, SIP_EINVALIDOP))"

definition tsx_on_state_confirmed :: "tsx \<Rightarrow> tsx_event \<Rightarrow> tsx \<times> sip_status" where
  "tsx_on_state_confirmed t event =
     (case event of
        PJSIP_EVENT_RX_MSG msg \<Rightarrow>
          (t, if m_type msg \<noteq> PJSIP_REQUEST_MSG then PJSIP_ENOTREQUESTMSG else SIP_SUCCESS)
      | PJSIP_EVENT_TIMER _ \<Rightarrow> (tsx_set_state t PJSIP_TSX_STATE_TERMINATED Src_Timer, SIP_SUCCESS)
      | PJSIP_EVENT_TX_MSG d \<Rightarrow> (t, SIP_EBUG))"

definition event_source :: "tsx_event \<Rightarrow> event_src" where
  "event_source event =
     (case event of PJSIP_EVENT_TX_MSG d \<Rightarrow> Src_Tx d | PJSIP_EVENT_RX_MSG msg \<Rightarrow> Src_Rx msg | PJSIP_EVENT_TIMER _ \<Rightarrow> Src_Timer)"

definition tsx_on_state_terminated :: "tsx \<Rightarrow> tsx_event \<Rightarrow> tsx \<times> sip_status" where
  "tsx_on_state_terminated t event =
     (tsx_set_state t PJSIP_TSX_STATE_DESTROYED (event_source event), SIP_SUCCESS)"

definition tsx_on_state_destroyed :: "tsx \<Rightarrow> tsx_event \<Rightarrow> tsx \<times> sip_status" where
  "tsx_on_state_destroyed t event = (t, SIP_EBUG)"

text \<open>The tables of handlers; calling a missing one is a fault.\<close>

definition state_handler :: "tsx \<Rightarrow> tsx_event \<Rightarrow> tsx \<times> sip_status" where
  "state_handler t event =
     (case state t of
        PJSIP_TSX_STATE_NULL \<Rightarrow> tsx_on_state_null t event
      | PJSIP_TSX_STATE_CALLING \<Rightarrow>
          if role t = PJSIP_ROLE_UAC then tsx_on_state_calling t event else (t\<lparr>fault := True\<rparr>, SIP_EBUG)
      | PJSIP_TSX_STATE_TRYING \<Rightarrow>
          if role t = PJSIP_ROLE_UAS then tsx_on_state_trying t event else (t\<lparr>fault := True\<rparr>, SIP_EBUG)
      | PJSIP_TSX_STATE_PROCEEDING \<Rightarrow>
          if role t = PJSIP_ROLE_UAC then tsx_on_state_proceeding_uac t event
          else tsx_on_state_proceeding_uas t event
      | PJSIP_TSX_STATE_COMPLETED \<Rightarrow>
          if role t = PJSIP_ROLE_UAC then tsx_on_state_completed_uac t event
          else tsx_on_state_completed_uas t event
      | PJSIP_TSX_STATE_CONFIRMED \<Rightarrow> tsx_on_state_confirmed t event
      | PJSIP_TSX_STATE_TERMINATED \<Rightarrow> tsx_on_state_terminated t event
      | PJSIP_TSX_STATE_DESTROYED \<Rightarrow> tsx_on_state_destroyed t event)"

section \<open>Entry points\<close>

text \<open>The heap has taken the entry out when it calls the callback of a timer.\<close>

definition tsx_timer_callback :: "tsx \<Rightarrow> tsx_timer \<Rightarrow> tsx" where
  "tsx_timer_callback t timer =
     (let t = (case timer of
                 Retransmit_Timer \<Rightarrow> t\<lparr>retransmit_timer := None\<rparr>
               | Timeout_Timer \<Rightarrow> t\<lparr>timeout_timer := None\<rparr>)
      in fst (state_handler t (PJSIP_EVENT_TIMER timer)))"

definition pjsip_tsx_terminate :: "tsx \<Rightarrow> int \<Rightarrow> tsx \<times> sip_status" where
  "pjsip_tsx_terminate t code =
     (if code < 200 then (t, SIP_EINVAL)
      else if state t = PJSIP_TSX_STATE_TERMINATED then (t, SIP_SUCCESS)
      else (tsx_set_state (tsx_set_status_code t code (Default_Text code)) PJSIP_TSX_STATE_TERMINATED Src_User, SIP_SUCCESS))"

definition pjsip_tsx_send_msg :: "tsx \<Rightarrow> tx_data option \<Rightarrow> tsx \<times> sip_status" where
  "pjsip_tsx_send_msg t tdata =
     (case (case tdata of None \<Rightarrow> last_tx t | Some d \<Rightarrow> Some d) of
        None \<Rightarrow> (t, SIP_EINVALIDOP)
      | Some d \<Rightarrow>
          (case state_handler t (PJSIP_EVENT_TX_MSG d) of
             (t, status) \<Rightarrow> (if status = SIP_SUCCESS then td_dec_ref t d else t, status)))"

definition pjsip_tsx_recv_msg :: "tsx \<Rightarrow> sip_msg \<Rightarrow> tsx" where
  "pjsip_tsx_recv_msg t msg = fst (state_handler t (PJSIP_EVENT_RX_MSG msg))"

definition tsx_create :: "bool \<Rightarrow> tsx" where
  "tsx_create user =
     \<lparr>tsx_user = user, role = PJSIP_ROLE_UAC, tsx_method = PJSIP_INVITE_METHOD, status_code = 0, status_text = No_Text,
      state = PJSIP_TSX_STATE_NULL, handle_200resp = True, transport = None, is_reliable = False, addr = None,
      res_transport = None, transport_err = 0, has_pending_transport = False, has_pending_resched = False,
      has_pending_send = False, has_pending_destroy = False, has_resolved_server = False, last_tx = None,
      retransmit_count = 0, retransmit_timer = None, timeout_timer = None, registered = False, unregister_calls = 0, alive = True,
      tp_results = [], rs_results = [],
      create_ack = (\<lambda>_ _. Inl SIP_EUNKNOWN), log = [], td_refs = (\<lambda>_. 0), tp_refs = (\<lambda>_. 0),
      fault = False\<rparr>"

end
