(* ===== verification/Tsx_Invariant.thy ===== *)
theory Tsx_Invariant
  imports Sip_Transaction
begin

text \<open>
  What every run of a transaction keeps. The assumptions on the send framework (\<open>env_ok\<close>), what a send
  leaves unchanged (\<open>core\<close>), the invariant \<open>tsx_inv\<close> with one lemma per handler that it is kept and
  that the state does not go back (\<open>advance\<close>), and the step relation \<open>tsx_step\<close> whose reachable states
  satisfy it.
\<close>

section \<open>The network\<close>

text \<open>
  What the send framework promises about its callback: every failed attempt but the last is
  reported with \<open>cont\<close>, and the last call, if it comes before the function returns, reports success
  with a transport or a definite failure. A resolution that fails at once makes no call.
\<close>

definition retry_call :: "send_result \<Rightarrow> bool" where
  "retry_call r \<longleftrightarrow> sr_sent r < 0 \<and> sr_cont r"

definition final_call :: "send_result \<Rightarrow> bool" where
  "final_call r \<longleftrightarrow> (0 < sr_sent r \<and> sr_transport r \<noteq> None) \<or> (sr_sent r < 0 \<and> \<not> sr_cont r)"

fun calls_ok :: "send_result list \<Rightarrow> bool" where
  "calls_ok [] \<longleftrightarrow> True"
| "calls_ok [r] \<longleftrightarrow> retry_call r \<or> final_call r"
| "calls_ok (r # rs) \<longleftrightarrow> retry_call r \<and> calls_ok rs"

definition env_ok :: "tsx \<Rightarrow> bool" where
  "env_ok t \<longleftrightarrow> (\<forall>(calls, st)\<in>set (rs_results t). calls_ok calls \<and> st = 0) \<and> (\<forall>d m. \<exists>ack. create_ack t d m = Inr ack)"

section \<open>What sending leaves unchanged\<close>

text \<open>The part of a transaction that a successful send does not touch.\<close>

definition core :: "tsx \<Rightarrow> _" where
  "core t = (state t, timeout_timer t, retransmit_timer t, last_tx t, status_code t, tsx_method t, role t, handle_200resp t,
     registered t, alive t, tsx_user t, has_pending_destroy t, retransmit_count t, create_ack t)"

lemma coreD:
  assumes "core t' = core t"
  shows "state t' = state t" "timeout_timer t' = timeout_timer t" "retransmit_timer t' = retransmit_timer t"
    "last_tx t' = last_tx t" "status_code t' = status_code t" "tsx_method t' = tsx_method t" "role t' = role t"
    "handle_200resp t' = handle_200resp t" "registered t' = registered t" "alive t' = alive t"
    "tsx_user t' = tsx_user t" "has_pending_destroy t' = has_pending_destroy t"
    "retransmit_count t' = retransmit_count t" "create_ack t' = create_ack t"
  using assms by (simp_all add: core_def)

lemma core_simps [simp]:
  "core (emit t out) = core t" "core (td_add_ref t d) = core t" "core (td_dec_ref t d) = core t"
  "core (release_transport t) = core t" "core (take_transport t tp) = core t"
  "core (t\<lparr>has_pending_transport := b\<rparr>) = core t" "core (t\<lparr>has_pending_resched := b\<rparr>) = core t"
  "core (t\<lparr>has_pending_send := b\<rparr>) = core t" "core (t\<lparr>has_resolved_server := b\<rparr>) = core t"
  "core (t\<lparr>rs_results := rs\<rparr>) = core t" "core (t\<lparr>tp_results := ts\<rparr>) = core t" "core (t\<lparr>addr := a\<rparr>) = core t"
  "core (t\<lparr>res_transport := rt\<rparr>) = core t" "core (t\<lparr>is_reliable := b\<rparr>) = core t" "core (t\<lparr>fault := b\<rparr>) = core t"
  "core (t\<lparr>transport_err := e\<rparr>) = core t"
  by (simp_all add: core_def emit_def td_add_ref_def td_dec_ref_def release_transport_def take_transport_def
      split: option.split)

definition live :: "tsx \<Rightarrow> bool" where
  "live t \<longleftrightarrow> state t \<noteq> PJSIP_TSX_STATE_TERMINATED \<and> state t \<noteq> PJSIP_TSX_STATE_DESTROYED"

definition flags_ok :: "tsx \<Rightarrow> bool" where
  "flags_ok t \<longleftrightarrow> (\<not> has_pending_transport t \<longrightarrow> \<not> has_pending_send t \<and> \<not> has_pending_resched t)"

text \<open>The transaction has terminated because a message could not be sent.\<close>

definition send_failed :: "tsx \<Rightarrow> tsx \<Rightarrow> bool" where
  "send_failed t t' \<longleftrightarrow>
     state t' = PJSIP_TSX_STATE_TERMINATED \<and> timeout_timer t' = Some (TimeVal 0 0) \<and> \<not> has_pending_transport t' \<and>
     status_code t' = PJSIP_SC_TSX_TRANSPORT_ERROR \<and> tsx_method t' = tsx_method t \<and> role t' = role t \<and>
     registered t' = registered t \<and> alive t' = alive t \<and> last_tx t' = last_tx t \<and>
     has_pending_destroy t' = has_pending_destroy t \<and> tsx_user t' = tsx_user t"

lemma pending_simps [simp]:
  "has_pending_transport (emit t out) = has_pending_transport t" "has_pending_send (emit t out) = has_pending_send t"
  "has_pending_resched (emit t out) = has_pending_resched t"
  "has_pending_transport (td_add_ref t d) = has_pending_transport t" "has_pending_send (td_add_ref t d) = has_pending_send t"
  "has_pending_resched (td_add_ref t d) = has_pending_resched t"
  "has_pending_transport (td_dec_ref t d) = has_pending_transport t" "has_pending_send (td_dec_ref t d) = has_pending_send t"
  "has_pending_resched (td_dec_ref t d) = has_pending_resched t"
  "has_pending_transport (release_transport t) = has_pending_transport t"
  "has_pending_send (release_transport t) = has_pending_send t"
  "has_pending_resched (release_transport t) = has_pending_resched t"
  "has_pending_transport (take_transport t tp) = has_pending_transport t"
  "has_pending_send (take_transport t tp) = has_pending_send t"
  "has_pending_resched (take_transport t tp) = has_pending_resched t"
  "rs_results (emit t out) = rs_results t" "rs_results (td_add_ref t d) = rs_results t" "rs_results (td_dec_ref t d) = rs_results t"
  "rs_results (release_transport t) = rs_results t" "rs_results (take_transport t tp) = rs_results t"
  "has_resolved_server (release_transport t) = has_resolved_server t" "has_resolved_server (emit t out) = has_resolved_server t"
  "has_resolved_server (td_add_ref t d) = has_resolved_server t"
  "transport (emit t out) = transport t" "transport (release_transport t) = None" "transport (take_transport t tp) = Some tp"
  "transport (td_add_ref t d) = transport t" "transport (td_dec_ref t d) = transport t"
  "transport_err (td_dec_ref t d) = transport_err t"
  by (simp_all add: emit_def td_add_ref_def td_dec_ref_def release_transport_def take_transport_def split: option.split)

lemma terminate_failed:
  assumes "\<not> has_pending_transport t"
  shows "send_failed t (tsx_set_state (tsx_set_status_code t PJSIP_SC_TSX_TRANSPORT_ERROR txt)
           PJSIP_TSX_STATE_TERMINATED (Src_Transport_Error d))"
    "rs_results (tsx_set_state (tsx_set_status_code t PJSIP_SC_TSX_TRANSPORT_ERROR txt)
           PJSIP_TSX_STATE_TERMINATED (Src_Transport_Error d)) = rs_results t"
    "create_ack (tsx_set_state (tsx_set_status_code t PJSIP_SC_TSX_TRANSPORT_ERROR txt)
           PJSIP_TSX_STATE_TERMINATED (Src_Transport_Error d)) = create_ack t"
    "transport_err (tsx_set_state (tsx_set_status_code t PJSIP_SC_TSX_TRANSPORT_ERROR txt)
           PJSIP_TSX_STATE_TERMINATED (Src_Transport_Error d)) = transport_err t"
  using assms
  by (auto simp: send_failed_def tsx_set_state_def tsx_set_status_code_def Let_def emit_def schedule_timeout_def
      cancel_timeout_def)

lemma send_failed_core: "core a = core b \<Longrightarrow> send_failed a t' \<Longrightarrow> send_failed b t'"
  by (simp add: send_failed_def core_def)

lemma callback_retry:
  fixes resend and t :: tsx and d r
  assumes "retry_call r"
  defines "t' \<equiv> send_msg_callback_with resend t d r"
  shows "core t' = core t" "rs_results t' = rs_results t" "has_pending_transport t' = has_pending_transport t"
    "has_pending_send t' = has_pending_send t" "has_pending_resched t' = has_pending_resched t"
  using assms(1) unfolding t'_def by (auto simp: send_msg_callback_with_def retry_call_def Let_def)

lemma adopt_core:
  "core (adopt_transport t r) = core t" "rs_results (adopt_transport t r) = rs_results t"
  "has_pending_send (adopt_transport t r) = has_pending_send t"
  "has_pending_resched (adopt_transport t r) = has_pending_resched t"
  "sr_transport r = Some tp \<Longrightarrow> transport (adopt_transport t r) = Some tp"
  by (auto simp: adopt_transport_def split: option.split)

lemma callback_sent:
  fixes resend and t :: tsx and d r
  assumes "0 < sr_sent r" "sr_transport r \<noteq> None" "\<not> has_pending_destroy t" "\<not> has_pending_send t" "\<not> has_pending_resched t"
  defines "t' \<equiv> send_msg_callback_with resend t d r"
  shows "core t' = core t" "rs_results t' = rs_results t" "\<not> has_pending_transport t'"
    "\<not> has_pending_send t'" "\<not> has_pending_resched t'"
proof -
  define t1 where "t1 = (adopt_transport t r)\<lparr>has_pending_transport := False, has_resolved_server := True\<rparr>"
  have c: "core t1 = core t" and f: "\<not> has_pending_transport t1" "has_pending_send t1 = has_pending_send t"
    "has_pending_resched t1 = has_pending_resched t" "rs_results t1 = rs_results t"
    by (simp_all add: t1_def adopt_core)
  have "t' = t1"
    unfolding t'_def send_msg_callback_with_def
    using assms(1,3,4,5) coreD(12)[OF c] f by (simp add: Let_def t1_def[symmetric] resume_pending_def)
  then show "core t' = core t" "rs_results t' = rs_results t" "\<not> has_pending_transport t'"
    "\<not> has_pending_send t'" "\<not> has_pending_resched t'"
    using c f assms(4,5) by simp_all
qed

lemma callback_failed:
  fixes resend and t :: tsx and d r
  assumes "sr_sent r < 0" "\<not> sr_cont r" "live t"
  defines "t' \<equiv> send_msg_callback_with resend t d r"
  shows "send_failed t t'" "rs_results t' = rs_results t" "create_ack t' = create_ack t" "transport_err t' = - sr_sent r"
proof -
  define t1 where "t1 = (if sr_transport r = transport t \<and> transport t \<noteq> None then release_transport t else t)
      \<lparr>transport_err := - sr_sent r, has_pending_transport := False, has_resolved_server := True\<rparr>"
  have c: "core t1 = core t" "rs_results t1 = rs_results t" "\<not> has_pending_transport t1"
    "transport_err t1 = - sr_sent r"
    by (simp_all add: t1_def)
  have s: "state (tsx_set_status_code t1 a b) \<noteq> PJSIP_TSX_STATE_TERMINATED"
    "state (tsx_set_status_code t1 a b) \<noteq> PJSIP_TSX_STATE_DESTROYED" for a b
    using assms(3) coreD(1)[OF c(1)] by (simp_all add: live_def tsx_set_status_code_def)
  have e: "t' = tsx_set_state (tsx_set_status_code t1 PJSIP_SC_TSX_TRANSPORT_ERROR (Error_Text (SIP_ERR (- sr_sent r))))
      PJSIP_TSX_STATE_TERMINATED (Src_Transport_Error (Some d))"
    unfolding t'_def send_msg_callback_with_def using assms(1,2) s by (simp add: Let_def t1_def)
  show "send_failed t t'" unfolding e by (rule send_failed_core[OF c(1) terminate_failed(1)[OF c(3)]])
  show "rs_results t' = rs_results t" "create_ack t' = create_ack t" "transport_err t' = - sr_sent r"
    unfolding e terminate_failed(2-4)[OF c(3)] using c coreD(14)[OF c(1)] by simp_all
qed

text \<open>The calls of the callback that a resolution makes before it returns.\<close>

lemma callbacks_result:
  fixes resend and t :: tsx and d calls
  assumes "calls_ok calls" "live t" "\<not> has_pending_destroy t" "\<not> has_pending_send t" "\<not> has_pending_resched t"
  defines "t' \<equiv> fold (\<lambda>r t. send_msg_callback_with resend t d r) calls t"
  shows "rs_results t' = rs_results t \<and> create_ack t' = create_ack t \<and>
    ((core t' = core t \<and> flags_ok t') \<or> (send_failed t t' \<and> transport_err t' \<noteq> 0))"
  using assms(1-5) unfolding t'_def
proof (induction calls arbitrary: t rule: calls_ok.induct)
  case 1
  then show ?case by (simp add: flags_ok_def)
next
  case (2 r)
  consider "retry_call r" | "0 < sr_sent r" "sr_transport r \<noteq> None" | "sr_sent r < 0" "\<not> sr_cont r"
    using 2(1) by (auto simp: final_call_def)
  then show ?case
  proof cases
    case 1
    note R = callback_retry[OF 1, of resend t d]
    show ?thesis using R 2(4,5) coreD(14)[OF R(1)] by (simp add: flags_ok_def)
  next
    case s: 2
    note R = callback_sent[OF s 2(3-5), of resend d]
    show ?thesis using R coreD(14)[OF R(1)] by (simp add: flags_ok_def)
  next
    case 3
    note R = callback_failed[OF 3 2(2), of resend d]
    show ?thesis using R 3 by simp
  qed
next
  case (3 r r' rs)
  then have "retry_call r" "calls_ok (r' # rs)" by simp_all
  note R = callback_retry[OF this(1), of resend t d]
  let ?t = "send_msg_callback_with resend t d r"
  have "live ?t" "\<not> has_pending_destroy ?t" "\<not> has_pending_send ?t" "\<not> has_pending_resched ?t"
    using 3(3-6) R coreD[OF R(1)] by (simp_all add: live_def)
  from 3(1)[OF \<open>calls_ok (r' # rs)\<close> this]
  show ?case using R(1,2) coreD(14)[OF R(1)] send_failed_core[OF R(1)] by auto
qed

lemma env_okD: "env_ok t \<Longrightarrow> (calls, st) \<in> set (rs_results t) \<Longrightarrow> calls_ok calls \<and> st = 0"
  by (auto simp: env_ok_def)

lemma env_ok_sub:
  "env_ok t \<Longrightarrow> set (rs_results t') \<subseteq> set (rs_results t) \<Longrightarrow> create_ack t' = create_ack t \<Longrightarrow> env_ok t'"
  by (auto simp: env_ok_def)

lemma status_of_ne [simp]: "e \<noteq> 0 \<Longrightarrow> status_of e \<noteq> SIP_SUCCESS" "status_of 0 = SIP_SUCCESS"
  by (simp_all add: status_of_def)

text \<open>A send that has no transport and has not resolved the server: the resolution.\<close>

lemma send_resolve:
  assumes run: "\<And>t calls. run t d calls = t \<or> run t d calls = fold (\<lambda>r t. send_msg_callback_with resend t d r) calls t"
    and pre: "live t" "\<not> has_pending_destroy t" "flags_ok t" "env_ok t"
    and now: "\<not> has_pending_transport t" "\<not> has_resolved_server t" "transport t = None"
    and res: "tsx_send_msg_with run t d = (t', st)"
  shows "set (rs_results t') \<subseteq> set (rs_results t) \<and> create_ack t' = create_ack t \<and>
    ((st = SIP_SUCCESS \<and> core t' = core t \<and> flags_ok t') \<or> (st \<noteq> SIP_SUCCESS \<and> send_failed t t'))"
proof -
  define t1 where "t1 = (emit ((td_add_ref t d)\<lparr>has_pending_transport := True\<rparr>) (Out_Resolve d))
      \<lparr>rs_results := tl (rs_results t)\<rparr>"
  obtain calls s where cs: "(case rs_results t of [] \<Rightarrow> ([], 0) | r # _ \<Rightarrow> r) = (calls, s)" by fastforce
  have ok: "calls_ok calls" "s = 0"
    using cs env_okD[OF pre(4), of calls s] by (auto split: list.splits)
  have c: "core t1 = core t" "\<not> has_pending_send t1" "\<not> has_pending_resched t1" "rs_results t1 = tl (rs_results t)"
    using pre(3) now(1) by (simp_all add: t1_def flags_ok_def)
  have live: "live t1" "\<not> has_pending_destroy t1" using pre(1,2) coreD[OF c(1)] by (simp_all add: live_def)
  define t2 where "t2 = run t1 d calls"
  have r: "tsx_send_msg_with run t d = (t2, if state t2 = PJSIP_TSX_STATE_TERMINATED then status_of (transport_err t2) else SIP_SUCCESS)"
    using now cs ok(2) by (simp add: tsx_send_msg_with_def Let_def t2_def t1_def)
  have sub: "set (tl (rs_results t)) \<subseteq> set (rs_results t)" by (cases "rs_results t") auto
  have D: "rs_results t2 = rs_results t1 \<and> create_ack t2 = create_ack t1 \<and>
    ((core t2 = core t1 \<and> flags_ok t2) \<or> (send_failed t1 t2 \<and> transport_err t2 \<noteq> 0))"
    using run[of t1 calls] callbacks_result[OF ok(1) live c(2,3), of resend d] c(2,3) unfolding t2_def
    by (auto simp: flags_ok_def)
  show ?thesis
  proof (cases "core t2 = core t1 \<and> flags_ok t2")
    case True
    then have "state t2 \<noteq> PJSIP_TSX_STATE_TERMINATED" using coreD(1)[of t2 t1] live(1) by (simp add: live_def)
    then show ?thesis using True r res D c sub coreD(14)[OF c(1)] by simp
  next
    case False
    then have f: "send_failed t1 t2" "transport_err t2 \<noteq> 0" using D by auto
    then have "state t2 = PJSIP_TSX_STATE_TERMINATED" by (simp add: send_failed_def)
    then show ?thesis using f r res D c sub coreD(14)[OF c(1)] send_failed_core[OF c(1) f(1)] by simp
  qed
qed

text \<open>
  The result of a send: success leaves the core of the transaction as it was, a failure has
  terminated the transaction and started the timer that destroys it.
\<close>

definition send_result_ok :: "tsx \<Rightarrow> tsx \<Rightarrow> sip_status \<Rightarrow> bool" where
  "send_result_ok t t' st \<longleftrightarrow> set (rs_results t') \<subseteq> set (rs_results t) \<and> create_ack t' = create_ack t \<and>
    ((st = SIP_SUCCESS \<and> core t' = core t \<and> flags_ok t') \<or> (st \<noteq> SIP_SUCCESS \<and> send_failed t t'))"

lemma send_result_ok_core:
  assumes c: "core a = core b" "rs_results a = rs_results b" and r: "send_result_ok a t' st"
  shows "send_result_ok b t' st"
  using r send_failed_core[OF c(1), of t'] coreD(14)[OF c(1)] unfolding send_result_ok_def c by metis

lemma send_direct:
  assumes "transport_send t tp d = (t', st)"
  shows "core t' = core t" "rs_results t' = rs_results t" "has_pending_transport t' = has_pending_transport t"
    "has_pending_send t' = has_pending_send t" "has_pending_resched t' = has_pending_resched t"
    "has_resolved_server t' = has_resolved_server t" "transport t' = transport t"
  using assms by (auto simp: transport_send_def Let_def split: list.splits)

lemma send_with_result:
  assumes run: "\<And>t calls. run t d calls = t \<or> run t d calls = fold (\<lambda>r t. send_msg_callback_with resend t d r) calls t"
    and pre: "live t" "\<not> has_pending_destroy t" "flags_ok t" "env_ok t"
  shows "send_result_ok t (fst (tsx_send_msg_with run t d)) (snd (tsx_send_msg_with run t d))"
proof (cases "has_pending_transport t")
  case True
  then show ?thesis by (simp add: tsx_send_msg_with_def send_result_ok_def flags_ok_def)
next
  case np: False
  have resolve: "send_result_ok t u (snd (tsx_send_msg_with run t1 d))"
    if c: "core t1 = core t" "rs_results t1 = rs_results t" "\<not> has_pending_transport t1" "flags_ok t1" "transport t1 = None"
      and u: "u = fst (tsx_send_msg_with run t1 d)" and nr: "\<not> has_resolved_server t1" for t1 u
  proof (rule send_result_ok_core[OF c(1,2)])
    have "live t1" "\<not> has_pending_destroy t1" "env_ok t1"
      using pre coreD[OF c(1)] c(2) by (auto simp: live_def intro: env_ok_sub)
    from send_resolve[where run = run and resend = resend and d = d, OF run this(1,2) c(4) this(3) c(3) nr c(5), of u "snd (tsx_send_msg_with run t1 d)"] u
    show "send_result_ok t1 u (snd (tsx_send_msg_with run t1 d))" by (simp add: send_result_ok_def)
  qed
  have resolved: "send_result_ok t (tsx_set_state (tsx_set_status_code t1 PJSIP_SC_TSX_TRANSPORT_ERROR tx)
           PJSIP_TSX_STATE_TERMINATED (Src_Transport_Error dd)) st"
    if c: "core t1 = core t" "rs_results t1 = rs_results t" "\<not> has_pending_transport t1" "st \<noteq> SIP_SUCCESS" for t1 tx dd st
    using terminate_failed[OF c(3)] send_failed_core[OF c(1)] c coreD(14)[OF c(1)] by (auto simp: send_result_ok_def)
  show ?thesis
  proof (cases "transport t")
    case None
    show ?thesis
    proof (cases "has_resolved_server t")
      case True
      then show ?thesis using np None resolved[of t SIP_EUNKNOWN] by (simp add: tsx_send_msg_with_def Let_def)
    next
      case False
      then show ?thesis using resolve[of t] np None pre(3) by simp
    qed
  next
    case (Some tp)
    obtain t1 st where s: "transport_send t tp d = (t1, st)" by fastforce
    note S = send_direct[OF s]
    show ?thesis
    proof (cases "st = 0")
      case True
      then show ?thesis using np Some s S coreD(14)[OF S(1)] pre(3)
        by (simp add: tsx_send_msg_with_def Let_def send_result_ok_def flags_ok_def)
    next
      case False
      define t2 where "t2 = (release_transport t1)\<lparr>addr := None, res_transport := None\<rparr>"
      have c: "core t2 = core t" "rs_results t2 = rs_results t" "\<not> has_pending_transport t2" "flags_ok t2" "transport t2 = None"
        "has_resolved_server t2 = has_resolved_server t"
        using S np pre(3) by (simp_all add: t2_def flags_ok_def)
      show ?thesis
      proof (cases "has_resolved_server t")
        case True
        then show ?thesis using False np Some s c resolved[OF c(1-3), of "SIP_ERR st"]
          by (simp add: tsx_send_msg_with_def Let_def t2_def)
      next
        case nr: False
        have "tsx_send_msg_with run t d = tsx_send_msg_with run t2 d"
          using False np Some s c nr by (simp add: tsx_send_msg_with_def Let_def t2_def)
        then show ?thesis using resolve[OF c(1-5)] nr c(6) by simp
      qed
    qed
  qed
qed

lemma send_msg_result:
  assumes "live t" "\<not> has_pending_destroy t" "flags_ok t" "env_ok t"
  shows "send_result_ok t (fst (tsx_send_msg t d)) (snd (tsx_send_msg t d))"
proof (cases "length (rs_results t)")
  case 0
  show ?thesis unfolding tsx_send_msg_def 0 tsx_send_msg_depth.simps
    by (rule send_with_result[where resend = "\<lambda>t d. (t, SIP_SUCCESS)"]) (use assms in auto)
next
  case (Suc n)
  show ?thesis unfolding tsx_send_msg_def Suc tsx_send_msg_depth.simps
    by (rule send_with_result[where resend = "tsx_send_msg_depth n"]) (use assms in auto)
qed

section \<open>The invariant\<close>

text \<open>
  While a transaction waits for an event of the peer that may never come, a timer is pending: this
  is what keeps it from staying forever. A terminated transaction is on its way to destruction,
  by the timer or by the callback of the send in progress. An INVITE transaction with a provisional
  response waits without a timer, as RFC 3261 requires.
\<close>

definition tsx_inv :: "tsx \<Rightarrow> bool" where
  "tsx_inv t \<longleftrightarrow>
     (live t \<longrightarrow> alive t \<and> registered t \<and> \<not> has_pending_destroy t \<and> flags_ok t) \<and>
     (state t = PJSIP_TSX_STATE_NULL \<longrightarrow> timeout_timer t = None \<and> retransmit_timer t = None \<and>
        \<not> has_pending_transport t) \<and>
     (state t \<in> {PJSIP_TSX_STATE_CALLING, PJSIP_TSX_STATE_COMPLETED, PJSIP_TSX_STATE_CONFIRMED} \<longrightarrow>
        timeout_timer t \<noteq> None) \<and>
     (state t = PJSIP_TSX_STATE_PROCEEDING \<and> role t = PJSIP_ROLE_UAC \<and> tsx_method t \<noteq> PJSIP_INVITE_METHOD \<longrightarrow>
        timeout_timer t \<noteq> None) \<and>
     (state t \<in> {PJSIP_TSX_STATE_CALLING, PJSIP_TSX_STATE_PROCEEDING, PJSIP_TSX_STATE_COMPLETED} \<longrightarrow>
        last_tx t \<noteq> None) \<and>
     (state t = PJSIP_TSX_STATE_CALLING \<longrightarrow> role t = PJSIP_ROLE_UAC) \<and>
     (state t \<in> {PJSIP_TSX_STATE_TRYING, PJSIP_TSX_STATE_CONFIRMED} \<longrightarrow> role t = PJSIP_ROLE_UAS) \<and>
     (state t = PJSIP_TSX_STATE_TERMINATED \<longrightarrow> alive t \<and> registered t \<and>
        (if has_pending_transport t then has_pending_destroy t else timeout_timer t \<noteq> None)) \<and>
     (state t = PJSIP_TSX_STATE_DESTROYED \<longrightarrow> \<not> registered t \<and> timeout_timer t = None \<and> retransmit_timer t = None \<and>
        (alive t \<longrightarrow> has_pending_transport t \<and> has_pending_destroy t))"

lemma tsx_invD:
  assumes "tsx_inv t"
  shows "live t \<Longrightarrow> alive t" "live t \<Longrightarrow> registered t" "live t \<Longrightarrow> \<not> has_pending_destroy t" "live t \<Longrightarrow> flags_ok t"
    "state t = PJSIP_TSX_STATE_NULL \<Longrightarrow> timeout_timer t = None"
    "state t = PJSIP_TSX_STATE_NULL \<Longrightarrow> retransmit_timer t = None"
    "state t = PJSIP_TSX_STATE_CALLING \<Longrightarrow> timeout_timer t \<noteq> None"
    "state t = PJSIP_TSX_STATE_COMPLETED \<Longrightarrow> timeout_timer t \<noteq> None"
    "state t = PJSIP_TSX_STATE_CONFIRMED \<Longrightarrow> timeout_timer t \<noteq> None"
    "state t = PJSIP_TSX_STATE_TERMINATED \<Longrightarrow> alive t" "state t = PJSIP_TSX_STATE_TERMINATED \<Longrightarrow> registered t"
  using assms by (simp_all add: tsx_inv_def)

lemma inv_core:
  assumes "tsx_inv t" "core t' = core t" "flags_ok t'" "live t" "state t \<noteq> PJSIP_TSX_STATE_NULL"
  shows "tsx_inv t'"
  using assms(1,3,4,5) coreD[OF assms(2)] by (simp add: tsx_inv_def live_def)

lemma inv_send_failed:
  assumes "alive t" "registered t" "send_failed t t'"
  shows "tsx_inv t'"
  using assms by (simp add: tsx_inv_def send_failed_def live_def)

definition state_log :: "tsx \<Rightarrow> tsx_state \<Rightarrow> event_src \<Rightarrow> tsx_output list" where
  "state_log t st src =
     log t @ (case src of
                Src_Rx msg \<Rightarrow> if tsx_user t \<and> m_type msg = PJSIP_RESPONSE_MSG then [Out_Rx_Response msg] else []
              | _ \<Rightarrow> []) @
     (if tsx_user t then [Out_State (state t) st src] else [])"

lemma set_state_other:
  assumes "st \<noteq> PJSIP_TSX_STATE_TERMINATED" "st \<noteq> PJSIP_TSX_STATE_DESTROYED"
  shows "tsx_set_state t st src = t\<lparr>state := st, log := state_log t st src\<rparr>"
  using assms by (cases src) (simp_all add: tsx_set_state_def Let_def emit_def state_log_def)

lemma set_state_terminated:
  "tsx_set_state t PJSIP_TSX_STATE_TERMINATED src =
     (let t' = t\<lparr>state := PJSIP_TSX_STATE_TERMINATED, log := state_log t PJSIP_TSX_STATE_TERMINATED src\<rparr>
      in if has_pending_transport t then t'\<lparr>has_pending_destroy := True\<rparr> else t'\<lparr>timeout_timer := Some (TimeVal 0 0)\<rparr>)"
  by (cases src) (simp_all add: tsx_set_state_def Let_def emit_def state_log_def schedule_timeout_def cancel_timeout_def)

lemma set_state_fields [simp]:
  "state (tsx_set_state t PJSIP_TSX_STATE_TERMINATED src) = PJSIP_TSX_STATE_TERMINATED"
  "alive (tsx_set_state t PJSIP_TSX_STATE_TERMINATED src) = alive t"
  "registered (tsx_set_state t PJSIP_TSX_STATE_TERMINATED src) = registered t"
  "role (tsx_set_state t PJSIP_TSX_STATE_TERMINATED src) = role t"
  "has_pending_transport (tsx_set_state t PJSIP_TSX_STATE_TERMINATED src) = has_pending_transport t"
  "rs_results (tsx_set_state t PJSIP_TSX_STATE_TERMINATED src) = rs_results t"
  "create_ack (tsx_set_state t PJSIP_TSX_STATE_TERMINATED src) = create_ack t"
  "status_code (tsx_set_state t PJSIP_TSX_STATE_TERMINATED src) = status_code t"
  "tsx_method (tsx_set_state t PJSIP_TSX_STATE_TERMINATED src) = tsx_method t"
  "retransmit_timer (tsx_set_state t PJSIP_TSX_STATE_TERMINATED src) = retransmit_timer t"
  "last_tx (tsx_set_state t PJSIP_TSX_STATE_TERMINATED src) = last_tx t"
  "tp_results (tsx_set_state t PJSIP_TSX_STATE_TERMINATED src) = tp_results t"
  "transport_err (tsx_set_state t PJSIP_TSX_STATE_TERMINATED src) = transport_err t"
  "is_reliable (tsx_set_state t PJSIP_TSX_STATE_TERMINATED src) = is_reliable t"
  "transport (tsx_set_state t PJSIP_TSX_STATE_TERMINATED src) = transport t"
  "retransmit_count (tsx_set_state t PJSIP_TSX_STATE_TERMINATED src) = retransmit_count t"
  "has_pending_send (tsx_set_state t PJSIP_TSX_STATE_TERMINATED src) = has_pending_send t"
  "has_pending_resched (tsx_set_state t PJSIP_TSX_STATE_TERMINATED src) = has_pending_resched t"
  "tsx_user (tsx_set_state t PJSIP_TSX_STATE_TERMINATED src) = tsx_user t"
  "handle_200resp (tsx_set_state t PJSIP_TSX_STATE_TERMINATED src) = handle_200resp t"
  "fault (tsx_set_state t PJSIP_TSX_STATE_TERMINATED src) = fault t"
  "timeout_timer (tsx_set_state t PJSIP_TSX_STATE_TERMINATED src) =
     (if has_pending_transport t then timeout_timer t else Some (TimeVal 0 0))"
  "has_pending_destroy (tsx_set_state t PJSIP_TSX_STATE_TERMINATED src) =
     (has_pending_transport t \<or> has_pending_destroy t)"
  by (simp_all add: set_state_terminated Let_def)

lemma inv_terminated:
  assumes "alive t" "registered t"
  shows "tsx_inv (tsx_set_state t PJSIP_TSX_STATE_TERMINATED src)"
  using assms by (simp add: tsx_inv_def live_def set_state_fields)

lemma destroy_fields [simp]:
  "state (fst (tsx_destroy t)) = state t" "registered (fst (tsx_destroy t)) = registered t"
  "timeout_timer (fst (tsx_destroy t)) = None" "retransmit_timer (fst (tsx_destroy t)) = None"
  "has_pending_transport (fst (tsx_destroy t)) = has_pending_transport t"
  "alive (fst (tsx_destroy t)) = (alive t \<and> has_pending_transport t)"
  "has_pending_destroy (fst (tsx_destroy t)) = (has_pending_destroy t \<or> has_pending_transport t)"
  by (auto simp: tsx_destroy_def Let_def release_transport_def cancel_timeout_def cancel_retransmit_def td_dec_ref_def
      split: option.split)

lemma set_destroyed_fields [simp]:
  "state (tsx_set_state t PJSIP_TSX_STATE_DESTROYED src) = PJSIP_TSX_STATE_DESTROYED"
  "\<not> registered (tsx_set_state t PJSIP_TSX_STATE_DESTROYED src)"
  "timeout_timer (tsx_set_state t PJSIP_TSX_STATE_DESTROYED src) = None"
  "retransmit_timer (tsx_set_state t PJSIP_TSX_STATE_DESTROYED src) = None"
  "has_pending_transport (tsx_set_state t PJSIP_TSX_STATE_DESTROYED src) = has_pending_transport t"
  "alive (tsx_set_state t PJSIP_TSX_STATE_DESTROYED src) = (alive t \<and> has_pending_transport t)"
  "has_pending_destroy (tsx_set_state t PJSIP_TSX_STATE_DESTROYED src) = (has_pending_destroy t \<or> has_pending_transport t)"
  by (cases src; simp add: tsx_set_state_def Let_def emit_def)+

lemma inv_destroyed: "tsx_inv (tsx_set_state t PJSIP_TSX_STATE_DESTROYED src)"
  by (auto simp: tsx_inv_def live_def)

text \<open>Sending from a live state: the invariant survives, and success does not move the transaction.\<close>

lemma send_msg_live:
  assumes "tsx_inv t" "live t" "env_ok t" "tsx_send_msg t d = (t', st)" "state t \<noteq> PJSIP_TSX_STATE_NULL"
  shows "tsx_inv t'" "env_ok t'" "st = SIP_SUCCESS \<Longrightarrow> core t' = core t" "st = SIP_SUCCESS \<Longrightarrow> flags_ok t'"
    "st \<noteq> SIP_SUCCESS \<Longrightarrow> send_failed t t'"
proof -
  have r: "send_result_ok t t' st"
    using send_msg_result[of t d] tsx_invD[OF assms(1)] assms(2-4) by simp
  show "env_ok t'" using r env_ok_sub[OF assms(3)] by (simp add: send_result_ok_def)
  show "st = SIP_SUCCESS \<Longrightarrow> core t' = core t" "st = SIP_SUCCESS \<Longrightarrow> flags_ok t'" "st \<noteq> SIP_SUCCESS \<Longrightarrow> send_failed t t'"
    using r by (simp_all add: send_result_ok_def)
  then show "tsx_inv t'"
    using inv_core[OF assms(1) _ _ assms(2,5)] inv_send_failed[of t t'] tsx_invD(1,2)[OF assms(1,2)]
    by (cases "st = SIP_SUCCESS") auto
qed

text \<open>
  The same for a transaction that is about to change its state: only the parts of the invariant that
  sending needs.
\<close>

lemma send_msg_busy:
  assumes "live t" "alive t" "registered t" "\<not> has_pending_destroy t" "flags_ok t" "env_ok t" "tsx_send_msg t d = (t', st)"
  shows "env_ok t'" "st = SIP_SUCCESS \<Longrightarrow> core t' = core t" "st = SIP_SUCCESS \<Longrightarrow> flags_ok t'"
    "st \<noteq> SIP_SUCCESS \<Longrightarrow> tsx_inv t' \<and> send_failed t t'"
proof -
  have r: "send_result_ok t t' st" using send_msg_result[of t d] assms by simp
  show "env_ok t'" using r env_ok_sub[OF assms(6)] by (simp add: send_result_ok_def)
  show "st = SIP_SUCCESS \<Longrightarrow> core t' = core t" "st = SIP_SUCCESS \<Longrightarrow> flags_ok t'"
    "st \<noteq> SIP_SUCCESS \<Longrightarrow> tsx_inv t' \<and> send_failed t t'"
    using r inv_send_failed[OF assms(2,3)] by (simp_all add: send_result_ok_def)
qed

lemma retransmit_live:
  assumes "tsx_inv t" "live t" "env_ok t" "state t \<noteq> PJSIP_TSX_STATE_NULL" "tsx_retransmit t resched = (t', st)"
  shows "tsx_inv t' \<and> env_ok t' \<and> (if live t' then state t' = state t else state t' = PJSIP_TSX_STATE_TERMINATED)"
proof (cases "last_tx t")
  case None
  then show ?thesis using assms by (auto simp: tsx_retransmit_def)
next
  case (Some d)
  define t1 where "t1 = (let t = t\<lparr>retransmit_count := retransmit_count t + 1\<rparr>
    in if resched then if has_pending_transport t then t\<lparr>has_pending_resched := True\<rparr> else tsx_resched_retransmission t else t)"
  have t1: "tsx_inv t1" "live t1" "env_ok t1" "state t1 = state t"
    using assms(1-4)
    by (auto simp: t1_def tsx_inv_def live_def env_ok_def flags_ok_def tsx_resched_retransmission_def
        schedule_retransmit_def Let_def)
  have s: "tsx_send_msg t1 d = (t', st)" using assms(5) Some by (simp add: tsx_retransmit_def t1_def Let_def)
  have "state t1 \<noteq> PJSIP_TSX_STATE_NULL" using t1(4) assms(4) by simp
  note S = send_msg_live[OF t1(1-3) s this]
  show ?thesis
  proof (cases "st = SIP_SUCCESS")
    case True
    then show ?thesis using S(1,2) coreD(1)[OF S(3)[OF True]] t1(2,4) by (simp add: live_def)
  next
    case False
    then show ?thesis using S(1,2) S(5)[OF False] by (simp add: send_failed_def live_def)
  qed
qed

section \<open>The handlers keep the invariant\<close>

text \<open>What a transaction in use has in common, whatever its state.\<close>

definition busy :: "tsx \<Rightarrow> bool" where
  "busy t \<longleftrightarrow> alive t \<and> registered t \<and> \<not> has_pending_destroy t \<and> flags_ok t"

lemma inv_busy: "tsx_inv t \<Longrightarrow> live t \<Longrightarrow> busy t"
  by (simp add: tsx_inv_def busy_def)

lemma inv_set_state:
  assumes "busy t" "st \<in> {PJSIP_TSX_STATE_CALLING, PJSIP_TSX_STATE_TRYING, PJSIP_TSX_STATE_PROCEEDING,
      PJSIP_TSX_STATE_COMPLETED, PJSIP_TSX_STATE_CONFIRMED}"
    "st \<in> {PJSIP_TSX_STATE_CALLING, PJSIP_TSX_STATE_COMPLETED, PJSIP_TSX_STATE_CONFIRMED} \<Longrightarrow> timeout_timer t \<noteq> None"
    "st = PJSIP_TSX_STATE_PROCEEDING \<Longrightarrow> role t = PJSIP_ROLE_UAC \<Longrightarrow> tsx_method t \<noteq> PJSIP_INVITE_METHOD \<Longrightarrow> timeout_timer t \<noteq> None"
    "st \<in> {PJSIP_TSX_STATE_CALLING, PJSIP_TSX_STATE_PROCEEDING, PJSIP_TSX_STATE_COMPLETED} \<Longrightarrow> last_tx t \<noteq> None"
    "st = PJSIP_TSX_STATE_CALLING \<Longrightarrow> role t = PJSIP_ROLE_UAC"
    "st \<in> {PJSIP_TSX_STATE_TRYING, PJSIP_TSX_STATE_CONFIRMED} \<Longrightarrow> role t = PJSIP_ROLE_UAS"
  shows "tsx_inv (tsx_set_state t st src)"
proof -
  have "tsx_set_state t st src = t\<lparr>state := st, log := state_log t st src\<rparr>"
    using assms(2) by (intro set_state_other) auto
  then show ?thesis using assms by (auto simp: tsx_inv_def busy_def live_def flags_ok_def)
qed

lemma env_set_state [simp]: "env_ok (tsx_set_state t st src) = env_ok t"
proof -
  have d: "rs_results (fst (tsx_destroy u)) = rs_results u" "create_ack (fst (tsx_destroy u)) = create_ack u" for u
    by (simp_all add: tsx_destroy_def Let_def release_transport_def cancel_timeout_def cancel_retransmit_def td_dec_ref_def
        split: option.split)
  have "rs_results (tsx_set_state t st src) = rs_results t" "create_ack (tsx_set_state t st src) = create_ack t"
    by (cases src; simp add: tsx_set_state_def Let_def emit_def d schedule_timeout_def cancel_timeout_def)+
  then show ?thesis by (simp add: env_ok_def)
qed

lemma env_simps [simp]:
  "env_ok (schedule_timeout t d) = env_ok t" "env_ok (schedule_retransmit t d) = env_ok t"
  "env_ok (cancel_timeout t) = env_ok t" "env_ok (cancel_retransmit t) = env_ok t"
  "env_ok (tsx_set_status_code t c r) = env_ok t" "env_ok (t\<lparr>has_pending_resched := b\<rparr>) = env_ok t"
  "env_ok (t\<lparr>has_pending_send := b\<rparr>) = env_ok t" "env_ok (t\<lparr>fault := b\<rparr>) = env_ok t"
  "env_ok (t\<lparr>timeout_timer := tt\<rparr>) = env_ok t" "env_ok (t\<lparr>retransmit_timer := tt\<rparr>) = env_ok t"
  "env_ok (keep_last_tx t x) = env_ok t" "env_ok (drop_other_last_tx t x) = env_ok t" "env_ok (start_retransmit t) = env_ok t"
  "env_ok (td_dec_ref t x) = env_ok t" "env_ok (t\<lparr>last_tx := l\<rparr>) = env_ok t"
  by (simp_all add: env_ok_def schedule_timeout_def schedule_retransmit_def cancel_timeout_def cancel_retransmit_def
      tsx_set_status_code_def keep_last_tx_def drop_other_last_tx_def start_retransmit_def td_add_ref_def td_dec_ref_def Let_def
      split: option.split)

lemma busy_simps [simp]:
  "busy (schedule_timeout t d) = busy t" "busy (schedule_retransmit t d) = busy t"
  "busy (cancel_timeout t) = busy t" "busy (cancel_retransmit t) = busy t" "busy (tsx_set_status_code t c r) = busy t"
  "busy (keep_last_tx t x) = busy t" "busy (drop_other_last_tx t x) = busy t" "busy (td_dec_ref t x) = busy t"
  "busy (t\<lparr>last_tx := l\<rparr>) = busy t" "busy (t\<lparr>fault := b\<rparr>) = busy t"
  "busy (t\<lparr>timeout_timer := tt\<rparr>) = busy t" "busy (t\<lparr>retransmit_timer := tt\<rparr>) = busy t"
  "busy t \<Longrightarrow> busy (t\<lparr>has_pending_resched := False\<rparr>)" "busy t \<Longrightarrow> busy (start_retransmit t)"
  by (auto simp: busy_def flags_ok_def schedule_timeout_def schedule_retransmit_def cancel_timeout_def cancel_retransmit_def
      tsx_set_status_code_def keep_last_tx_def drop_other_last_tx_def start_retransmit_def td_add_ref_def td_dec_ref_def Let_def
      split: option.split if_splits)

lemma state_simps [simp]:
  "state (schedule_timeout t d) = state t" "state (schedule_retransmit t d) = state t"
  "state (cancel_timeout t) = state t" "state (cancel_retransmit t) = state t" "state (tsx_set_status_code t c r) = state t"
  "state (keep_last_tx t x) = state t" "state (drop_other_last_tx t x) = state t" "state (start_retransmit t) = state t"
  "state (td_dec_ref t x) = state t"
  "role (schedule_timeout t d) = role t" "role (schedule_retransmit t d) = role t"
  "role (cancel_timeout t) = role t" "role (cancel_retransmit t) = role t" "role (tsx_set_status_code t c r) = role t"
  "role (keep_last_tx t x) = role t" "role (drop_other_last_tx t x) = role t" "role (start_retransmit t) = role t"
  "role (td_dec_ref t x) = role t"
  "tsx_method (schedule_timeout t d) = tsx_method t" "tsx_method (schedule_retransmit t d) = tsx_method t"
  "tsx_method (cancel_timeout t) = tsx_method t" "tsx_method (cancel_retransmit t) = tsx_method t" "tsx_method (tsx_set_status_code t c r) = tsx_method t"
  "tsx_method (keep_last_tx t x) = tsx_method t" "tsx_method (drop_other_last_tx t x) = tsx_method t" "tsx_method (start_retransmit t) = tsx_method t"
  "tsx_method (td_dec_ref t x) = tsx_method t"
  by (auto simp: schedule_timeout_def schedule_retransmit_def cancel_timeout_def cancel_retransmit_def
      tsx_set_status_code_def keep_last_tx_def drop_other_last_tx_def start_retransmit_def td_add_ref_def td_dec_ref_def Let_def
      split: option.split)

lemma timer_simps [simp]:
  "timeout_timer (schedule_timeout t d) = Some (case timeout_timer t of None \<Rightarrow> d | Some x \<Rightarrow> x)" "timeout_timer (schedule_retransmit t d) = timeout_timer t"
  "timeout_timer (cancel_timeout t) = None" "timeout_timer (cancel_retransmit t) = timeout_timer t"
  "timeout_timer (tsx_set_status_code t c r) = timeout_timer t" "timeout_timer (keep_last_tx t x) = timeout_timer t"
  "timeout_timer (drop_other_last_tx t x) = timeout_timer t" "timeout_timer (start_retransmit t) = timeout_timer t"
  "timeout_timer (td_dec_ref t x) = timeout_timer t"
  "last_tx (schedule_timeout t d) = last_tx t" "last_tx (schedule_retransmit t d) = last_tx t"
  "last_tx (cancel_timeout t) = last_tx t" "last_tx (cancel_retransmit t) = last_tx t"
  "last_tx (tsx_set_status_code t c r) = last_tx t" "last_tx (keep_last_tx t x) = Some x"
  "last_tx (start_retransmit t) = last_tx t" "last_tx (td_dec_ref t x) = last_tx t"
  "status_code (tsx_set_status_code t c r) = c" "status_code (drop_other_last_tx t x) = status_code t"
  "status_code (keep_last_tx t x) = status_code t"
  by (auto simp: schedule_timeout_def schedule_retransmit_def cancel_timeout_def cancel_retransmit_def
      tsx_set_status_code_def keep_last_tx_def drop_other_last_tx_def start_retransmit_def td_add_ref_def td_dec_ref_def Let_def
      split: option.split)

lemma busy_terminated [simp]: "busy t \<Longrightarrow> tsx_inv (tsx_set_state t PJSIP_TSX_STATE_TERMINATED src)"
  by (simp add: busy_def inv_terminated)

lemma busy_core: "core t' = core t \<Longrightarrow> flags_ok t' \<Longrightarrow> busy t \<Longrightarrow> busy t'"
  using coreD[of t' t] by (simp add: busy_def)

lemma send_busy:
  assumes "busy t" "live t" "env_ok t" "tsx_send_msg t d = (t', st)"
  shows "env_ok t'" "st = SIP_SUCCESS \<Longrightarrow> core t' = core t" "st = SIP_SUCCESS \<Longrightarrow> busy t'" "st \<noteq> SIP_SUCCESS \<Longrightarrow> tsx_inv t'"
    "st \<noteq> SIP_SUCCESS \<Longrightarrow> state t' = PJSIP_TSX_STATE_TERMINATED"
  using send_msg_busy[of t d t' st] assms busy_core[of t' t] by (auto simp: busy_def send_failed_def)

text \<open>The states in the order of the enumeration: a transaction only moves forward.\<close>

fun state_rank :: "tsx_state \<Rightarrow> nat" where
  "state_rank PJSIP_TSX_STATE_NULL = 0"
| "state_rank PJSIP_TSX_STATE_CALLING = 1"
| "state_rank PJSIP_TSX_STATE_TRYING = 2"
| "state_rank PJSIP_TSX_STATE_PROCEEDING = 3"
| "state_rank PJSIP_TSX_STATE_COMPLETED = 4"
| "state_rank PJSIP_TSX_STATE_CONFIRMED = 5"
| "state_rank PJSIP_TSX_STATE_TERMINATED = 6"
| "state_rank PJSIP_TSX_STATE_DESTROYED = 7"

lemma state_rank_inj: "state_rank a = state_rank b \<Longrightarrow> a = b"
  by (cases a; cases b) simp_all

instantiation tsx_state :: linorder
begin

definition less_eq_tsx_state :: "tsx_state \<Rightarrow> tsx_state \<Rightarrow> bool" where
  "less_eq_tsx_state a b \<longleftrightarrow> state_rank a \<le> state_rank b"

definition less_tsx_state :: "tsx_state \<Rightarrow> tsx_state \<Rightarrow> bool" where
  "less_tsx_state a b \<longleftrightarrow> state_rank a < state_rank b"

instance
  by standard (auto simp: less_eq_tsx_state_def less_tsx_state_def intro: state_rank_inj)

end

lemma le_state_simps [simp]:
  "s \<le> PJSIP_TSX_STATE_DESTROYED" "PJSIP_TSX_STATE_NULL \<le> s"
  "s \<le> PJSIP_TSX_STATE_TERMINATED \<longleftrightarrow> s \<noteq> PJSIP_TSX_STATE_DESTROYED"
  "PJSIP_TSX_STATE_CALLING \<le> PJSIP_TSX_STATE_PROCEEDING" "PJSIP_TSX_STATE_CALLING \<le> PJSIP_TSX_STATE_COMPLETED"
  "PJSIP_TSX_STATE_TRYING \<le> PJSIP_TSX_STATE_PROCEEDING" "PJSIP_TSX_STATE_TRYING \<le> PJSIP_TSX_STATE_COMPLETED"
  "PJSIP_TSX_STATE_PROCEEDING \<le> PJSIP_TSX_STATE_COMPLETED" "PJSIP_TSX_STATE_COMPLETED \<le> PJSIP_TSX_STATE_CONFIRMED"
  by (cases s; simp add: less_eq_tsx_state_def)+

lemma live_le: "live t \<Longrightarrow> state t \<noteq> PJSIP_TSX_STATE_DESTROYED"
  by (simp add: live_def)

text \<open>A handler that has done its work: the invariant holds and the state has not gone back.\<close>

definition advance :: "tsx \<Rightarrow> tsx \<Rightarrow> bool" where
  "advance t t' \<longleftrightarrow> tsx_inv t' \<and> env_ok t' \<and> state t \<le> state t'"

lemma state_set_other [simp]:
  "st \<in> {PJSIP_TSX_STATE_CALLING, PJSIP_TSX_STATE_TRYING, PJSIP_TSX_STATE_PROCEEDING,
      PJSIP_TSX_STATE_COMPLETED, PJSIP_TSX_STATE_CONFIRMED} \<Longrightarrow> state (tsx_set_state t st src) = st"
  using set_state_other[of st t src] by auto

lemma advance_terminated:
  "busy u \<Longrightarrow> env_ok u \<Longrightarrow> live t \<Longrightarrow> advance t (tsx_set_state u PJSIP_TSX_STATE_TERMINATED src)"
  using live_le[of t] by (simp add: advance_def)

lemma advance_destroyed: "env_ok t \<Longrightarrow> advance t (tsx_set_state u PJSIP_TSX_STATE_DESTROYED src)" if "env_ok u"
  using that by (simp add: advance_def inv_destroyed)

lemma advance_refl: "tsx_inv t \<Longrightarrow> env_ok t \<Longrightarrow> advance t t"
  by (simp add: advance_def)

lemma retransmit_advance:
  assumes "tsx_inv t" "live t" "env_ok t" "state t \<noteq> PJSIP_TSX_STATE_NULL"
  shows "advance t (fst (tsx_retransmit t resched))"
proof -
  obtain t' st where r: "tsx_retransmit t resched = (t', st)" by fastforce
  show ?thesis using retransmit_live[OF assms r] r live_le[OF assms(2)] by (auto simp: advance_def split: if_splits)
qed

lemma null_advance:
  assumes inv: "tsx_inv t" and env: "env_ok t" and st: "state t = PJSIP_TSX_STATE_NULL"
    and ev: "role t = PJSIP_ROLE_UAS \<Longrightarrow> \<exists>msg. event = PJSIP_EVENT_RX_MSG msg"
  shows "advance t (fst (tsx_on_state_null t event))"
proof -
  have live: "live t" and busy: "busy t" using st inv_busy[OF inv] by (simp_all add: live_def)
  show ?thesis
  proof (cases "role t")
    case PJSIP_ROLE_UAS
    with ev obtain msg where "event = PJSIP_EVENT_RX_MSG msg" by blast
    then show ?thesis using PJSIP_ROLE_UAS busy env st
      by (auto simp: tsx_on_state_null_def advance_def intro!: inv_set_state)
  next
    case r: PJSIP_ROLE_UAC
    show ?thesis
    proof (cases "\<exists>d. event = PJSIP_EVENT_TX_MSG d")
      case True
      then obtain d where d: "event = PJSIP_EVENT_TX_MSG d" by blast
      define t0 where "t0 = keep_last_tx (drop_other_last_tx t d) d"
      obtain t1 s where s: "tsx_send_msg t0 d = (t1, s)" by fastforce
      have l0: "live t0" "busy t0" "env_ok t0" "role t0 = role t" "last_tx t0 = Some d"
        using live busy env by (simp_all add: t0_def live_def)
      note S = send_busy[OF l0(2,1,3) s]
      define t2 where "t2 = (let t = schedule_timeout t1 timeout_timer_val
        in if \<not> is_reliable t then start_retransmit t else t)"
      have e: "fst (tsx_on_state_null t event) =
        (if s \<noteq> SIP_SUCCESS then t1 else tsx_set_state t2 PJSIP_TSX_STATE_CALLING (Src_Tx d))"
        using s by (simp add: tsx_on_state_null_def d r Let_def t0_def t2_def)
      have "busy t2 \<and> timeout_timer t2 \<noteq> None \<and> last_tx t2 = last_tx t1 \<and> role t2 = role t1 \<and> env_ok t2" if "s = SIP_SUCCESS"
        using S(3)[OF that] S(1) by (simp add: t2_def Let_def)
      then show ?thesis unfolding e using S(1,4) coreD[OF S(2)] l0 r st
        by (auto simp: advance_def intro!: inv_set_state)
    next
      case False
      then show ?thesis using r inv env
        by (auto simp: tsx_on_state_null_def advance_refl split: tsx_event.splits)
    qed
  qed
qed

lemma final_response_advance:
  assumes busy: "busy t" and live: "live t" and env: "env_ok t" and le: "state t \<le> PJSIP_TSX_STATE_COMPLETED" and lt: "last_tx t \<noteq> None"
  shows "advance t (fst (uac_final_response t msg))"
proof -
  define t0 where "t0 = cancel_timeout (cancel_retransmit t)"
  have t0: "busy t0" "live t0" "env_ok t0" "last_tx t0 = last_tx t"
    using busy live env by (simp_all add: t0_def live_def)
  have completed: "advance t (schedule_timeout (tsx_set_state u PJSIP_TSX_STATE_COMPLETED (Src_Rx msg)) d)"
    "advance t (schedule_timeout ((td_dec_ref (tsx_set_state u PJSIP_TSX_STATE_COMPLETED (Src_Rx msg)) x)\<lparr>last_tx := Some ack\<rparr>) d)"
    if "busy u" "env_ok u" "last_tx u \<noteq> None" for u d x ack
  proof -
    have s: "tsx_set_state u PJSIP_TSX_STATE_COMPLETED (Src_Rx msg) =
      u\<lparr>state := PJSIP_TSX_STATE_COMPLETED, log := state_log u PJSIP_TSX_STATE_COMPLETED (Src_Rx msg)\<rparr>"
      by (intro set_state_other) simp_all
    show "advance t (schedule_timeout (tsx_set_state u PJSIP_TSX_STATE_COMPLETED (Src_Rx msg)) d)"
      "advance t (schedule_timeout ((td_dec_ref (tsx_set_state u PJSIP_TSX_STATE_COMPLETED (Src_Rx msg)) x)\<lparr>last_tx := Some ack\<rparr>) d)"
      unfolding s using that le
      by (auto simp: advance_def tsx_inv_def live_def busy_def flags_ok_def schedule_timeout_def td_dec_ref_def env_ok_def)
  qed
  have lt_set: "last_tx (tsx_set_state u PJSIP_TSX_STATE_COMPLETED (Src_Rx msg)) = last_tx u" for u
    using set_state_other[of PJSIP_TSX_STATE_COMPLETED u] by simp
  show ?thesis
  proof (cases "tsx_method t0 = PJSIP_INVITE_METHOD")
    case False
    then show ?thesis using completed[OF t0(1,3)] t0(4) lt
      by (simp add: uac_final_response_def Let_def t0_def)
  next
    case True
    obtain ack where a: "create_ack t0 (last_tx t0) msg = Inr ack" using t0(3) by (metis env_ok_def)
    obtain t1 s where s: "tsx_send_msg t0 ack = (t1, s)" by fastforce
    note S = send_busy[OF t0(1-3) s]
    show ?thesis
    proof (cases "s = SIP_SUCCESS")
      case False
      then have "fst (uac_final_response t msg) = t1"
        using True a s by (simp add: uac_final_response_def Let_def t0_def)
      then show ?thesis using False S(1,4,5) live_le[OF live] by (simp add: advance_def)
    next
      case ok: True
      obtain x where x: "last_tx t1 = Some x" using coreD(4)[OF S(2)[OF ok]] t0(4) lt by auto
      show ?thesis using True a s ok x completed[OF S(3)[OF ok] S(1)]
        by (simp add: uac_final_response_def Let_def t0_def[symmetric] lt_set)
    qed
  qed
qed

lemma response_2xx_advance:
  assumes busy: "busy t" and live: "live t" and env: "env_ok t" and le: "state t \<le> PJSIP_TSX_STATE_COMPLETED" and lt: "last_tx t \<noteq> None"
  shows "advance t (uac_2xx_response t msg)"
proof (cases "tsx_method t = PJSIP_INVITE_METHOD")
  case True
  then show ?thesis using busy env live by (simp add: uac_2xx_response_def Let_def advance_terminated)
next
  case False
  have "busy (schedule_timeout (cancel_timeout t) d)" for d using busy by simp
  then show ?thesis using busy env lt le False
    by (auto simp: uac_2xx_response_def Let_def advance_def intro!: inv_set_state)
qed

text \<open>A response a peer may send, and a response a server transaction may be given to send.\<close>

definition code_ok :: "int \<Rightarrow> bool" where
  "code_ok c \<longleftrightarrow> 100 \<le> c \<and> c \<le> 699"

lemma in_class:
  "100 \<le> c \<Longrightarrow> PJSIP_IS_STATUS_IN_CLASS c 100 \<longleftrightarrow> c < 200"
  "100 \<le> c \<Longrightarrow> PJSIP_IS_STATUS_IN_CLASS c 200 \<longleftrightarrow> 200 \<le> c \<and> c < 300"
  by (auto simp: PJSIP_IS_STATUS_IN_CLASS_def cdiv_def)

text \<open>A response in the proceeding state, or just after the timers of the calling state were stopped.\<close>

lemma proceeding_rx_advance:
  assumes busy: "busy t" and live: "live t" and env: "env_ok t" and le: "state t \<le> PJSIP_TSX_STATE_PROCEEDING" and lt: "last_tx t \<noteq> None"
    and code: "code_ok (m_code msg)" and rsp: "m_type msg = PJSIP_RESPONSE_MSG"
    and tm: "m_code msg < 200 \<Longrightarrow> tsx_method t \<noteq> PJSIP_INVITE_METHOD \<Longrightarrow> timeout_timer t \<noteq> None"
  shows "advance t (fst (tsx_on_state_proceeding_uac t (PJSIP_EVENT_RX_MSG msg)))"
proof -
  define t0 where "t0 = tsx_set_status_code t (m_code msg) (Reason (m_reason msg))"
  have t0: "busy t0" "live t0" "env_ok t0" "last_tx t0 \<noteq> None" "state t0 = state t" "status_code t0 = m_code msg"
    "timeout_timer t0 = timeout_timer t" "tsx_method t0 = tsx_method t"
    using busy live env lt by (simp_all add: t0_def live_def)
  have le': "state t0 \<le> PJSIP_TSX_STATE_COMPLETED" using le t0(5) by (auto intro: order_trans)
  have adv: "advance t0 u \<Longrightarrow> advance t u" for u using t0(5) by (simp add: advance_def)
  consider "m_code msg < 200" | "200 \<le> m_code msg" "m_code msg < 300" | "300 \<le> m_code msg" by linarith
  then show ?thesis
  proof cases
    case 1
    then have "fst (tsx_on_state_proceeding_uac t (PJSIP_EVENT_RX_MSG msg)) = tsx_set_state t0 PJSIP_TSX_STATE_PROCEEDING (Src_Rx msg)"
      using code rsp t0(6) by (simp add: tsx_on_state_proceeding_uac_def in_class code_ok_def Let_def t0_def)
    then show ?thesis using t0 tm 1 le by (auto simp: advance_def intro!: inv_set_state)
  next
    case 2
    then have "fst (tsx_on_state_proceeding_uac t (PJSIP_EVENT_RX_MSG msg)) = uac_2xx_response t0 msg"
      using code rsp t0(6) by (simp add: tsx_on_state_proceeding_uac_def in_class code_ok_def Let_def t0_def)
    then show ?thesis using adv response_2xx_advance[OF t0(1-3) le' t0(4)] by simp
  next
    case 3
    then have "fst (tsx_on_state_proceeding_uac t (PJSIP_EVENT_RX_MSG msg)) = fst (uac_final_response t0 msg)"
      using code rsp t0(6) by (simp add: tsx_on_state_proceeding_uac_def in_class code_ok_def Let_def t0_def)
    then show ?thesis using adv final_response_advance[OF t0(1-3) le' t0(4)] by simp
  qed
qed

lemma calling_timers:
  "busy t \<Longrightarrow> busy (calling_rx_timers t c)" "state (calling_rx_timers t c) = state t"
  "tsx_method (calling_rx_timers t c) = tsx_method t" "last_tx (calling_rx_timers t c) = last_tx t"
  "env_ok (calling_rx_timers t c) = env_ok t"
  "c < 200 \<Longrightarrow> tsx_method t \<noteq> PJSIP_INVITE_METHOD \<Longrightarrow> timeout_timer (calling_rx_timers t c) = timeout_timer t"
  by (simp_all add: calling_rx_timers_def Let_def)

lemma calling_advance:
  assumes inv: "tsx_inv t" and env: "env_ok t" and st: "state t = PJSIP_TSX_STATE_CALLING"
    and code: "\<And>msg. event = PJSIP_EVENT_RX_MSG msg \<Longrightarrow> m_type msg = PJSIP_RESPONSE_MSG \<Longrightarrow> code_ok (m_code msg)"
  shows "advance t (fst (tsx_on_state_calling t event))"
proof -
  have live: "live t" and busy: "busy t" and lt: "last_tx t \<noteq> None" and tm: "timeout_timer t \<noteq> None"
    using st inv_busy[OF inv] inv by (simp_all add: live_def tsx_inv_def)
  show ?thesis
  proof (cases event)
    case (PJSIP_EVENT_TX_MSG d)
    then show ?thesis using inv env by (simp add: tsx_on_state_calling_def advance_refl)
  next
    case (PJSIP_EVENT_TIMER tm)
    then show ?thesis using retransmit_advance[OF inv live env, of True] st busy env live
      by (cases tm) (simp_all add: tsx_on_state_calling_def Let_def case_prod_beta advance_terminated)
  next
    case (PJSIP_EVENT_RX_MSG msg)
    show ?thesis
    proof (cases "m_type msg = PJSIP_RESPONSE_MSG")
      case True
      define t0 where "t0 = (calling_rx_timers t (m_code msg))\<lparr>has_pending_resched := False\<rparr>"
      have t0: "busy t0" "live t0" "env_ok t0" "state t0 = state t" "last_tx t0 \<noteq> None" "tsx_method t0 = tsx_method t"
        "m_code msg < 200 \<Longrightarrow> tsx_method t0 \<noteq> PJSIP_INVITE_METHOD \<Longrightarrow> timeout_timer t0 \<noteq> None"
        using busy live env lt tm by (simp_all add: t0_def calling_timers live_def)
      have "advance t0 (fst (tsx_on_state_proceeding_uac t0 event))"
        unfolding PJSIP_EVENT_RX_MSG
        using t0 st code[OF PJSIP_EVENT_RX_MSG True] True by (intro proceeding_rx_advance) simp_all
      then show ?thesis using True PJSIP_EVENT_RX_MSG t0(4)
        by (simp add: tsx_on_state_calling_def Let_def t0_def[symmetric] advance_def)
    next
      case False
      then show ?thesis using inv env PJSIP_EVENT_RX_MSG by (simp add: tsx_on_state_calling_def advance_refl)
    qed
  qed
qed

lemma proceeding_uac_advance:
  assumes inv: "tsx_inv t" and env: "env_ok t" and st: "state t = PJSIP_TSX_STATE_PROCEEDING" and r: "role t = PJSIP_ROLE_UAC"
    and code: "\<And>msg. event = PJSIP_EVENT_RX_MSG msg \<Longrightarrow> m_type msg = PJSIP_RESPONSE_MSG \<Longrightarrow> code_ok (m_code msg)"
  shows "advance t (fst (tsx_on_state_proceeding_uac t event))"
proof -
  have live: "live t" and busy: "busy t" and lt: "last_tx t \<noteq> None"
    and tm: "tsx_method t \<noteq> PJSIP_INVITE_METHOD \<Longrightarrow> timeout_timer t \<noteq> None"
    using st r inv_busy[OF inv] inv by (simp_all add: live_def tsx_inv_def)
  show ?thesis
  proof (cases event)
    case (PJSIP_EVENT_TX_MSG d)
    then show ?thesis using inv env by (simp add: tsx_on_state_proceeding_uac_def advance_refl)
  next
    case (PJSIP_EVENT_TIMER tm)
    then show ?thesis using retransmit_advance[OF inv live env, of True] st busy env live
      by (cases tm) (simp_all add: tsx_on_state_proceeding_uac_def Let_def advance_terminated)
  next
    case (PJSIP_EVENT_RX_MSG msg)
    then show ?thesis using inv env proceeding_rx_advance[OF busy live env _ lt code[OF PJSIP_EVENT_RX_MSG]] st tm
      by (cases "m_type msg = PJSIP_RESPONSE_MSG") (simp_all add: tsx_on_state_proceeding_uac_def advance_refl)
  qed
qed

text \<open>The responses of a server transaction.\<close>

lemma uas_tx_advance:
  assumes busy: "busy t" and live: "live t" and env: "env_ok t" and le: "state t \<le> PJSIP_TSX_STATE_PROCEEDING"
    and r: "role t = PJSIP_ROLE_UAS" and code: "m_type (td_msg d) = PJSIP_RESPONSE_MSG \<Longrightarrow> 100 \<le> m_code (td_msg d)"
  shows "m_type (td_msg d) = PJSIP_RESPONSE_MSG \<Longrightarrow> advance t (fst (tsx_on_state_proceeding_uas t (PJSIP_EVENT_TX_MSG d))) \<and>
     state (fst (tsx_on_state_proceeding_uas t (PJSIP_EVENT_TX_MSG d))) \<ge> PJSIP_TSX_STATE_PROCEEDING"
proof -
  assume rsp: "m_type (td_msg d) = PJSIP_RESPONSE_MSG"
  have c: "100 \<le> m_code (td_msg d)" using code rsp by simp
  define t0 where "t0 = drop_other_last_tx (tsx_set_status_code t (m_code (td_msg d)) (Reason (m_reason (td_msg d)))) d"
  have t0: "busy t0" "live t0" "env_ok t0" "state t0 = state t" "status_code t0 = m_code (td_msg d)"
    "role t0 = role t"
    using busy live env by (simp_all add: t0_def live_def)
  obtain t1 s where s: "tsx_send_msg t0 d = (t1, s)" by fastforce
  note S = send_busy[OF t0(1-3) s]
  have ge: "PJSIP_TSX_STATE_PROCEEDING \<le> PJSIP_TSX_STATE_COMPLETED" by simp
  have lec: "state t \<le> PJSIP_TSX_STATE_COMPLETED" using le ge by (rule order_trans)
  have ter: "PJSIP_TSX_STATE_PROCEEDING \<le> PJSIP_TSX_STATE_TERMINATED" by simp
  show ?thesis
  proof (cases "s = SIP_SUCCESS")
    case False
    then have "fst (tsx_on_state_proceeding_uas t (PJSIP_EVENT_TX_MSG d)) = t1"
      using rsp s by (simp add: tsx_on_state_proceeding_uas_def Let_def t0_def)
    then show ?thesis using False S(1,4,5) live_le[OF live] by (simp add: advance_def)
  next
    case True
    note C = coreD[OF S(2)[OF True]] and B = S(3)[OF True]
    have sc: "status_code t1 = m_code (td_msg d)" "role t1 = PJSIP_ROLE_UAS" using C t0 r by simp_all
    have e: "fst (tsx_on_state_proceeding_uas t (PJSIP_EVENT_TX_MSG d)) =
      (if m_code (td_msg d) < 200 then tsx_set_state (keep_last_tx t1 d) PJSIP_TSX_STATE_PROCEEDING (Src_Tx d)
       else if m_code (td_msg d) < 300 then uas_2xx_response t1 d else uas_final_response t1 d)"
      using rsp s True sc c by (auto simp: tsx_on_state_proceeding_uas_def Let_def t0_def in_class)
    have p: "advance t (tsx_set_state (keep_last_tx t1 d) PJSIP_TSX_STATE_PROCEEDING (Src_Tx d))"
      using B S(1) sc le by (auto simp: advance_def intro!: inv_set_state)
    have two: "advance t (uas_2xx_response t1 d) \<and> PJSIP_TSX_STATE_PROCEEDING \<le> state (uas_2xx_response t1 d)"
      using B S(1) live lec live_le[OF live]
      by (auto simp: uas_2xx_response_def Let_def advance_def intro!: inv_set_state split: option.splits prod.splits)
    have fin: "advance t (uas_final_response t1 d) \<and> PJSIP_TSX_STATE_PROCEEDING \<le> state (uas_final_response t1 d)"
      using B S(1) lec by (auto simp: uas_final_response_def Let_def advance_def intro!: inv_set_state)
    show ?thesis unfolding e using p two fin by simp
  qed
qed

lemma proceeding_uas_advance:
  assumes inv: "tsx_inv t" and env: "env_ok t" and st: "state t = PJSIP_TSX_STATE_PROCEEDING" and r: "role t = PJSIP_ROLE_UAS"
    and code: "\<And>d. event = PJSIP_EVENT_TX_MSG d \<Longrightarrow> m_type (td_msg d) = PJSIP_RESPONSE_MSG \<Longrightarrow> 100 \<le> m_code (td_msg d)"
  shows "advance t (fst (tsx_on_state_proceeding_uas t event))"
proof -
  have live: "live t" and busy: "busy t" using st inv_busy[OF inv] by (simp_all add: live_def)
  show ?thesis
  proof (cases event)
    case (PJSIP_EVENT_TX_MSG d)
    then show ?thesis using inv env uas_tx_advance[OF busy live env _ r code[OF PJSIP_EVENT_TX_MSG]] st
      by (cases "m_type (td_msg d) = PJSIP_RESPONSE_MSG") (simp_all add: tsx_on_state_proceeding_uas_def advance_refl)
  next
    case (PJSIP_EVENT_TIMER tm)
    then show ?thesis using retransmit_advance[OF inv live env, of True] st busy env live
      by (cases tm) (simp_all add: tsx_on_state_proceeding_uas_def Let_def case_prod_beta advance_terminated)
  next
    case (PJSIP_EVENT_RX_MSG msg)
    show ?thesis
    proof (cases "last_tx t")
      case None
      then show ?thesis using PJSIP_EVENT_RX_MSG inv env by (simp add: tsx_on_state_proceeding_uas_def advance_refl)
    next
      case (Some d)
      show ?thesis
      proof (cases "has_pending_transport t")
        case True
        have "tsx_inv (t\<lparr>has_pending_send := True\<rparr>)" using inv_core[OF inv _ _ live, of "t\<lparr>has_pending_send := True\<rparr>"] True st
          by (simp add: flags_ok_def)
        then show ?thesis using True PJSIP_EVENT_RX_MSG Some env
          by (simp add: tsx_on_state_proceeding_uas_def advance_def)
      next
        case False
        obtain t1 s where s: "tsx_send_msg t d = (t1, s)" by fastforce
        have nn: "state t \<noteq> PJSIP_TSX_STATE_NULL" using st by simp
        note S = send_msg_live[OF inv live env s nn]
        have "state t \<le> state t1"
          using coreD(1)[OF S(3)] S(5) live_le[OF live] by (cases "s = SIP_SUCCESS") (simp_all add: send_failed_def)
        then show ?thesis using False PJSIP_EVENT_RX_MSG Some s S(1,2)
          by (simp add: tsx_on_state_proceeding_uas_def advance_def)
      qed
    qed
  qed
qed

lemma trying_advance:
  assumes inv: "tsx_inv t" and env: "env_ok t" and st: "state t = PJSIP_TSX_STATE_TRYING"
    and code: "\<And>d. event = PJSIP_EVENT_TX_MSG d \<Longrightarrow> m_type (td_msg d) = PJSIP_RESPONSE_MSG \<Longrightarrow> 100 \<le> m_code (td_msg d)"
  shows "advance t (fst (tsx_on_state_trying t event))"
proof -
  have live: "live t" and busy: "busy t" and r: "role t = PJSIP_ROLE_UAS"
    using st inv_busy[OF inv] inv by (simp_all add: live_def tsx_inv_def)
  show ?thesis
  proof (cases "\<exists>d. event = PJSIP_EVENT_TX_MSG d \<and> m_type (td_msg d) = PJSIP_RESPONSE_MSG")
    case True
    then obtain d where d: "event = PJSIP_EVENT_TX_MSG d" "m_type (td_msg d) = PJSIP_RESPONSE_MSG" by blast
    obtain t1 s where s: "tsx_on_state_proceeding_uas t event = (t1, s)" by fastforce
    have "advance t t1" "state t1 \<noteq> PJSIP_TSX_STATE_TRYING"
      using uas_tx_advance[OF busy live env _ r code[OF d(1)] d(2)] st s d(1) by (auto simp: less_eq_tsx_state_def)
    then show ?thesis using s d by (simp add: tsx_on_state_trying_def)
  next
    case False
    then show ?thesis using inv env st advance_refl[OF inv env]
      by (auto simp: tsx_on_state_trying_def tsx_on_state_proceeding_uas_def split: tsx_event.split)
  qed
qed

lemma completed_uas_advance:
  assumes inv: "tsx_inv t" and env: "env_ok t" and st: "state t = PJSIP_TSX_STATE_COMPLETED" and r: "role t = PJSIP_ROLE_UAS"
  shows "advance t (fst (tsx_on_state_completed_uas t event))"
proof -
  have live: "live t" and busy: "busy t" using st inv_busy[OF inv] by (simp_all add: live_def)
  note R = retransmit_advance[OF inv live env]
  show ?thesis
  proof (cases event)
    case (PJSIP_EVENT_TX_MSG d)
    then show ?thesis using inv env by (simp add: tsx_on_state_completed_uas_def advance_refl)
  next
    case (PJSIP_EVENT_TIMER tm)
    then show ?thesis using R[of True] st busy env live
      by (cases tm) (simp_all add: tsx_on_state_completed_uas_def Let_def case_prod_beta advance_terminated)
  next
    case (PJSIP_EVENT_RX_MSG msg)
    define u where "u = schedule_timeout (cancel_timeout ((cancel_retransmit t)\<lparr>has_pending_resched := False\<rparr>)) t4_timer_val"
    have "busy u" "timeout_timer u \<noteq> None" "role u = PJSIP_ROLE_UAS" "env_ok u"
      using busy r env by (simp_all add: u_def)
    then have "advance t (tsx_set_state u PJSIP_TSX_STATE_CONFIRMED (Src_Rx msg))"
      using st by (auto simp: advance_def intro!: inv_set_state)
    then show ?thesis using PJSIP_EVENT_RX_MSG R[of False] st advance_refl[OF inv env]
      by (simp add: tsx_on_state_completed_uas_def Let_def case_prod_beta u_def)
  qed
qed

lemma completed_uac_advance:
  assumes inv: "tsx_inv t" and env: "env_ok t" and st: "state t = PJSIP_TSX_STATE_COMPLETED"
  shows "advance t (fst (tsx_on_state_completed_uac t event))"
proof -
  have live: "live t" and busy: "busy t" using st inv_busy[OF inv] by (simp_all add: live_def)
  show ?thesis
    using retransmit_advance[OF inv live env, of False] st advance_refl[OF inv env] advance_terminated[OF busy env live]
    by (cases event) (simp_all add: tsx_on_state_completed_uac_def case_prod_beta)
qed

lemma confirmed_advance:
  assumes inv: "tsx_inv t" and env: "env_ok t" and st: "state t = PJSIP_TSX_STATE_CONFIRMED"
  shows "advance t (fst (tsx_on_state_confirmed t event))"
proof -
  have live: "live t" and busy: "busy t" using st inv_busy[OF inv] by (simp_all add: live_def)
  show ?thesis
    using advance_refl[OF inv env] advance_terminated[OF busy env live]
    by (cases event) (simp_all add: tsx_on_state_confirmed_def)
qed

text \<open>
  The events a transaction can meet: a peer's responses have codes from 100 to 699; a server
  transaction starts with the request it received and is given responses with codes of at least 100.
\<close>

definition event_ok :: "tsx \<Rightarrow> tsx_event \<Rightarrow> bool" where
  "event_ok t event \<longleftrightarrow>
     (case event of
        PJSIP_EVENT_TX_MSG d \<Rightarrow> role t = PJSIP_ROLE_UAS \<longrightarrow>
          state t \<noteq> PJSIP_TSX_STATE_NULL \<and> (m_type (td_msg d) = PJSIP_RESPONSE_MSG \<longrightarrow> 100 \<le> m_code (td_msg d))
      | PJSIP_EVENT_RX_MSG msg \<Rightarrow>
          role t = PJSIP_ROLE_UAC \<longrightarrow> m_type msg = PJSIP_RESPONSE_MSG \<longrightarrow> code_ok (m_code msg)
      | PJSIP_EVENT_TIMER _ \<Rightarrow> state t \<noteq> PJSIP_TSX_STATE_NULL)"

lemma handler_advance:
  assumes inv: "tsx_inv t" and env: "env_ok t" and ok: "event_ok t event"
  shows "advance t (fst (state_handler t event))"
proof (cases "state t")
  case PJSIP_TSX_STATE_NULL
  then have "role t = PJSIP_ROLE_UAS \<Longrightarrow> \<exists>msg. event = PJSIP_EVENT_RX_MSG msg"
    using ok by (cases event) (simp_all add: event_ok_def)
  then show ?thesis using null_advance[OF inv env PJSIP_TSX_STATE_NULL] PJSIP_TSX_STATE_NULL by (simp add: state_handler_def)
next
  case PJSIP_TSX_STATE_CALLING
  then have r: "role t = PJSIP_ROLE_UAC" using inv by (simp add: tsx_inv_def)
  then show ?thesis using calling_advance[OF inv env PJSIP_TSX_STATE_CALLING, of event] PJSIP_TSX_STATE_CALLING ok
    by (cases event) (simp_all add: state_handler_def event_ok_def)
next
  case PJSIP_TSX_STATE_TRYING
  then have r: "role t = PJSIP_ROLE_UAS" using inv by (simp add: tsx_inv_def)
  then show ?thesis using trying_advance[OF inv env PJSIP_TSX_STATE_TRYING, of event] PJSIP_TSX_STATE_TRYING ok
    by (cases event) (simp_all add: state_handler_def event_ok_def)
next
  case PJSIP_TSX_STATE_PROCEEDING
  then show ?thesis
    using proceeding_uac_advance[OF inv env PJSIP_TSX_STATE_PROCEEDING, of event]
      proceeding_uas_advance[OF inv env PJSIP_TSX_STATE_PROCEEDING, of event] ok
    by (cases "role t"; cases event) (simp_all add: state_handler_def event_ok_def)
next
  case PJSIP_TSX_STATE_COMPLETED
  then show ?thesis
    using completed_uac_advance[OF inv env PJSIP_TSX_STATE_COMPLETED, of event]
      completed_uas_advance[OF inv env PJSIP_TSX_STATE_COMPLETED, of event]
    by (cases "role t") (simp_all add: state_handler_def)
next
  case PJSIP_TSX_STATE_CONFIRMED
  then show ?thesis using confirmed_advance[OF inv env PJSIP_TSX_STATE_CONFIRMED, of event] by (simp add: state_handler_def)
next
  case PJSIP_TSX_STATE_TERMINATED
  then show ?thesis using env by (simp add: state_handler_def tsx_on_state_terminated_def advance_destroyed)
next
  case PJSIP_TSX_STATE_DESTROYED
  then show ?thesis using advance_refl[OF inv env] by (simp add: state_handler_def tsx_on_state_destroyed_def)
qed

lemma timer_advance:
  assumes inv: "tsx_inv t" and env: "env_ok t"
    and pend: "case timer of Retransmit_Timer \<Rightarrow> retransmit_timer t \<noteq> None | Timeout_Timer \<Rightarrow> timeout_timer t \<noteq> None"
  shows "advance t (tsx_timer_callback t timer)"
proof (cases timer)
  case Retransmit_Timer
  define u where "u = t\<lparr>retransmit_timer := None\<rparr>"
  have u: "tsx_inv u" "env_ok u" "state u = state t"
    using inv env pend Retransmit_Timer by (auto simp: u_def tsx_inv_def live_def flags_ok_def)
  have "event_ok u (PJSIP_EVENT_TIMER timer)"
    using tsx_invD(6)[OF inv] pend u(3) Retransmit_Timer by (auto simp: event_ok_def)
  from handler_advance[OF u(1,2) this] show ?thesis
    using Retransmit_Timer u(3) by (simp add: tsx_timer_callback_def u_def advance_def)
next
  case Timeout_Timer
  define u where "u = t\<lparr>timeout_timer := None\<rparr>"
  have e: "tsx_timer_callback t timer = fst (state_handler u (PJSIP_EVENT_TIMER Timeout_Timer))"
    using Timeout_Timer by (simp add: tsx_timer_callback_def u_def)
  have u: "state u = state t" "role u = role t" "env_ok u" "live t \<Longrightarrow> busy u" "live t \<Longrightarrow> live u"
    using env inv_busy[OF inv] by (simp_all add: u_def live_def)
  have adv: "advance u v \<Longrightarrow> advance t v" for v using u(1) by (simp add: advance_def)
  note D = tsx_on_state_calling_def tsx_on_state_proceeding_uac_def tsx_on_state_proceeding_uas_def
    tsx_on_state_completed_uac_def tsx_on_state_completed_uas_def tsx_on_state_confirmed_def
  show ?thesis
  proof (cases "state t")
    case PJSIP_TSX_STATE_NULL
    then show ?thesis using tsx_invD(5)[OF inv] pend Timeout_Timer by simp
  next
    case PJSIP_TSX_STATE_TRYING
    then have "tsx_inv u" "role t = PJSIP_ROLE_UAS" using inv by (auto simp: u_def tsx_inv_def live_def flags_ok_def)
    then show ?thesis unfolding e using PJSIP_TSX_STATE_TRYING u
      by (simp add: state_handler_def tsx_on_state_trying_def advance_def)
  next
    case PJSIP_TSX_STATE_TERMINATED
    then show ?thesis unfolding e using u by (simp add: state_handler_def tsx_on_state_terminated_def advance_destroyed env)
  next
    case PJSIP_TSX_STATE_DESTROYED
    then show ?thesis using inv pend Timeout_Timer by (simp add: tsx_inv_def)
  next
    case PJSIP_TSX_STATE_CALLING
    then show ?thesis unfolding e using u inv
      by (intro adv) (simp add: state_handler_def D Let_def advance_terminated live_def tsx_inv_def)
  next
    case PJSIP_TSX_STATE_PROCEEDING
    then show ?thesis unfolding e using u
      by (intro adv) (simp add: state_handler_def D Let_def advance_terminated live_def)
  next
    case PJSIP_TSX_STATE_COMPLETED
    then show ?thesis unfolding e using u
      by (intro adv) (simp add: state_handler_def D Let_def advance_terminated live_def)
  next
    case PJSIP_TSX_STATE_CONFIRMED
    then show ?thesis unfolding e using u
      by (intro adv) (simp add: state_handler_def D Let_def advance_terminated live_def)
  qed
qed

text \<open>A send with a transport at hand, after the server has been resolved.\<close>

lemma send_resolved:
  assumes np: "\<not> has_pending_transport t" and tp: "transport t = Some tp" and r: "has_resolved_server t"
    and s: "tsx_send_msg t d = (t', st)"
  shows "(core t' = core t \<or> send_failed t t') \<and> rs_results t' = rs_results t \<and> create_ack t' = create_ack t \<and>
     \<not> has_pending_transport t' \<and> has_pending_send t' = has_pending_send t \<and> has_pending_resched t' = has_pending_resched t"
proof -
  obtain n where "tsx_send_msg t d = tsx_send_msg_depth n t d" by (simp add: tsx_send_msg_def)
  then obtain run where run: "tsx_send_msg_with run t d = (t', st)"
    using s by (cases n) auto
  obtain t1 x where x: "transport_send t tp d = (t1, x)" by fastforce
  note X = send_direct[OF x]
  show ?thesis
  proof (cases "x = 0")
    case True
    then show ?thesis using run np tp x X coreD(14)[OF X(1)] by (auto simp: tsx_send_msg_with_def Let_def)
  next
    case False
    define t2 where "t2 = (release_transport t1)\<lparr>addr := None, res_transport := None\<rparr>"
    have c: "core t2 = core t" "\<not> has_pending_transport t2" using X np by (simp_all add: t2_def)
    have "t' = tsx_set_state (tsx_set_status_code t2 PJSIP_SC_TSX_TRANSPORT_ERROR (Error_Text (SIP_ERR x)))
        PJSIP_TSX_STATE_TERMINATED (Src_Transport_Error None)"
      using run np tp x X r False by (auto simp: tsx_send_msg_with_def Let_def t2_def)
    then show ?thesis
      using terminate_failed[OF c(2)] send_failed_core[OF c(1)] X coreD(14)[OF c(1)] c(2)
      by (simp add: tsx_set_status_code_def t2_def)
  qed
qed

lemma inv_same:
  assumes "tsx_inv t" "core t' = core t" "has_pending_transport t' = has_pending_transport t"
    "has_pending_send t' = has_pending_send t" "has_pending_resched t' = has_pending_resched t"
  shows "tsx_inv t'"
  using assms(1,3-5) coreD[OF assms(2)] by (simp add: tsx_inv_def live_def flags_ok_def)

text \<open>What the callback does after a success, when the transaction is not to be destroyed.\<close>

lemma resume_inv:
  assumes inv: "tsx_inv t" and env: "env_ok t" and live: "live t" and nn: "state t \<noteq> PJSIP_TSX_STATE_NULL"
    and c: "core t1 = core t" "rs_results t1 = rs_results t"
    and t1: "\<not> has_pending_transport t1" "transport t1 = Some tp" "has_resolved_server t1"
  shows "advance t (resume_pending tsx_send_msg t1)"
proof -
  define t2 where "t2 = (if has_pending_send t1 then
      let t = t1\<lparr>has_pending_send := False\<rparr> in case last_tx t of None \<Rightarrow> t | Some x \<Rightarrow> fst (tsx_send_msg t x) else t1)"
  have t2: "(core t2 = core t \<or> send_failed t t2) \<and> rs_results t2 = rs_results t \<and> create_ack t2 = create_ack t \<and>
    \<not> has_pending_transport t2 \<and> \<not> has_pending_send t2"
  proof (cases "has_pending_send t1 \<and> last_tx t1 \<noteq> None")
    case True
    then obtain x where x: "last_tx t1 = Some x" by auto
    define u where "u = t1\<lparr>has_pending_send := False\<rparr>"
    have u: "core u = core t" "\<not> has_pending_transport u" "transport u = Some tp" "has_resolved_server u"
      "\<not> has_pending_send u" "rs_results u = rs_results t" using t1 c by (simp_all add: u_def)
    obtain v s where v: "tsx_send_msg u x = (v, s)" by fastforce
    have "t2 = v" using True x v by (simp add: t2_def u_def)
    then show ?thesis using send_resolved[OF u(2-4) v] u coreD(14)[OF u(1)] send_failed_core[OF u(1)] by auto
  next
    case False
    then have "t2 = t1 \<and> \<not> has_pending_send t1 \<or> t2 = t1\<lparr>has_pending_send := False\<rparr>" by (auto simp: t2_def Let_def)
    then show ?thesis using t1 c coreD(14)[OF c(1)] by auto
  qed
  define t3 where "t3 = (if has_pending_resched t2 then
      let t = t2\<lparr>has_pending_resched := False\<rparr> in if \<not> is_reliable t then tsx_resched_retransmission t else t
     else t2)"
  have e: "resume_pending tsx_send_msg t1 = t3"
    unfolding resume_pending_def t2_def[symmetric] t3_def by (simp add: Let_def)
  have f: "state t3 = state t2" "timeout_timer t3 = timeout_timer t2" "last_tx t3 = last_tx t2" "tsx_method t3 = tsx_method t2"
    "role t3 = role t2" "registered t3 = registered t2" "alive t3 = alive t2" "has_pending_destroy t3 = has_pending_destroy t2"
    "rs_results t3 = rs_results t2" "create_ack t3 = create_ack t2" "has_pending_transport t3 = has_pending_transport t2"
    "has_pending_send t3 = has_pending_send t2" "\<not> has_pending_resched t3"
    by (simp_all add: t3_def Let_def tsx_resched_retransmission_def schedule_retransmit_def)
  have "env_ok t3" using t2 f(9,10) env by (simp add: env_ok_def)
  moreover have "tsx_inv t3 \<and> state t \<le> state t3"
  proof (cases "core t2 = core t")
    case True
    show ?thesis using inv live nn coreD[OF True] f t2 by (simp add: tsx_inv_def live_def flags_ok_def)
  next
    case False
    then show ?thesis using t2 f live tsx_invD(1,2)[OF inv live] by (auto simp: send_failed_def tsx_inv_def live_def)
  qed
  ultimately show ?thesis unfolding e by (simp add: advance_def)
qed

lemma callback_advance:
  assumes inv: "tsx_inv t" and env: "env_ok t" and pend: "has_pending_transport t" and alive: "alive t"
    and r: "retry_call r \<or> final_call r" and fin: "sr_sent r < 0 \<Longrightarrow> \<not> sr_cont r \<Longrightarrow> live t"
  shows "advance t (send_msg_callback t d r)"
proof -
  have nn: "state t \<noteq> PJSIP_TSX_STATE_NULL" using inv pend by (auto simp: tsx_inv_def)
  consider "retry_call r" | tp where "0 < sr_sent r" "sr_transport r = Some tp" | "sr_sent r < 0" "\<not> sr_cont r"
    using r by (auto simp: final_call_def)
  then show ?thesis
  proof cases
    case 1
    note R = callback_retry[OF 1, of tsx_send_msg t d]
    show ?thesis using inv_same[OF inv R(1,3-5)] R(2) coreD(1,14)[OF R(1)] env
      by (simp add: advance_def send_msg_callback_def env_ok_def)
  next
    case 3
    note R = callback_failed[OF 3 fin[OF 3], of tsx_send_msg d]
    show ?thesis using R inv_send_failed[OF alive _ R(1)] tsx_invD(2)[OF inv fin[OF 3]] env live_le[OF fin[OF 3]]
      by (simp add: advance_def send_msg_callback_def env_ok_def send_failed_def)
  next
    case 2
    define t1 where "t1 = (adopt_transport t r)\<lparr>has_pending_transport := False, has_resolved_server := True\<rparr>"
    have t1: "core t1 = core t" "rs_results t1 = rs_results t" "\<not> has_pending_transport t1" "transport t1 = Some tp" "has_resolved_server t1"
      using 2(2) by (simp_all add: t1_def adopt_core)
    have e: "send_msg_callback t d r = (if has_pending_destroy t then tsx_set_state t1 PJSIP_TSX_STATE_DESTROYED Src_Unknown
        else resume_pending tsx_send_msg t1)"
      using 2(1) coreD(12)[OF t1(1)] by (simp add: send_msg_callback_def send_msg_callback_with_def Let_def t1_def[symmetric])
    show ?thesis
    proof (cases "has_pending_destroy t")
      case True
      have "env_ok t1" using env t1(2) coreD(14)[OF t1(1)] by (simp add: env_ok_def)
      then show ?thesis unfolding e using True env by (simp add: advance_destroyed)
    next
      case False
      then have "live t" using inv pend alive by (auto simp: tsx_inv_def live_def)
      from resume_inv[OF inv env this nn t1] show ?thesis unfolding e using False by simp
    qed
  qed
qed

section \<open>Runs of a transaction\<close>

lemma send_advance:
  assumes inv: "tsx_inv t" and env: "env_ok t"
    and ok: "\<And>d. (case tdata of None \<Rightarrow> last_tx t | Some d \<Rightarrow> Some d) = Some d \<Longrightarrow> event_ok t (PJSIP_EVENT_TX_MSG d)"
  shows "advance t (fst (pjsip_tsx_send_msg t tdata))"
proof (cases "case tdata of None \<Rightarrow> last_tx t | Some d \<Rightarrow> Some d")
  case None
  then show ?thesis using advance_refl[OF inv env] by (simp add: pjsip_tsx_send_msg_def)
next
  case (Some d)
  obtain u s where u: "state_handler t (PJSIP_EVENT_TX_MSG d) = (u, s)" by fastforce
  have a: "advance t u" using handler_advance[OF inv env ok[OF Some]] u by simp
  have "tsx_inv (td_dec_ref u d)" using a inv_same[of u "td_dec_ref u d"] by (simp add: advance_def)
  then show ?thesis using a Some u by (simp add: pjsip_tsx_send_msg_def advance_def)
qed

lemma terminate_advance:
  assumes "tsx_inv t" "env_ok t" "state t \<noteq> PJSIP_TSX_STATE_DESTROYED"
  shows "advance t (fst (pjsip_tsx_terminate t code))"
proof -
  have "alive t" "registered t" using assms(1,3) by (auto simp: tsx_inv_def live_def)
  then have "tsx_inv (tsx_set_state (tsx_set_status_code t code reason) PJSIP_TSX_STATE_TERMINATED Src_User)" for reason
    by (intro inv_terminated) (simp_all add: tsx_set_status_code_def)
  then show ?thesis using assms by (simp add: pjsip_tsx_terminate_def advance_def)
qed

lemma transport_callback_advance:
  assumes "tsx_inv t" "env_ok t" "state t \<noteq> PJSIP_TSX_STATE_DESTROYED"
  shows "advance t (transport_callback t d sent)"
proof -
  define u where "u = tsx_set_status_code (release_transport (t\<lparr>transport_err := - sent\<rparr>)) PJSIP_SC_TSX_TRANSPORT_ERROR
      (Error_Text (SIP_ERR (- sent)))"
  have "alive u" "registered u" "env_ok u"
    using assms by (auto simp: u_def tsx_inv_def live_def tsx_set_status_code_def release_transport_def env_ok_def
        split: option.split)
  then show ?thesis using assms inv_terminated[of u]
    by (simp add: transport_callback_def Let_def u_def[symmetric] advance_def)
qed

text \<open>
  One step: a call of the transaction user, a message from the network, a timer that runs out, or a
  report of the transport layer; the results of future sends are chosen by the network at any time. The report of a definite
  failure to a transaction that has already terminated is excluded here; see
  \<open>tsx_leak_on_late_failure\<close> for what it does.
\<close>

inductive tsx_step :: "tsx \<Rightarrow> tsx \<Rightarrow> bool" where
  user_send: "(\<And>d. (case tdata of None \<Rightarrow> last_tx t | Some d \<Rightarrow> Some d) = Some d \<Longrightarrow> event_ok t (PJSIP_EVENT_TX_MSG d))
    \<Longrightarrow> tsx_step t (fst (pjsip_tsx_send_msg t tdata))"
| receive: "event_ok t (PJSIP_EVENT_RX_MSG msg) \<Longrightarrow> tsx_step t (pjsip_tsx_recv_msg t msg)"
| retransmit: "retransmit_timer t \<noteq> None \<Longrightarrow> tsx_step t (tsx_timer_callback t Retransmit_Timer)"
| timeout: "timeout_timer t \<noteq> None \<Longrightarrow> tsx_step t (tsx_timer_callback t Timeout_Timer)"
| user_terminate: "state t \<noteq> PJSIP_TSX_STATE_DESTROYED \<Longrightarrow> tsx_step t (fst (pjsip_tsx_terminate t code))"
| sent: "has_pending_transport t \<Longrightarrow> alive t \<Longrightarrow> retry_call r \<or> final_call r \<Longrightarrow>
    (sr_sent r < 0 \<Longrightarrow> \<not> sr_cont r \<Longrightarrow> live t) \<Longrightarrow> tsx_step t (send_msg_callback t d r)"
| transport_report: "state t \<noteq> PJSIP_TSX_STATE_DESTROYED \<Longrightarrow> tsx_step t (transport_callback t d code)"
| network: "env_ok (t\<lparr>tp_results := ts, rs_results := rs, create_ack := f\<rparr>) \<Longrightarrow>
    tsx_step t (t\<lparr>tp_results := ts, rs_results := rs, create_ack := f\<rparr>)"

text \<open>A transaction as it is created and registered.\<close>

definition tsx_init :: "tsx \<Rightarrow> bool" where
  "tsx_init t \<longleftrightarrow> state t = PJSIP_TSX_STATE_NULL \<and> alive t \<and> registered t \<and> \<not> has_pending_destroy t \<and>
     \<not> has_pending_transport t \<and> \<not> has_pending_send t \<and> \<not> has_pending_resched t \<and>
     timeout_timer t = None \<and> retransmit_timer t = None \<and> env_ok t"

inductive tsx_reachable :: "tsx \<Rightarrow> bool" where
  start: "tsx_init t \<Longrightarrow> tsx_reachable t"
| step: "tsx_reachable t \<Longrightarrow> tsx_step t t' \<Longrightarrow> tsx_reachable t'"

lemma step_advance:
  assumes "tsx_step t t'" "tsx_inv t" "env_ok t"
  shows "advance t t'"
  using assms
proof (cases rule: tsx_step.cases)
  case (user_send tdata)
  then show ?thesis using send_advance[OF assms(2,3)] by blast
next
  case (receive msg)
  then show ?thesis using handler_advance[OF assms(2,3)] by (simp add: pjsip_tsx_recv_msg_def)
next
  case retransmit
  then show ?thesis using timer_advance[OF assms(2,3), of Retransmit_Timer] by simp
next
  case timeout
  then show ?thesis using timer_advance[OF assms(2,3), of Timeout_Timer] by simp
next
  case (user_terminate code)
  then show ?thesis using terminate_advance[OF assms(2,3)] by simp
next
  case (sent r d)
  then show ?thesis using callback_advance[OF assms(2,3)] by blast
next
  case (transport_report d code)
  then show ?thesis using transport_callback_advance[OF assms(2,3)] by simp
next
  case (network ts rs f)
  then show ?thesis using assms(2) by (simp add: advance_def tsx_inv_def live_def flags_ok_def)
qed

lemma reachable_inv: "tsx_reachable t \<Longrightarrow> tsx_inv t \<and> env_ok t"
proof (induction rule: tsx_reachable.induct)
  case (start t)
  then show ?case by (simp add: tsx_init_def tsx_inv_def live_def flags_ok_def)
next
  case (step t t')
  then show ?case using step_advance[of t t'] by (simp add: advance_def)
qed

end
