(* ===== verification/Tsx_Behaviour.thy ===== *)
theory Tsx_Behaviour
  imports Tsx_Invariant
begin

text \<open>
  The behaviour of a transaction: the timers end it, 2xx and other final responses to INVITE,
  retransmission of requests and responses, and two defects of the code.
\<close>

section \<open>Sending on a transport\<close>

text \<open>The transport is known and takes the next message.\<close>

definition sends_on :: "tsx \<Rightarrow> transport \<Rightarrow> bool" where
  "sends_on t tp \<longleftrightarrow> transport t = Some tp \<and> \<not> has_pending_transport t \<and> (tp_results t = [] \<or> hd (tp_results t) = 0)"

definition sent_msg :: "tsx \<Rightarrow> transport \<Rightarrow> tx_data \<Rightarrow> tsx" where
  "sent_msg t tp d = t\<lparr>log := log t @ [Out_Send (tp_id tp) d], tp_results := tl (tp_results t)\<rparr>"

lemma send_on: "sends_on t tp \<Longrightarrow> tsx_send_msg t d = (sent_msg t tp d, SIP_SUCCESS)"
proof -
  assume s: "sends_on t tp"
  obtain n where n: "tsx_send_msg t d = tsx_send_msg_depth n t d" by (simp add: tsx_send_msg_def)
  have "tsx_send_msg_with run t d = (sent_msg t tp d, SIP_SUCCESS)" for run
    using s by (cases "tp_results t")
      (auto simp: sends_on_def tsx_send_msg_with_def transport_send_def emit_def sent_msg_def Let_def)
  then show ?thesis using n by (cases n) simp_all
qed

lemma sent_msg_fields [simp]:
  "state (sent_msg t tp d) = state t" "last_tx (sent_msg t tp d) = last_tx t" "tsx_method (sent_msg t tp d) = tsx_method t"
  "role (sent_msg t tp d) = role t" "tsx_user (sent_msg t tp d) = tsx_user t" "is_reliable (sent_msg t tp d) = is_reliable t"
  "transport (sent_msg t tp d) = transport t" "has_pending_transport (sent_msg t tp d) = has_pending_transport t"
  "timeout_timer (sent_msg t tp d) = timeout_timer t" "retransmit_timer (sent_msg t tp d) = retransmit_timer t"
  "retransmit_count (sent_msg t tp d) = retransmit_count t" "status_code (sent_msg t tp d) = status_code t"
  "log (sent_msg t tp d) = log t @ [Out_Send (tp_id tp) d]"
  by (simp_all add: sent_msg_def)

section \<open>Properties\<close>


definition sample_request :: tx_data where
  "sample_request = \<lparr>td_id = 1, td_msg = \<lparr>m_type = PJSIP_REQUEST_MSG, m_method = PJSIP_INVITE_METHOD, m_code = 0,
     m_reason = [], m_cseq_method = PJSIP_INVITE_METHOD\<rparr>\<rparr>"

definition sample_ack :: tx_data where
  "sample_ack = \<lparr>td_id = 2, td_msg = \<lparr>m_type = PJSIP_REQUEST_MSG, m_method = PJSIP_ACK_METHOD, m_code = 0,
     m_reason = [], m_cseq_method = PJSIP_ACK_METHOD\<rparr>\<rparr>"

definition sample_response :: "int \<Rightarrow> sip_msg" where
  "sample_response c = \<lparr>m_type = PJSIP_RESPONSE_MSG, m_method = PJSIP_OTHER_METHOD, m_code = c,
     m_reason = ''OK'', m_cseq_method = PJSIP_INVITE_METHOD\<rparr>"

definition sample_tp :: transport where
  "sample_tp = \<lparr>tp_id = 7, tp_reliable = False\<rparr>"

text \<open>A client transaction that has been created and has its transport.\<close>

definition sample_uac :: tsx where
  "sample_uac = (tsx_create True)\<lparr>registered := True, create_ack := (\<lambda>_ _. Inr sample_ack), last_tx := Some sample_request,
     transport := Some sample_tp\<rparr>"

definition sample_calling :: tsx where
  "sample_calling = fst (pjsip_tsx_send_msg sample_uac (Some sample_request))"


lemma sample_uac_sends: "sends_on sample_uac sample_tp"
  by (simp add: sends_on_def sample_uac_def tsx_create_def)



lemma sample_uac_fields [simp]:
  "state sample_uac = PJSIP_TSX_STATE_NULL" "role sample_uac = PJSIP_ROLE_UAC" "tsx_method sample_uac = PJSIP_INVITE_METHOD"
  "last_tx sample_uac = Some sample_request" "is_reliable sample_uac = False" "has_pending_transport sample_uac = False"
  "timeout_timer sample_uac = None" "retransmit_timer sample_uac = None" "status_code sample_uac = 0"
  "retransmit_count sample_uac = 0" "log sample_uac = []" "tsx_user sample_uac = True" "transport sample_uac = Some sample_tp"
  "tp_results sample_uac = []" "rs_results sample_uac = []" "alive sample_uac = True" "registered sample_uac = True"
  "create_ack sample_uac = (\<lambda>_ _. Inr sample_ack)"
  by (simp_all add: sample_uac_def tsx_create_def)

lemma sample_keep: "keep_last_tx (drop_other_last_tx sample_uac sample_request) sample_request = sample_uac"
  by (simp add: keep_last_tx_def drop_other_last_tx_def)

lemma sample_calling_eq:
  "sample_calling = (td_dec_ref (tsx_set_state (schedule_retransmit
     ((schedule_timeout (sent_msg sample_uac sample_tp sample_request) timeout_timer_val)\<lparr>retransmit_count := 0\<rparr>) t1_timer_val)
     PJSIP_TSX_STATE_CALLING (Src_Tx sample_request)) sample_request)"
  by (simp add: sample_calling_def pjsip_tsx_send_msg_def state_handler_def tsx_on_state_null_def sample_keep
      send_on[OF sample_uac_sends] start_retransmit_def schedule_timeout_def Let_def)

lemma sample_calling_fields [simp]:
  "state sample_calling = PJSIP_TSX_STATE_CALLING" "role sample_calling = PJSIP_ROLE_UAC"
  "tsx_method sample_calling = PJSIP_INVITE_METHOD" "last_tx sample_calling = Some sample_request"
  "has_pending_transport sample_calling = False" "timeout_timer sample_calling = Some timeout_timer_val"
  "retransmit_timer sample_calling = Some t1_timer_val" "retransmit_count sample_calling = 0"
  "status_code sample_calling = 0" "tsx_user sample_calling = True" "transport sample_calling = Some sample_tp"
  "tp_results sample_calling = []" "create_ack sample_calling = (\<lambda>_ _. Inr sample_ack)" "is_reliable sample_calling = False"
  by (simp_all add: sample_calling_eq set_state_other td_dec_ref_def schedule_retransmit_def schedule_timeout_def sent_msg_def)




lemma log_set_state:
  "log (tsx_set_state t PJSIP_TSX_STATE_TERMINATED src) = state_log t PJSIP_TSX_STATE_TERMINATED src"
  by (simp add: set_state_terminated Let_def)

lemma helper_log [simp]:
  "log (cancel_timeout t) = log t" "log (cancel_retransmit t) = log t" "log (schedule_timeout t d) = log t"
  "log (schedule_retransmit t d) = log t" "log (tsx_set_status_code t c r) = log t"
  "tsx_user (cancel_timeout t) = tsx_user t" "tsx_user (cancel_retransmit t) = tsx_user t"
  "tsx_user (schedule_timeout t d) = tsx_user t" "tsx_user (schedule_retransmit t d) = tsx_user t"
  "tsx_user (tsx_set_status_code t c r) = tsx_user t"
  "status_code (cancel_timeout t) = status_code t" "has_pending_transport (cancel_timeout t) = has_pending_transport t"
  "has_pending_transport (cancel_retransmit t) = has_pending_transport t"
  "has_pending_transport (tsx_set_status_code t c r) = has_pending_transport t"
  by (simp_all add: cancel_timeout_def cancel_retransmit_def schedule_timeout_def schedule_retransmit_def tsx_set_status_code_def)

text \<open>What the transaction user is told about a response that changes the state.\<close>

definition told :: "tsx \<Rightarrow> tsx_state \<Rightarrow> sip_msg \<Rightarrow> tsx_output list" where
  "told t st msg = (if tsx_user t then [Out_Rx_Response msg, Out_State (state t) st (Src_Rx msg)] else [])"

lemma state_log_rx:
  "m_type msg = PJSIP_RESPONSE_MSG \<Longrightarrow> state_log t st (Src_Rx msg) = log t @ told t st msg"
  by (simp add: state_log_def told_def)

text \<open>
  C3. A 2xx response to an INVITE ends the client transaction at once: the user is given the response and is told about
  the end, and nothing is sent, since the ACK to a 2xx response is the user's.
\<close>

theorem invite_2xx_terminates:
  assumes uac: "role t = PJSIP_ROLE_UAC" "tsx_method t = PJSIP_INVITE_METHOD"
    and st: "state t = PJSIP_TSX_STATE_CALLING \<or> state t = PJSIP_TSX_STATE_PROCEEDING"
    and msg: "m_type msg = PJSIP_RESPONSE_MSG" "200 \<le> m_code msg" "m_code msg < 300"
  shows "let t' = pjsip_tsx_recv_msg t msg
    in state t' = PJSIP_TSX_STATE_TERMINATED \<and> status_code t' = m_code msg \<and>
       log t' = log t @ told t PJSIP_TSX_STATE_TERMINATED msg \<and>
       (has_pending_transport t \<or> timeout_timer t' = Some (TimeVal 0 0))"
proof -
  have p: "state v' = PJSIP_TSX_STATE_TERMINATED \<and> status_code v' = m_code msg \<and>
      log v' = log v @ told v PJSIP_TSX_STATE_TERMINATED msg \<and>
      (has_pending_transport v \<or> timeout_timer v' = Some (TimeVal 0 0))"
    if "tsx_method v = PJSIP_INVITE_METHOD" "v' = fst (tsx_on_state_proceeding_uac v (PJSIP_EVENT_RX_MSG msg))" for v v'
    using that msg by (simp add: tsx_on_state_proceeding_uac_def in_class Let_def uac_2xx_response_def log_set_state
        state_log_rx told_def)
  show ?thesis
  proof (cases "state t = PJSIP_TSX_STATE_CALLING")
    case True
    define v where "v = (calling_rx_timers t (m_code msg))\<lparr>has_pending_resched := False\<rparr>"
    have v: "tsx_method v = PJSIP_INVITE_METHOD" "log v = log t" "told v st' m = told t st' m"
      "has_pending_transport v = has_pending_transport t" for st' m
      using uac msg by (simp_all add: v_def calling_rx_timers_def told_def)
    have "pjsip_tsx_recv_msg t msg = fst (tsx_on_state_proceeding_uac v (PJSIP_EVENT_RX_MSG msg))"
      using True uac msg by (simp add: pjsip_tsx_recv_msg_def state_handler_def tsx_on_state_calling_def v_def Let_def)
    from p[OF v(1) this] show ?thesis using v by (simp add: Let_def)
  next
    case False
    then have "pjsip_tsx_recv_msg t msg = fst (tsx_on_state_proceeding_uac t (PJSIP_EVENT_RX_MSG msg))"
      using st uac by (simp add: pjsip_tsx_recv_msg_def state_handler_def)
    from p[OF uac(2) this] show ?thesis by (simp add: Let_def)
  qed
qed

theorem invite_2xx_terminates_witness:
  "state (pjsip_tsx_recv_msg sample_calling (sample_response 200)) = PJSIP_TSX_STATE_TERMINATED"
  using invite_2xx_terminates[of sample_calling "sample_response 200"]
  by (simp add: sample_response_def Let_def)



lemma to_int32_id: "0 \<le> i \<Longrightarrow> i < 2 ^ 31 \<Longrightarrow> to_int32 i = i"
  by (simp add: to_int32_def)

text \<open>The delay before the retransmission after \<open>n\<close> others, in milliseconds.\<close>

definition backoff :: "method_id \<Rightarrow> nat \<Rightarrow> int" where
  "backoff m n = (if m = PJSIP_INVITE_METHOD then 500 * 2 ^ n else min 4000 (500 * 2 ^ n))"

lemma power_22: "n \<le> 22 \<Longrightarrow> (2::int) ^ n \<le> 4194304"
  using power_increasing[of n 22 "2::int"] by simp

lemma retransmit_msec_uac:
  assumes "role t = PJSIP_ROLE_UAC" "status_code t < 100" "retransmit_count t \<le> 22"
  shows "retransmit_msec t = backoff (tsx_method t) (retransmit_count t)"
proof -
  have "to_int32 (2 ^ retransmit_count t * 500) = 2 ^ retransmit_count t * 500"
    using power_22[OF assms(3)] by (intro to_int32_id) simp_all
  then show ?thesis using assms
    by (simp add: retransmit_msec_def backoff_def Let_def PJSIP_T1_TIMEOUT_def PJSIP_T2_TIMEOUT_def)
qed

definition msec_val :: "int \<Rightarrow> pj_time_val" where
  "msec_val ms = TimeVal (ms div 1000) (ms mod 1000)"

lemma msec_val_msec [simp]: "PJ_TIME_VAL_MSEC (msec_val ms) = ms"
  by (simp add: msec_val_def PJ_TIME_VAL_MSEC_def)

lemma backoff_pos: "0 \<le> backoff m n"
  by (simp add: backoff_def)

text \<open>One firing of the retransmission timer in the calling state.\<close>

lemma calling_retransmit:
  assumes t: "state t = PJSIP_TSX_STATE_CALLING" "role t = PJSIP_ROLE_UAC" "status_code t < 100" "retransmit_count t \<le> 21"
    and tx: "last_tx t = Some d" "sends_on t tp" "tp_results t = []"
    and t': "t' = tsx_timer_callback t Retransmit_Timer"
  shows "state t' = PJSIP_TSX_STATE_CALLING \<and> role t' = PJSIP_ROLE_UAC \<and> status_code t' < 100 \<and>
    tsx_method t' = tsx_method t \<and> retransmit_count t' = retransmit_count t + 1 \<and> last_tx t' = Some d \<and> sends_on t' tp \<and>
    tp_results t' = [] \<and> timeout_timer t' = timeout_timer t \<and> log t' = log t @ [Out_Send (tp_id tp) d] \<and>
    retransmit_timer t' = Some (msec_val (backoff (tsx_method t) (retransmit_count t + 1)))"
proof -
  define u where "u = t\<lparr>retransmit_timer := None, retransmit_count := retransmit_count t + 1\<rparr>"
  have m: "retransmit_msec u = backoff (tsx_method t) (retransmit_count t + 1)"
    using t retransmit_msec_uac[of u] by (simp add: u_def)
  define v where "v = tsx_resched_retransmission u"
  have v: "v = u\<lparr>retransmit_timer := Some (msec_val (backoff (tsx_method t) (retransmit_count t + 1)))\<rparr>"
    using backoff_pos[of "tsx_method t" "retransmit_count t + 1"] unfolding v_def tsx_resched_retransmission_def m Let_def
    by (simp add: schedule_retransmit_def u_def msec_val_def cdiv_nonneg cmod_nonneg)
  have "sends_on v tp" using tx(2) by (simp add: v u_def sends_on_def)
  moreover have "\<not> has_pending_transport u" using tx(2) by (simp add: sends_on_def u_def)
  ultimately have "t' = sent_msg v tp d"
    using t tx send_on[of v tp d]
    by (simp add: t' tsx_timer_callback_def state_handler_def tsx_on_state_calling_def tsx_retransmit_def Let_def
        u_def v_def)
  then show ?thesis using t tx by (simp add: v u_def sends_on_def sent_msg_def)
qed

abbreviation retransmit_step :: "tsx \<Rightarrow> tsx" where
  "retransmit_step t \<equiv> tsx_timer_callback t Retransmit_Timer"

text \<open>The time until the \<open>k\<close>-th retransmission: the delays of the timer before each firing.\<close>

definition elapsed :: "tsx \<Rightarrow> nat \<Rightarrow> int" where
  "elapsed t k = (\<Sum>i<k. PJ_TIME_VAL_MSEC (the (retransmit_timer ((retransmit_step ^^ i) t))))"

lemma calling_retransmits:
  assumes t: "state t = PJSIP_TSX_STATE_CALLING" "role t = PJSIP_ROLE_UAC" "status_code t < 100" "retransmit_count t = 0"
    and tx: "last_tx t = Some d" "sends_on t tp" "tp_results t = []" "retransmit_timer t = Some (msec_val (backoff (tsx_method t) 0))"
    and k: "k \<le> 22" and t': "t' = (retransmit_step ^^ k) t"
  shows "state t' = PJSIP_TSX_STATE_CALLING \<and> role t' = PJSIP_ROLE_UAC \<and> status_code t' < 100 \<and>
    tsx_method t' = tsx_method t \<and> retransmit_count t' = k \<and> last_tx t' = Some d \<and> sends_on t' tp \<and>
    tp_results t' = [] \<and> timeout_timer t' = timeout_timer t \<and> log t' = log t @ replicate k (Out_Send (tp_id tp) d) \<and>
    retransmit_timer t' = Some (msec_val (backoff (tsx_method t) k))"
  using k t'
proof (induction k arbitrary: t')
  case 0
  then show ?case using t tx by simp
next
  case (Suc k)
  let ?u = "(retransmit_step ^^ k) t"
  have k: "k \<le> 22" using Suc(2) by simp
  have IH: "state ?u = PJSIP_TSX_STATE_CALLING" "role ?u = PJSIP_ROLE_UAC" "status_code ?u < 100" "tsx_method ?u = tsx_method t"
    "retransmit_count ?u = k" "last_tx ?u = Some d" "sends_on ?u tp" "tp_results ?u = []" "timeout_timer ?u = timeout_timer t"
    "log ?u = log t @ replicate k (Out_Send (tp_id tp) d)"
    using Suc.IH[OF k refl] by simp_all
  have c: "retransmit_count ?u \<le> 21" using Suc(2) IH(5) by simp
  have e: "t' = retransmit_step ?u" using Suc(3) by simp
  show ?case using calling_retransmit[OF IH(1-3) c IH(6-8) e] IH by (simp add: replicate_append_same)
qed

text \<open>
  C5. The retransmissions of a request on an unreliable transport: as long as no response comes, the \<open>k\<close>-th firing of the timer sends the request
  once more and doubles the delay from 500 milliseconds on, without limit for INVITE and up to 4 seconds for other
  methods, and the timeout is left alone. An INVITE is retransmitted six times before the timeout
  of 32 seconds, at 0.5, 1.5, 3.5, 7.5, 15.5 and 31.5 seconds.
\<close>

theorem request_retransmissions:
  assumes t: "state t = PJSIP_TSX_STATE_CALLING" "role t = PJSIP_ROLE_UAC" "status_code t < 100" "retransmit_count t = 0"
    and tx: "last_tx t = Some d" "sends_on t tp" "tp_results t = []" "retransmit_timer t = Some t1_timer_val"
    and k: "k \<le> 22"
  shows "let t' = (retransmit_step ^^ k) t
    in state t' = PJSIP_TSX_STATE_CALLING \<and> timeout_timer t' = timeout_timer t \<and>
       log t' = log t @ replicate k (Out_Send (tp_id tp) d) \<and>
       PJ_TIME_VAL_MSEC (the (retransmit_timer t')) =
         (if tsx_method t = PJSIP_INVITE_METHOD then 500 * 2 ^ k else min 4000 (500 * 2 ^ k)) \<and>
       (tsx_method t = PJSIP_INVITE_METHOD \<longrightarrow>
          elapsed t k = 500 * (2 ^ k - 1) \<and> (elapsed t k < PJ_TIME_VAL_MSEC timeout_timer_val \<longleftrightarrow> k \<le> 6))"
proof -
  have t1: "retransmit_timer t = Some (msec_val (backoff (tsx_method t) 0))"
    using tx(4) by (simp add: t1_timer_val_def PJSIP_T1_TIMEOUT_def msec_val_def backoff_def)
  note R = calling_retransmits[OF t tx(1-3) t1]
  have el: "elapsed t k = 500 * (2 ^ k - 1)" if "tsx_method t = PJSIP_INVITE_METHOD"
  proof -
    have "elapsed t k = (\<Sum>i<k. backoff (tsx_method t) i)"
      unfolding elapsed_def using R[OF _ refl] k by (intro sum.cong) simp_all
    also have "\<dots> = 500 * (2 ^ k - 1)"
      using that by (simp add: backoff_def sum_distrib_left[symmetric] sum_power2[symmetric] flip: of_nat_sum)
        (induction k; simp)
    finally show ?thesis .
  qed
  have lt: "500 * (2 ^ k - 1) < PJ_TIME_VAL_MSEC timeout_timer_val \<longleftrightarrow> k \<le> 6"
  proof -
    have "(2::int) ^ k \<le> 64 \<longleftrightarrow> k \<le> 6" using power_increasing_iff[of "2::int" k 6] by simp
    moreover have "k \<le> 6 \<Longrightarrow> (2::int) ^ k \<le> 64" using power_increasing[of k 6 "2::int"] by simp
    ultimately show ?thesis
      by (simp add: PJ_TIME_VAL_MSEC_def timeout_timer_val_def PJSIP_T1_TIMEOUT_def) linarith
  qed
  show ?thesis using R[OF k refl] el lt by (simp add: Let_def backoff_def)
qed

theorem request_retransmissions_witness:
  "elapsed sample_calling 6 = 31500 \<and> elapsed sample_calling 7 = 63500"
proof -
  have "sends_on sample_calling sample_tp" by (simp add: sends_on_def)
  note R = request_retransmissions[OF _ _ _ _ _ this]
  show ?thesis using R[of sample_request 6] R[of sample_request 7] by (simp add: Let_def)
qed


definition sample_uas :: "tsx_state \<Rightarrow> tsx" where
  "sample_uas st = sample_uac\<lparr>role := PJSIP_ROLE_UAS, state := st\<rparr>"


text \<open>
  A transaction that was terminated while its send was in progress is not destroyed when that
  send then fails for good: the callback clears the mark of the pending transport, looks neither at
  the mark that asks for destruction nor starts a timer, and nothing is left that would release it.
\<close>

theorem tsx_leak_on_late_failure:
  assumes "state t = PJSIP_TSX_STATE_TERMINATED \<or> state t = PJSIP_TSX_STATE_DESTROYED" "alive t"
    and "timeout_timer t = None" "retransmit_timer t = None"
    and "sr_sent r < 0" "\<not> sr_cont r"
  shows "let t' = send_msg_callback t d r
    in state t' = state t \<and> alive t' \<and> registered t' = registered t \<and> has_pending_destroy t' = has_pending_destroy t \<and>
       \<not> has_pending_transport t' \<and> timeout_timer t' = None \<and> retransmit_timer t' = None"
proof -
  define u where "u = (if sr_transport r = transport t \<and> transport t \<noteq> None then release_transport t else t)
      \<lparr>transport_err := - sr_sent r, has_pending_transport := False, has_resolved_server := True\<rparr>"
  define v where "v = tsx_set_status_code u PJSIP_SC_TSX_TRANSPORT_ERROR (Error_Text (SIP_ERR (- sr_sent r)))"
  have "core u = core t" by (simp add: u_def)
  note C = coreD[OF this]
  have v: "state v = state t" "alive v = alive t" "registered v = registered t" "has_pending_destroy v = has_pending_destroy t"
    "timeout_timer v = timeout_timer t" "retransmit_timer v = retransmit_timer t" "\<not> has_pending_transport v"
    using C(1,2,3,9,10,12) by (simp_all add: v_def tsx_set_status_code_def) (simp add: u_def)
  have "send_msg_callback t d r = (if state v \<noteq> PJSIP_TSX_STATE_TERMINATED \<and> state v \<noteq> PJSIP_TSX_STATE_DESTROYED
      then tsx_set_state v PJSIP_TSX_STATE_TERMINATED (Src_Transport_Error (Some d)) else v)"
    using assms(5,6) unfolding send_msg_callback_def send_msg_callback_with_def v_def u_def by (simp add: Let_def)
  then have "send_msg_callback t d r = v" using v(1) assms(1) by auto
  then show ?thesis using v assms(2-4) by simp
qed

text \<open>A server transaction that is resolving the address of its provisional response when the user gives it up.\<close>

definition sample_pending :: tsx where
  "sample_pending = (sample_uas PJSIP_TSX_STATE_PROCEEDING)\<lparr>transport := None, has_pending_transport := True\<rparr>"

theorem tsx_leak_on_late_failure_witness:
  "let t = fst (pjsip_tsx_terminate sample_pending 500);
       t' = send_msg_callback t sample_request \<lparr>sr_transport = None, sr_addr = 0, sr_sent = -1, sr_cont = False\<rparr>
   in has_pending_destroy t' \<and> alive t' \<and> registered t' \<and> timeout_timer t' = None"
proof -
  have "fst (pjsip_tsx_terminate sample_pending 500) = tsx_set_state
      (tsx_set_status_code sample_pending 500 (Default_Text 500)) PJSIP_TSX_STATE_TERMINATED Src_User"
    by (simp add: pjsip_tsx_terminate_def sample_pending_def sample_uas_def)
  then show ?thesis
    using tsx_leak_on_late_failure[of "fst (pjsip_tsx_terminate sample_pending 500)"
        "\<lparr>sr_transport = None, sr_addr = 0, sr_sent = -1, sr_cont = False\<rparr>" sample_request]
    by (simp add: Let_def sample_pending_def sample_uas_def tsx_set_status_code_def)
qed

text \<open>
  Answering a request other than INVITE with a 2xx response when the destination of the response
  still has to be resolved: the handler asks the transport of the transaction whether it is
  reliable, and there is none yet.
\<close>

theorem server_2xx_null_transport:
  assumes uas: "role t = PJSIP_ROLE_UAS" "tsx_method t \<noteq> PJSIP_INVITE_METHOD"
    and st: "state t = PJSIP_TSX_STATE_TRYING \<or> state t = PJSIP_TSX_STATE_PROCEEDING"
    and tp: "transport t = None" "\<not> has_pending_transport t" "\<not> has_resolved_server t" "rs_results t = []"
    and d: "m_type (td_msg d) = PJSIP_RESPONSE_MSG" "200 \<le> m_code (td_msg d)" "m_code (td_msg d) < 300"
  shows "fault (fst (pjsip_tsx_send_msg t (Some d)))"
proof -
  define t0 where "t0 = drop_other_last_tx (tsx_set_status_code t (m_code (td_msg d)) (Reason (m_reason (td_msg d)))) d"
  have t0: "transport t0 = None" "\<not> has_pending_transport t0" "\<not> has_resolved_server t0" "rs_results t0 = []"
    "state t0 = state t" "tsx_method t0 = tsx_method t" "status_code t0 = m_code (td_msg d)"
    using tp by (auto simp: t0_def drop_other_last_tx_def tsx_set_status_code_def td_dec_ref_def split: option.split)
  define t1 where "t1 = emit ((td_add_ref t0 d)\<lparr>has_pending_transport := True\<rparr>) (Out_Resolve d)"
  have t1: "transport t1 = None" "state t1 = state t" "tsx_method t1 = tsx_method t" "status_code t1 = m_code (td_msg d)" "rs_results t1 = []"
    using t0 by (simp_all add: t1_def emit_def td_add_ref_def)
  have send: "tsx_send_msg t0 d = (t1\<lparr>rs_results := []\<rparr>, SIP_SUCCESS)"
    using t0 t1(5) st by (auto simp: tsx_send_msg_def tsx_send_msg_with_def Let_def t1_def[symmetric] t1(2))
  have k: "transport (keep_last_tx u d) = transport u" for u by (simp add: keep_last_tx_def)
  define r where "r = uas_2xx_response (t1\<lparr>rs_results := []\<rparr>) d"
  have r: "fault r" "state r = PJSIP_TSX_STATE_COMPLETED"
    using t1 uas by (simp_all add: r_def uas_2xx_response_def Let_def k set_state_other)
      (simp_all add: schedule_timeout_def)
  have "tsx_on_state_proceeding_uas t (PJSIP_EVENT_TX_MSG d) = (r, SIP_SUCCESS)"
    using d send t1(4) by (simp add: tsx_on_state_proceeding_uas_def Let_def t0_def[symmetric] in_class r_def)
  then show ?thesis using st uas r
    by (auto simp: pjsip_tsx_send_msg_def state_handler_def tsx_on_state_trying_def td_dec_ref_def)
qed

theorem server_2xx_null_transport_witness:
  "fault (fst (pjsip_tsx_send_msg
     ((sample_uas PJSIP_TSX_STATE_TRYING)\<lparr>tsx_method := PJSIP_OPTIONS_METHOD, transport := None\<rparr>)
     (Some \<lparr>td_id = 3, td_msg = sample_response 200\<rparr>)))"
  using server_2xx_null_transport[of "(sample_uas PJSIP_TSX_STATE_TRYING)\<lparr>tsx_method := PJSIP_OPTIONS_METHOD, transport := None\<rparr>"
      "\<lparr>td_id = 3, td_msg = sample_response 200\<rparr>"]
  by (simp add: sample_uas_def sample_response_def sample_uac_def tsx_create_def)

end
