(* ===== verification/Pj_String.thy ===== *)
theory Pj_String
  imports Pj_Prelude "HOL-Library.Word"
begin

text \<open>
  The string functions of \<^verbatim>\<open>pjlib/src/pj/string.c\<close> and \<^verbatim>\<open>pj/string_i.h\<close> that the key builder, the
  scanner and the session descriptions call. A \<^verbatim>\<open>pj_str_t\<close> is the list of the characters it spans, a
  literal of the source is the list of its characters without the terminating zero. A \<^verbatim>\<open>char\<close> is
  signed. The callers store the result of the number parsers in at most 32 bits, where the arithmetic
  on \<^verbatim>\<open>unsigned long\<close> and on a word of 32 bits agree.
\<close>

section \<open>Numbers\<close>

abbreviation NUL :: char where
  "NUL \<equiv> CHR 0x00"

definition schar :: "char \<Rightarrow> int" where
  "schar c = (if of_char c < (128::int) then of_char c else of_char c - 256)"

definition digit_val :: "char \<Rightarrow> 32 word" where
  "digit_val c = word_of_int (schar c - 48)"

definition pj_isdigit :: "char \<Rightarrow> bool" where
  "pj_isdigit c \<longleftrightarrow> of_char c \<in> {48..57::nat}"

primrec strtoul_loop :: "32 word \<Rightarrow> string \<Rightarrow> 32 word" where
  "strtoul_loop val [] = val"
| "strtoul_loop val (c # cs) = strtoul_loop (val * 10 + digit_val c) cs"

definition pj_strtoul :: "string \<Rightarrow> 32 word" where
  "pj_strtoul str = strtoul_loop 0 str"

text \<open>The branch of \<^verbatim>\<open>pj_strtoul2\<close> for a base of at most ten; the callers pass no \<^verbatim>\<open>endptr\<close>.\<close>

primrec strtoul2_loop :: "32 word \<Rightarrow> 32 word \<Rightarrow> string \<Rightarrow> 32 word" where
  "strtoul2_loop base val [] = val"
| "strtoul2_loop base val (c # cs) =
     (if base \<le> digit_val c then val else strtoul2_loop base (val * base + digit_val c) cs)"

definition pj_strtoul2 :: "string \<Rightarrow> 32 word \<Rightarrow> 32 word" where
  "pj_strtoul2 str base = strtoul2_loop base 0 str"

text \<open>
  \<^verbatim>\<open>pj_utoa_pad\<close> stores the digits with the least significant one first, pads them, and exchanges the
  two ends of the buffer until they meet.
\<close>

fun utoa_digits :: "nat \<Rightarrow> string" where
  "utoa_digits val = char_of (48 + val mod 10) # (if val div 10 > 0 then utoa_digits (val div 10) else [])"

declare utoa_digits.simps [simp del]

function swap_ends :: "string \<Rightarrow> nat \<Rightarrow> nat \<Rightarrow> string" where
  "swap_ends buf i p =
     (let buf' = buf[i := buf ! p, p := buf ! i]
      in if i + 2 < p then swap_ends buf' (i + 1) (p - 1) else buf')"
  by auto
termination by (relation "measure (\<lambda>(_, i, p). p - i)") auto

declare swap_ends.simps [simp del]

definition pj_utoa_pad :: "nat \<Rightarrow> nat \<Rightarrow> char \<Rightarrow> string" where
  "pj_utoa_pad val min_dig pad =
     (let ds = utoa_digits val; buf = ds @ replicate (min_dig - length ds) pad
      in swap_ends buf 0 (length buf - 1))"

definition pj_utoa :: "nat \<Rightarrow> string" where
  "pj_utoa val = pj_utoa_pad val 0 NUL"

section \<open>Comparisons\<close>

text \<open>
  \<^verbatim>\<open>memcmp\<close> over the length of its first argument; only the sign of the result is used. The second
  argument never ends first unless the memory behind a literal is read, which takes a string with an
  embedded zero.
\<close>

fun memcmp :: "string \<Rightarrow> string \<Rightarrow> int" where
  "memcmp [] bs = 0"
| "memcmp (a # as) [] = 1"
| "memcmp (a # as) (b # bs) =
     (if a = b then memcmp as bs else if of_char a < (of_char b :: nat) then - 1 else 1)"

definition pj_strcmp :: "string \<Rightarrow> string \<Rightarrow> int" where
  "pj_strcmp str1 str2 =
     (let diff = int (length str1) - int (length str2)
      in if diff \<noteq> 0 then (if diff > 0 then 1 else - 1) else memcmp str1 str2)"

text \<open>\<^verbatim>\<open>pj_strcmp2\<close> compares as many characters as its first argument has, whatever the length of the literal.\<close>

definition pj_strcmp2 :: "string \<Rightarrow> string \<Rightarrow> int" where
  "pj_strcmp2 str1 str2 =
     (if str1 = [] then (if str2 = [] then 0 else - 1) else memcmp str1 (str2 @ [NUL]))"

definition tolower :: "char \<Rightarrow> nat" where
  "tolower c = (if of_char c \<in> {65..90::nat} then of_char c + 32 else of_char c)"

fun strncasecmp :: "string \<Rightarrow> string \<Rightarrow> int" where
  "strncasecmp (a # as) (b # bs) =
     (if tolower a \<noteq> tolower b then int (tolower a) - int (tolower b)
      else if a = NUL then 0 else strncasecmp as bs)"
| "strncasecmp _ _ = 0"

definition pj_stricmp :: "string \<Rightarrow> string \<Rightarrow> int" where
  "pj_stricmp str1 str2 =
     (if length str1 \<noteq> length str2 then int (length str1) - int (length str2)
      else if str1 = [] then 0 else strncasecmp str1 str2)"

section \<open>The comparisons decide equality\<close>

lemma memcmp_refl [simp]: "memcmp as as = 0"
  by (induction as) auto

lemma memcmp_0: "length as = length bs \<Longrightarrow> memcmp as bs = 0 \<longleftrightarrow> as = bs"
  by (induction as bs rule: memcmp.induct) auto

lemma pj_strcmp_0 [simp]: "pj_strcmp a b = 0 \<longleftrightarrow> a = b"
  by (auto simp: pj_strcmp_def Let_def memcmp_0)

lemma memcmp_prefix: "NUL \<notin> set as \<Longrightarrow> memcmp as (bs @ [NUL]) = 0 \<longleftrightarrow> (\<exists>zs. bs = as @ zs)"
proof (induction as arbitrary: bs)
  case (Cons a as)
  then show ?case by (cases bs) auto
qed simp

lemma pj_strcmp2_0:
  "NUL \<notin> set s \<Longrightarrow> pj_strcmp2 s lit = 0 \<longleftrightarrow> (if s = [] then lit = [] else (\<exists>zs. lit = s @ zs))"
  by (simp add: pj_strcmp2_def memcmp_prefix)

lemma pj_strcmp2_same [simp]: "pj_strcmp2 s s = 0"
proof -
  have "memcmp s (s @ zs) = 0" for zs by (induction s) auto
  then show ?thesis by (simp add: pj_strcmp2_def)
qed

lemma strncasecmp_refl [simp]: "strncasecmp a a = 0"
  by (induction a) auto

lemma pj_stricmp_refl [simp]: "pj_stricmp a a = 0"
  by (simp add: pj_stricmp_def)

lemma tolower_0 [simp]: "tolower c = 0 \<longleftrightarrow> c = NUL"
proof -
  have "of_char c = (0::nat) \<longleftrightarrow> c = NUL" using of_char_eq_iff[of c NUL, where 'a = nat] by simp
  then show ?thesis by (auto simp: tolower_def)
qed

lemma strncasecmp_sym: "strncasecmp a b = 0 \<Longrightarrow> strncasecmp b a = 0"
proof (induction a b rule: strncasecmp.induct)
  case (1 a as b bs)
  have "a = NUL \<longleftrightarrow> b = NUL" if "tolower a = tolower b" using that tolower_0[of a] tolower_0[of b] by simp
  then show ?case using 1 by (simp split: if_splits)
qed auto

lemma pj_stricmp_sym: "pj_stricmp a b = 0 \<Longrightarrow> pj_stricmp b a = 0"
  by (auto simp: pj_stricmp_def strncasecmp_sym split: if_splits)

section \<open>Numbers and their digits\<close>

lemma swap_ends_append:
  "ys \<noteq> [] \<Longrightarrow> swap_ends (xs @ ys @ zs) (length xs) (length xs + length ys - 1) = xs @ rev ys @ zs"
proof (induction "length ys" arbitrary: xs ys zs rule: less_induct)
  case less
  show ?case
  proof (cases "length ys \<le> 1")
    case True
    then obtain y where "ys = [y]" using less.prems by (cases ys) auto
    then show ?thesis by (simp add: swap_ends.simps Let_def nth_append)
  next
    case False
    then obtain a ms b where ys: "ys = a # ms @ [b]"
      by (cases ys; cases "tl ys" rule: rev_cases) auto
    have upd: "(xs @ ys @ zs)[length xs := (xs @ ys @ zs) ! (length xs + Suc (length ms)),
       length xs + Suc (length ms) := (xs @ ys @ zs) ! length xs] = (xs @ [b]) @ ms @ (a # zs)"
      by (simp add: ys list_update_append nth_append)
    show ?thesis
    proof (cases "ms = []")
      case True
      then show ?thesis using upd by (subst swap_ends.simps) (simp add: ys Let_def)
    next
      case ms: False
      have IH: "swap_ends ((xs @ [b]) @ ms @ (a # zs)) (length (xs @ [b])) (length (xs @ [b]) + length ms - 1)
                = (xs @ [b]) @ rev ms @ (a # zs)"
        using less.hyps[of ms "xs @ [b]" "a # zs"] ms ys by simp
      show ?thesis
      proof (cases "length ms = 1")
        case True
        then have "rev ms = ms" by (cases ms) auto
        then show ?thesis using True upd by (subst swap_ends.simps) (simp add: ys Let_def)
      next
        case False
        then have "2 \<le> length ms" using ms by (cases ms; cases "tl ms") auto
        then show ?thesis using upd IH by (subst swap_ends.simps) (simp add: ys Let_def)
      qed
    qed
  qed
qed

lemma utoa_digits_neq [simp]: "utoa_digits n \<noteq> []"
  by (subst utoa_digits.simps) simp

lemma pj_utoa_rev: "pj_utoa n = rev (utoa_digits n)"
  using swap_ends_append[of "utoa_digits n" "[]" "[]"] by (simp add: pj_utoa_def pj_utoa_pad_def Let_def)

lemma strtoul_loop_append: "strtoul_loop v (s @ t) = strtoul_loop (strtoul_loop v s) t"
  by (induction s arbitrary: v) auto

lemma of_char_digit: "n < 10 \<Longrightarrow> of_char (char_of (48 + n) :: char) = (48 + n :: nat)"
  by simp

lemma digit_val_digit: "n < 10 \<Longrightarrow> digit_val (char_of (48 + n)) = of_nat n"
proof -
  assume n: "n < 10"
  have "(of_char (char_of (48 + n) :: char) :: int) = int (of_char (char_of (48 + n) :: char))"
    by (simp only: of_nat_of_char)
  then have "(of_char (char_of (48 + n) :: char) :: int) = 48 + int n"
    using of_char_digit[OF n] by simp
  then show ?thesis using n by (simp add: digit_val_def schar_def)
qed

lemma strtoul_digits: "strtoul_loop 0 (rev (utoa_digits n)) = of_nat n"
proof (induction n rule: utoa_digits.induct)
  case (1 n)
  have n: "(of_nat n :: 32 word) = of_nat (n div 10) * 10 + of_nat (n mod 10)"
    by (metis div_mult_mod_eq of_nat_add of_nat_mult of_nat_numeral)
  show ?case
  proof (cases "n div 10 > 0")
    case True
    then have "utoa_digits n = char_of (48 + n mod 10) # utoa_digits (n div 10)"
      by (subst utoa_digits.simps) simp
    then show ?thesis using 1[OF True] n by (simp add: strtoul_loop_append digit_val_digit)
  next
    case False
    then have "utoa_digits n = [char_of (48 + n mod 10)]" by (subst utoa_digits.simps) simp
    then show ?thesis using n False by (simp add: digit_val_digit)
  qed
qed

lemma pj_strtoul_utoa: "pj_strtoul (pj_utoa n) = of_nat n"
  by (simp add: pj_strtoul_def pj_utoa_rev strtoul_digits)

lemma pj_strtoul_utoa_unat [simp]: "pj_strtoul (pj_utoa (unat w)) = w"
  by (simp add: pj_strtoul_utoa)

lemma pj_strtoul_utoa_unat16 [simp]: "ucast (pj_strtoul (pj_utoa (unat (w :: 16 word)))) = w"
  by (simp add: pj_strtoul_utoa) (rule bit_word_eqI, simp add: bit_simps)

lemma digits_isdigit: "c \<in> set (utoa_digits n) \<Longrightarrow> pj_isdigit c"
proof (induction n rule: utoa_digits.induct)
  case (1 n)
  have "pj_isdigit (char_of (48 + n mod 10))" using of_char_digit[of "n mod 10"] by (simp add: pj_isdigit_def)
  then show ?case using 1 by (subst (asm) (2) utoa_digits.simps) (auto split: if_splits)
qed

lemma utoa_isdigit: "c \<in> set (pj_utoa n) \<Longrightarrow> pj_isdigit c"
  by (simp add: pj_utoa_rev digits_isdigit)

lemma pj_utoa_neq [simp]: "pj_utoa n \<noteq> []"
  by (simp add: pj_utoa_rev)

lemma utoa_digits_length: "val < 10 ^ n \<Longrightarrow> 0 < n \<Longrightarrow> length (utoa_digits val) \<le> n"
proof (induction val arbitrary: n rule: utoa_digits.induct)
  case (1 val)
  show ?case
  proof (cases "val div 10 > 0")
    case True
    then obtain k where n: "n = Suc k" "k > 0" using 1(2,3) by (cases n; cases "n - 1") auto
    have "val div 10 < 10 ^ k" using 1(2) n by (simp add: less_mult_imp_div_less mult.commute)
    then show ?thesis using 1(1)[OF True _ n(2)] True n by (subst utoa_digits.simps) simp
  next
    case False
    then show ?thesis using 1(3) by (subst utoa_digits.simps) simp
  qed
qed

lemma length_utoa: "length (pj_utoa val) = length (utoa_digits val)"
  by (simp add: pj_utoa_rev)

end
