(* ===== verification/Tsx_Layer.thy ===== *)
theory Tsx_Layer
  imports Tsx_Invariant Hash_Table Pj_String
begin

text \<open>
  The transaction layer (\<^verbatim>\<open>pjsip/src/pjsip/sip_transaction.c\<close>): the keys that identify a transaction, the
  hash table that holds the transactions under their keys, the dispatch of messages to them, and the
  creation of client and server transactions. It composes the hash table (theory \<open>Hash_Table\<close>) with the
  transactions (theory \<open>Sip_Transaction\<close>).

  \<^item> A transaction is addressed by a number; the layer holds the objects, with the key and the
    precalculated hash value of each.
  \<^item> The destination of a request (\<^verbatim>\<open>pjsip_get_request_dest\<close>), the response address
    (\<^verbatim>\<open>pjsip_get_response_addr\<close>) and the unique string for a new branch are inputs.
  \<^item> A message is the part of \<open>sip_msg\<close> the transaction looks at, with the headers that enter the key.
\<close>

section \<open>Keys\<close>

text \<open>The characters of a string as the bytes of a key.\<close>

definition bytes_of :: "string \<Rightarrow> bytes" where
  "bytes_of s = map of_char s"

lemma length_bytes_of [simp]: "length (bytes_of s) = length s"
  by (simp add: bytes_of_def)

record sip_method =
  me_id :: method_id
  me_name :: bytes

text \<open>
  A received message: the request line method, the method and the number of the CSeq header, the parameters of
  the topmost Via header, the From tag and the Call-ID. The branch is \<open>None\<close> when the parameter is absent;
  \<open>rd_after\<close> are the bytes that follow its value in the packet.
\<close>

record rx_data =
  rd_msg :: sip_msg
  rd_req_method :: sip_method
  rd_cseq :: "(sip_method \<times> nat) option"
  rd_via :: bool
  rd_branch :: "bytes option"
  rd_after :: bytes
  rd_host :: bytes
  rd_port :: nat
  rd_from_tag :: "bytes option"
  rd_cid :: bytes

definition SEPARATOR :: nat where "SEPARATOR = 36"

text \<open>\<^verbatim>\<open>z9hG4bK\<close>\<close>

definition PJSIP_RFC3261_BRANCH_ID :: bytes where
  "PJSIP_RFC3261_BRANCH_ID = [122, 57, 104, 71, 52, 98, 75]"

definition role_byte :: "pjsip_role \<Rightarrow> nat" where
  "role_byte rl = (if rl = PJSIP_ROLE_UAC then 99 else 115)"

definition method_part :: "sip_method \<Rightarrow> bytes" where
  "method_part m =
     (if me_id m \<noteq> PJSIP_INVITE_METHOD \<and> me_id m \<noteq> PJSIP_ACK_METHOD then me_name m @ [SEPARATOR] else [])"

definition create_tsx_key_3261 :: "pjsip_role \<Rightarrow> sip_method \<Rightarrow> bytes \<Rightarrow> bytes" where
  "create_tsx_key_3261 rl m branch = [role_byte rl, SEPARATOR] @ method_part m @ branch"

text \<open>
  The key for a peer that does not send the branch cookie. The buffer is allocated with \<open>len_required\<close>
  bytes; the second component of the result tells whether the key was written beyond its end.
\<close>

definition create_tsx_key_2543 :: "pjsip_role \<Rightarrow> sip_method \<Rightarrow> rx_data \<Rightarrow> sip_status + bytes \<times> bool" where
  "create_tsx_key_2543 rl m rdata =
     (if \<not> rd_via rdata then Inl PJSIP_EMISSINGHDR
      else case rd_cseq rdata of
        None \<Rightarrow> Inl PJSIP_EMISSINGHDR
      | Some (_, cseq) \<Rightarrow>
          (case rd_from_tag rdata of
             None \<Rightarrow> Inl PJSIP_EMISSINGHDR
           | Some tag \<Rightarrow>
               let len_required = 9 + length tag + length (rd_cid rdata) + length (rd_host rdata) + 9 + 16;
                   key = [role_byte rl, SEPARATOR] @ method_part m @ bytes_of (pj_utoa cseq) @ [SEPARATOR] @
                         tag @ [SEPARATOR] @ rd_cid rdata @ [SEPARATOR] @
                         rd_host rdata @ [58] @ bytes_of (pj_utoa (rd_port rdata)) @ [SEPARATOR] @ [0]
               in Inr (key, length key > len_required)))"

text \<open>
  The comparison with the cookie looks at seven bytes from the start of the branch, whatever the length
  of the branch; a branch that is absent is different.
\<close>

definition pjsip_tsx_create_key :: "pjsip_role \<Rightarrow> sip_method \<Rightarrow> rx_data \<Rightarrow> sip_status + bytes \<times> bool" where
  "pjsip_tsx_create_key rl m rdata =
     (case rd_branch rdata of
        Some branch \<Rightarrow>
          if take 7 (branch @ rd_after rdata) = PJSIP_RFC3261_BRANCH_ID
          then Inr (create_tsx_key_3261 rl m branch, False)
          else create_tsx_key_2543 rl m rdata
      | None \<Rightarrow> create_tsx_key_2543 rl m rdata)"

section \<open>The layer\<close>

record tsx_layer =
  htable :: "nat hash_table"
  objs :: "nat \<Rightarrow> tsx"
  tkey :: "nat \<Rightarrow> bytes"
  hashed_key :: "nat \<Rightarrow> nat"
  next_obj :: nat
  layer_open :: bool

definition PJSIP_MAX_TSX_COUNT :: nat where "PJSIP_MAX_TSX_COUNT = 16 * 1024"

definition pjsip_tsx_layer_init_module :: "(nat \<Rightarrow> tsx) \<Rightarrow> tsx_layer option" where
  "pjsip_tsx_layer_init_module mem =
     map_option (\<lambda>h. \<lparr>htable = h, objs = mem, tkey = (\<lambda>_. []), hashed_key = (\<lambda>_. 0), next_obj = 0, layer_open = True\<rparr>)
       (pj_hash_create PJSIP_MAX_TSX_COUNT)"

definition mod_tsx_layer_register_tsx :: "tsx_layer \<Rightarrow> nat \<Rightarrow> tsx_layer" where
  "mod_tsx_layer_register_tsx L a =
     L\<lparr>htable := pj_hash_set (htable L) (tkey L a) (Keylen (length (tkey L a))) (hashed_key L a) (Some a),
       objs := (objs L)(a := (objs L a)\<lparr>registered := True\<rparr>)\<rparr>"

definition mod_tsx_layer_unregister_tsx :: "tsx_layer \<Rightarrow> nat \<Rightarrow> tsx_layer" where
  "mod_tsx_layer_unregister_tsx L a =
     L\<lparr>htable := pj_hash_set (htable L) (tkey L a) (Keylen (length (tkey L a))) (hashed_key L a) None,
       objs := (objs L)(a := (objs L a)\<lparr>registered := False\<rparr>)\<rparr>"

definition pjsip_tsx_layer_find_tsx :: "tsx_layer \<Rightarrow> bytes \<Rightarrow> nat option" where
  "pjsip_tsx_layer_find_tsx L key = fst (pj_hash_get (htable L) key (Keylen (length key)) (Some 0))"

text \<open>
  A step of one transaction. The calls of \<open>mod_tsx_layer_unregister_tsx\<close> that it makes are made on the table.
\<close>

definition run_tsx :: "tsx_layer \<Rightarrow> nat \<Rightarrow> (tsx \<Rightarrow> tsx) \<Rightarrow> tsx_layer" where
  "run_tsx L a f =
     (let t = f (objs L a);
          L' = L\<lparr>objs := (objs L)(a := t)\<rparr>
      in if unregister_calls t > unregister_calls (objs L a) then mod_tsx_layer_unregister_tsx L' a else L')"

text \<open>A message goes to the transaction with its key, unless there is none or it has terminated.\<close>

definition deliver :: "tsx_layer \<Rightarrow> pjsip_role \<Rightarrow> rx_data \<Rightarrow> (tsx_layer \<times> bool) option" where
  "deliver L rl rdata =
     (case rd_cseq rdata of
        None \<Rightarrow> None
      | Some (m, _) \<Rightarrow>
          (case pjsip_tsx_create_key rl m rdata of
             Inl _ \<Rightarrow> None
           | Inr (key, _) \<Rightarrow>
               (case fst (pj_hash_get (htable L) key (Keylen (length key)) (Some 0)) of
                  None \<Rightarrow> Some (L, False)
                | Some a \<Rightarrow>
                    if state (objs L a) = PJSIP_TSX_STATE_TERMINATED then Some (L, False)
                    else Some (run_tsx L a (\<lambda>t. pjsip_tsx_recv_msg t (rd_msg rdata)), True))))"

definition mod_tsx_layer_on_rx_request :: "tsx_layer \<Rightarrow> rx_data \<Rightarrow> (tsx_layer \<times> bool) option" where
  "mod_tsx_layer_on_rx_request L rdata = deliver L PJSIP_ROLE_UAS rdata"

definition mod_tsx_layer_on_rx_response :: "tsx_layer \<Rightarrow> rx_data \<Rightarrow> (tsx_layer \<times> bool) option" where
  "mod_tsx_layer_on_rx_response L rdata = deliver L PJSIP_ROLE_UAC rdata"

text \<open>
  Stopping the layer visits the transactions with the iterator of the table; the next place is taken
  before the entry is removed, so that the visit is that of the table at the start.
\<close>

definition stop_tsx :: "nat \<Rightarrow> tsx_layer \<Rightarrow> tsx_layer" where
  "stop_tsx a L =
     (let L = mod_tsx_layer_unregister_tsx L a
      in L\<lparr>objs := (objs L)(a := fst (tsx_destroy (objs L a)))\<rparr>)"

definition mod_tsx_layer_stop :: "tsx_layer \<Rightarrow> tsx_layer" where
  "mod_tsx_layer_stop L =
     fold stop_tsx (hash_iterate (Suc (length (concat (ht_table (htable L))))) (htable L) (pj_hash_first (htable L))) L"

definition mod_tsx_layer_unload :: "tsx_layer \<Rightarrow> tsx_layer \<times> sip_status" where
  "mod_tsx_layer_unload L =
     (if pj_hash_count (htable L) \<noteq> 0 then (L, SIP_EBUSY) else (L\<lparr>layer_open := False\<rparr>, SIP_SUCCESS))"

section \<open>Creating transactions\<close>

text \<open>An outgoing request: its message, method, CSeq number and the branch of its topmost Via, empty if there is none.\<close>

record uac_request =
  ur_tdata :: tx_data
  ur_method :: sip_method
  ur_cseq :: "nat option"
  ur_branch :: bytes

definition pjsip_method_eq :: "sip_method \<Rightarrow> sip_method \<Rightarrow> bool" where
  "pjsip_method_eq m1 m2 \<longleftrightarrow>
     me_id m1 = me_id m2 \<and> (me_id m1 \<noteq> PJSIP_OTHER_METHOD \<or> me_name m1 = me_name m2)"

text \<open>Put a new transaction with its key and hash value at the next address.\<close>

definition new_tsx :: "tsx_layer \<Rightarrow> tsx \<Rightarrow> bytes \<Rightarrow> tsx_layer" where
  "new_tsx L t key =
     L\<lparr>objs := (objs L)(next_obj L := t), tkey := (tkey L)(next_obj L := key),
       hashed_key := (hashed_key L)(next_obj L := pj_hash_calc 0 key (Keylen (length key))),
       next_obj := next_obj L + 1\<rparr>"

definition pjsip_tsx_create_uac ::
    "tsx_layer \<Rightarrow> bool \<Rightarrow> uac_request \<Rightarrow> bytes \<Rightarrow> sip_status + bool \<Rightarrow> tsx_layer \<times> (sip_status + nat)" where
  "pjsip_tsx_create_uac L user req guid dest =
     (if m_type (td_msg (ur_tdata req)) \<noteq> PJSIP_REQUEST_MSG then (L, Inl PJSIP_ENOTREQUESTMSG)
      else if me_id (ur_method req) = PJSIP_ACK_METHOD then (L, Inl SIP_EINVALIDOP)
      else if ur_cseq req = None then (L, Inl PJSIP_EMISSINGHDR)
      else
        let branch = (if ur_branch req = [] then PJSIP_RFC3261_BRANCH_ID @ [80, 106] @ guid else ur_branch req);
            key = create_tsx_key_3261 PJSIP_ROLE_UAC (ur_method req) branch;
            t = (tsx_create user)\<lparr>role := PJSIP_ROLE_UAC, tsx_method := me_id (ur_method req),
                  state := PJSIP_TSX_STATE_NULL, last_tx := Some (ur_tdata req)\<rparr>;
            t = td_add_ref t (ur_tdata req);
            a = next_obj L
        in case dest of
             Inl st \<Rightarrow> (new_tsx L (fst (tsx_destroy t)) key, Inl st)
           | Inr rel \<Rightarrow> (mod_tsx_layer_register_tsx (new_tsx L (t\<lparr>is_reliable := rel\<rparr>) key) a, Inr a))"

text \<open>The response address: an error, or the transport and address to use when the request says so.\<close>

definition pjsip_tsx_create_uas ::
    "tsx_layer \<Rightarrow> bool \<Rightarrow> rx_data \<Rightarrow> sip_status + (transport \<times> nat) option \<Rightarrow> tsx_layer \<times> (sip_status + nat)" where
  "pjsip_tsx_create_uas L user rdata res =
     (if m_type (rd_msg rdata) \<noteq> PJSIP_REQUEST_MSG then (L, Inl PJSIP_ENOTREQUESTMSG)
      else if me_id (rd_req_method rdata) = PJSIP_ACK_METHOD then (L, Inl SIP_EINVALIDOP)
      else case rd_cseq rdata of
        None \<Rightarrow> (L, Inl PJSIP_EMISSINGHDR)
      | Some (cm, _) \<Rightarrow>
          if \<not> rd_via rdata then (L, Inl PJSIP_EMISSINGHDR)
          else if \<not> pjsip_method_eq (rd_req_method rdata) cm then (L, Inl PJSIP_EINVALIDHDR)
          else
            let t = (tsx_create user)\<lparr>role := PJSIP_ROLE_UAS, tsx_method := me_id (rd_req_method rdata),
                      state := PJSIP_TSX_STATE_NULL\<rparr>;
                a = next_obj L
            in case pjsip_tsx_create_key PJSIP_ROLE_UAS (rd_req_method rdata) rdata of
                 Inl st \<Rightarrow> (new_tsx L (fst (tsx_destroy t)) [], Inl st)
               | Inr (key, _) \<Rightarrow>
                   (case res of
                      Inl st \<Rightarrow> (new_tsx L (fst (tsx_destroy t)) key, Inl st)
                    | Inr tp \<Rightarrow>
                        let t = (case tp of
                                   None \<Rightarrow> t
                                 | Some (tp, ad) \<Rightarrow>
                                     (take_transport t tp)\<lparr>res_transport := Some tp, addr := Some ad, is_reliable := tp_reliable tp\<rparr>)
                        in (mod_tsx_layer_register_tsx (new_tsx L t key) a, Inr a)))"

section \<open>The table of transactions\<close>

lemma hash_set_precalc:
  "pj_hash_set ht key (Keylen (length key)) (pj_hash_calc 0 key (Keylen (length key))) v = hash_put ht key v"
proof -
  let ?h = "pj_hash_calc 0 key (Keylen (length key))"
  have "find_entry ht key (Keylen (length key)) v (Some ?h) = find_entry ht key (Keylen (length key)) v (Some 0)"
    by (simp add: find_entry_def Let_def split: option.split)
  then show ?thesis by (simp add: pj_hash_set_def hash_put_def)
qed

lemma find_hash_lookup: "fst (pj_hash_get ht key (Keylen (length key)) (Some 0)) = hash_lookup ht key"
  by (simp add: hash_lookup_def hash_get_lookup hash_of_def Let_def)

abbreviation key_hash :: "bytes \<Rightarrow> nat" where
  "key_hash key \<equiv> pj_hash_calc 0 key (Keylen (length key))"

text \<open>
  The table is in order, every object has the hash value of its key, and every entry is the entry of a registered
  transaction with that key.
\<close>

definition table_ok :: "tsx_layer \<Rightarrow> bool" where
  "table_ok L \<longleftrightarrow> ht_inv (htable L) \<and> (\<forall>a<next_obj L. hashed_key L a = key_hash (tkey L a)) \<and>
     (\<forall>h k a. ht_lookup (htable L) (h, k) = Some a \<longrightarrow> h = key_hash k \<and> a < next_obj L \<and> tkey L a = k)"

abbreviation find_tsx :: "tsx_layer \<Rightarrow> bytes \<Rightarrow> nat option" where
  "find_tsx L key \<equiv> pjsip_tsx_layer_find_tsx L key"

lemma find_tsx_lookup: "find_tsx L key = hash_lookup (htable L) key"
  by (simp add: pjsip_tsx_layer_find_tsx_def find_hash_lookup)

lemma put_lookup: "ht_inv ht \<Longrightarrow> ht_lookup (hash_put ht k v) = (ht_lookup ht)((key_hash k, k) := v)"
  by (simp add: hash_put_def hash_set_lookup hash_of_def key_bytes_def)

lemma register_table:
  assumes ok: "table_ok L" and a: "a < next_obj L"
  shows "table_ok (mod_tsx_layer_register_tsx L a)"
    "find_tsx (mod_tsx_layer_register_tsx L a) k = (if k = tkey L a then Some a else find_tsx L k)"
proof -
  have inv: "ht_inv (htable L)" and h: "hashed_key L a = key_hash (tkey L a)" using ok a by (simp_all add: table_ok_def)
  have t: "htable (mod_tsx_layer_register_tsx L a) = hash_put (htable L) (tkey L a) (Some a)"
    by (simp add: mod_tsx_layer_register_tsx_def h hash_set_precalc)
  show "find_tsx (mod_tsx_layer_register_tsx L a) k = (if k = tkey L a then Some a else find_tsx L k)"
    unfolding find_tsx_lookup t by (rule hs.lookup_put[OF inv])
  show "table_ok (mod_tsx_layer_register_tsx L a)"
    using ok a hs.put_inv[OF inv] unfolding table_ok_def t put_lookup[OF inv]
    by (auto simp: mod_tsx_layer_register_tsx_def)
qed

lemma unregister_table:
  assumes ok: "table_ok L" and a: "a < next_obj L"
  shows "table_ok (mod_tsx_layer_unregister_tsx L a)"
    "find_tsx (mod_tsx_layer_unregister_tsx L a) k = (if k = tkey L a then None else find_tsx L k)"
proof -
  have inv: "ht_inv (htable L)" and h: "hashed_key L a = key_hash (tkey L a)" using ok a by (simp_all add: table_ok_def)
  have t: "htable (mod_tsx_layer_unregister_tsx L a) = hash_put (htable L) (tkey L a) None"
    by (simp add: mod_tsx_layer_unregister_tsx_def h hash_set_precalc)
  show "find_tsx (mod_tsx_layer_unregister_tsx L a) k = (if k = tkey L a then None else find_tsx L k)"
    unfolding find_tsx_lookup t by (rule hs.lookup_put[OF inv])
  show "table_ok (mod_tsx_layer_unregister_tsx L a)"
    using ok a hs.put_inv[OF inv] unfolding table_ok_def t put_lookup[OF inv]
    by (auto simp: mod_tsx_layer_unregister_tsx_def)
qed

lemma run_table:
  assumes ok: "table_ok L" and a: "a < next_obj L"
  shows "table_ok (run_tsx L a f)"
    "find_tsx (run_tsx L a f) k =
       (if unregister_calls (f (objs L a)) > unregister_calls (objs L a) \<and> k = tkey L a then None else find_tsx L k)"
proof -
  let ?L = "L\<lparr>objs := (objs L)(a := f (objs L a))\<rparr>"
  have "table_ok ?L" using ok by (simp add: table_ok_def)
  note U = unregister_table[OF this, of a]
  have "find_tsx ?L k = find_tsx L k" by (simp add: find_tsx_lookup)
  then show "find_tsx (run_tsx L a f) k =
       (if unregister_calls (f (objs L a)) > unregister_calls (objs L a) \<and> k = tkey L a then None else find_tsx L k)"
    using U a by (simp add: run_tsx_def Let_def)
  show "table_ok (run_tsx L a f)" using U a \<open>table_ok ?L\<close> by (simp add: run_tsx_def Let_def)
qed

lemma new_tsx_table: "table_ok L \<Longrightarrow> table_ok (new_tsx L t key)" "find_tsx (new_tsx L t key) k = find_tsx L k"
  by (auto simp: table_ok_def new_tsx_def less_Suc_eq find_tsx_lookup)

lemma find_tsx_key: "table_ok L \<Longrightarrow> find_tsx L k = Some a \<Longrightarrow> a < next_obj L \<and> tkey L a = k"
  by (auto simp: table_ok_def find_tsx_lookup hash_lookup_ht_lookup)

section \<open>Keys\<close>

lemma cookie_length: "length PJSIP_RFC3261_BRANCH_ID = 7"
  by (simp add: PJSIP_RFC3261_BRANCH_ID_def)

text \<open>A branch of RFC 3261, and the name of a method: no separator, and not the cookie at its start.\<close>

definition cookie_branch :: "bytes \<Rightarrow> bool" where
  "cookie_branch b \<longleftrightarrow> take 7 b = PJSIP_RFC3261_BRANCH_ID"

definition method_ok :: "sip_method \<Rightarrow> bool" where
  "method_ok m \<longleftrightarrow> SEPARATOR \<notin> set (me_name m) \<and> take 7 (me_name m) \<noteq> PJSIP_RFC3261_BRANCH_ID"

lemma sep_not_in_cookie: "SEPARATOR \<notin> set PJSIP_RFC3261_BRANCH_ID"
  by (simp add: SEPARATOR_def PJSIP_RFC3261_BRANCH_ID_def)

lemma name_not_branch:
  assumes "method_ok m" "cookie_branch b'"
  shows "me_name m @ SEPARATOR # b \<noteq> b'"
proof
  assume e: "me_name m @ SEPARATOR # b = b'"
  have t: "take 7 (me_name m @ SEPARATOR # b) = PJSIP_RFC3261_BRANCH_ID" using assms(2) e by (simp add: cookie_branch_def)
  show False
  proof (cases "length (me_name m) < 7")
    case True
    then have "SEPARATOR \<in> set (take 7 (me_name m @ SEPARATOR # b))" by (simp add: take_Cons')
    then have "SEPARATOR \<in> set PJSIP_RFC3261_BRANCH_ID" unfolding t .
    then show False using sep_not_in_cookie by simp
  next
    case False
    then show False using t assms(1) by (simp add: method_ok_def)
  qed
qed

lemma sep_split: "x \<notin> set xs \<Longrightarrow> x \<notin> set ys \<Longrightarrow> xs @ x # a = ys @ x # b \<longleftrightarrow> xs = ys \<and> a = b"
proof (induction xs arbitrary: ys)
  case Nil
  then show ?case by (cases ys) auto
next
  case (Cons c xs)
  then show ?case by (cases ys) auto
qed

text \<open>
  C8. The key of RFC 3261 identifies a transaction: two keys are equal exactly when the role, the
  branch and the method agree, where INVITE and ACK count as one method. So the ACK to a failure
  response finds the INVITE transaction, and a CANCEL does not.
\<close>

theorem tsx_key_identifies:
  assumes "cookie_branch b" "cookie_branch b'" "method_ok m" "method_ok m'"
  shows "create_tsx_key_3261 rl m b = create_tsx_key_3261 rl' m' b' \<longleftrightarrow>
    rl = rl' \<and> b = b' \<and>
    (me_id m \<in> {PJSIP_INVITE_METHOD, PJSIP_ACK_METHOD} \<and> me_id m' \<in> {PJSIP_INVITE_METHOD, PJSIP_ACK_METHOD} \<or>
     me_id m \<notin> {PJSIP_INVITE_METHOD, PJSIP_ACK_METHOD} \<and> me_id m' \<notin> {PJSIP_INVITE_METHOD, PJSIP_ACK_METHOD} \<and>
       me_name m = me_name m')"
proof -
  have r: "role_byte rl = role_byte rl' \<longleftrightarrow> rl = rl'" by (cases rl; cases rl') (simp_all add: role_byte_def)
  show ?thesis
    using name_not_branch[OF assms(3,2)] name_not_branch[OF assms(4,1)] assms(3,4) sep_split[of SEPARATOR "me_name m" "me_name m'" b b']
    unfolding create_tsx_key_3261_def method_part_def
    by (auto simp: r method_ok_def)
qed

definition sample_branch :: bytes where
  "sample_branch = PJSIP_RFC3261_BRANCH_ID @ [49, 50]"

theorem tsx_key_identifies_witness:
  "create_tsx_key_3261 PJSIP_ROLE_UAS \<lparr>me_id = PJSIP_ACK_METHOD, me_name = [65, 67, 75]\<rparr> sample_branch =
     create_tsx_key_3261 PJSIP_ROLE_UAS \<lparr>me_id = PJSIP_INVITE_METHOD, me_name = [73]\<rparr> sample_branch \<and>
   create_tsx_key_3261 PJSIP_ROLE_UAS \<lparr>me_id = PJSIP_CANCEL_METHOD, me_name = [67]\<rparr> sample_branch \<noteq>
     create_tsx_key_3261 PJSIP_ROLE_UAS \<lparr>me_id = PJSIP_INVITE_METHOD, me_name = [73]\<rparr> sample_branch"
  using tsx_key_identifies[of sample_branch sample_branch "\<lparr>me_id = PJSIP_ACK_METHOD, me_name = [65, 67, 75]\<rparr>"
      "\<lparr>me_id = PJSIP_INVITE_METHOD, me_name = [73]\<rparr>" PJSIP_ROLE_UAS PJSIP_ROLE_UAS]
    tsx_key_identifies[of sample_branch sample_branch "\<lparr>me_id = PJSIP_CANCEL_METHOD, me_name = [67]\<rparr>"
      "\<lparr>me_id = PJSIP_INVITE_METHOD, me_name = [73]\<rparr>" PJSIP_ROLE_UAS PJSIP_ROLE_UAS]
  by (simp add: cookie_branch_def sample_branch_def method_ok_def SEPARATOR_def PJSIP_RFC3261_BRANCH_ID_def)

section \<open>Dispatch\<close>

lemma create_key_3261:
  "rd_branch rdata = Some b \<Longrightarrow> cookie_branch b \<Longrightarrow>
   pjsip_tsx_create_key rl m rdata = Inr (create_tsx_key_3261 rl m b, False)"
proof -
  assume b: "rd_branch rdata = Some b" "cookie_branch b"
  then have "length (take 7 b) = 7" by (simp add: cookie_branch_def cookie_length)
  then have "take 7 (b @ rd_after rdata) = take 7 b" by simp
  then show ?thesis using b by (simp add: pjsip_tsx_create_key_def cookie_branch_def)
qed

lemma deliver_found:
  assumes "rd_cseq rdata = Some (m, n)" "pjsip_tsx_create_key rl m rdata = Inr (key, w)" "find_tsx L key = Some a"
    "state (objs L a) \<noteq> PJSIP_TSX_STATE_TERMINATED"
  shows "deliver L rl rdata = Some (run_tsx L a (\<lambda>t. pjsip_tsx_recv_msg t (rd_msg rdata)), True)"
  using assms by (simp add: deliver_def find_tsx_lookup find_hash_lookup)

lemma deliver_not_found:
  assumes "rd_cseq rdata = Some (m, n)" "pjsip_tsx_create_key rl m rdata = Inr (key, w)" "find_tsx L key = None"
  shows "deliver L rl rdata = Some (L, False)"
  using assms by (simp add: deliver_def find_tsx_lookup find_hash_lookup)

text \<open>
  C7. A client transaction gets its responses, and only while it is in the table. Creating it for a
  request registers a transaction in its initial state under a key that leaves all other keys alone;
  a response with its branch and the method of the request is handed to it, and once it has
  been destroyed the same response is left to the other modules.
\<close>

theorem client_gets_its_responses:
  assumes ok: "table_ok L"
    and req: "m_type (td_msg (ur_tdata req)) = PJSIP_REQUEST_MSG" "me_id (ur_method req) \<noteq> PJSIP_ACK_METHOD" "ur_cseq req \<noteq> None"
    and br: "b = (if ur_branch req = [] then PJSIP_RFC3261_BRANCH_ID @ [80, 106] @ guid else ur_branch req)" "cookie_branch b"
    and rsp: "rd_cseq rdata = Some (ur_method req, n)" "rd_branch rdata = Some b"
  shows "\<exists>L1 a. pjsip_tsx_create_uac L user req guid (Inr rel) = (L1, Inr a) \<and> table_ok L1 \<and>
     state (objs L1 a) = PJSIP_TSX_STATE_NULL \<and> role (objs L1 a) = PJSIP_ROLE_UAC \<and> registered (objs L1 a) \<and>
     (\<forall>k. k \<noteq> tkey L1 a \<longrightarrow> find_tsx L1 k = find_tsx L k) \<and>
     mod_tsx_layer_on_rx_response L1 rdata = Some (run_tsx L1 a (\<lambda>t. pjsip_tsx_recv_msg t (rd_msg rdata)), True) \<and>
     (\<forall>f. unregister_calls (f (objs L1 a)) > unregister_calls (objs L1 a) \<longrightarrow>
        mod_tsx_layer_on_rx_response (run_tsx L1 a f) rdata = Some (run_tsx L1 a f, False))"
proof -
  define key where "key = create_tsx_key_3261 PJSIP_ROLE_UAC (ur_method req) b"
  define t where "t = (td_add_ref ((tsx_create user)\<lparr>role := PJSIP_ROLE_UAC, tsx_method := me_id (ur_method req),
                  state := PJSIP_TSX_STATE_NULL, last_tx := Some (ur_tdata req)\<rparr>) (ur_tdata req))\<lparr>is_reliable := rel\<rparr>"
  define a where "a = next_obj L"
  define L0 where "L0 = new_tsx L t key"
  define L1 where "L1 = mod_tsx_layer_register_tsx L0 a"
  have c: "pjsip_tsx_create_uac L user req guid (Inr rel) = (L1, Inr a)"
    using req by (simp add: pjsip_tsx_create_uac_def Let_def L1_def L0_def a_def t_def key_def br(1))
  have L0: "table_ok L0" "a < next_obj L0" "tkey L0 a = key" "objs L0 a = t" "find_tsx L0 k = find_tsx L k" for k
    using new_tsx_table(1)[OF ok] new_tsx_table(2) by (simp_all add: L0_def a_def) (simp_all add: new_tsx_def)
  note R = register_table[OF L0(1,2)]
  have L1: "table_ok L1" "a < next_obj L1" "tkey L1 a = key" "objs L1 a = t\<lparr>registered := True\<rparr>"
    "find_tsx L1 k = (if k = key then Some a else find_tsx L k)" for k
    using R L0 by (simp_all add: L1_def) (simp_all add: mod_tsx_layer_register_tsx_def)
  have t: "state t = PJSIP_TSX_STATE_NULL" "role t = PJSIP_ROLE_UAC" by (simp_all add: t_def td_add_ref_def)
  have k: "pjsip_tsx_create_key PJSIP_ROLE_UAC (ur_method req) rdata = Inr (key, False)"
    using create_key_3261[OF rsp(2) br(2)] by (simp add: key_def)
  have d: "mod_tsx_layer_on_rx_response L1 rdata = Some (run_tsx L1 a (\<lambda>t. pjsip_tsx_recv_msg t (rd_msg rdata)), True)"
    unfolding mod_tsx_layer_on_rx_response_def by (rule deliver_found[OF rsp(1) k]) (use L1 t in simp_all)
  have g: "mod_tsx_layer_on_rx_response (run_tsx L1 a f) rdata = Some (run_tsx L1 a f, False)"
    if "unregister_calls (f (objs L1 a)) > unregister_calls (objs L1 a)" for f
    unfolding mod_tsx_layer_on_rx_response_def
    by (rule deliver_not_found[OF rsp(1) k]) (use run_table(2)[OF L1(1,2), of f key] L1(3) that in simp)
  show ?thesis using c L1 t d g by (intro exI[of _ L1] exI[of _ a]) simp
qed

definition sample_layer :: tsx_layer where
  "sample_layer = \<lparr>htable = \<lparr>ht_table = replicate 16 [], ht_count = 0, ht_rows = 15\<rparr>, objs = (\<lambda>_. tsx_create True),
     tkey = (\<lambda>_. []), hashed_key = (\<lambda>_. 0), next_obj = 0, layer_open = True\<rparr>"

lemma sample_layer_ok: "table_ok sample_layer"
proof -
  have h: "htable sample_layer = \<lparr>ht_table = replicate 16 [], ht_count = 0, ht_rows = 15\<rparr>" by (simp add: sample_layer_def)
  have r: "(15::nat) = 2 ^ 4 - 1" by simp
  have inv: "ht_inv (htable sample_layer)"
    unfolding h using r by (auto simp: ht_inv_def sum_list_replicate intro: exI[of _ 4])
  have "ht_lookup (htable sample_layer) x = None" for x
    using ht_inv_row[OF inv, of "fst x"] by (cases x) (simp add: ht_lookup_def h chain_map_def)
  then show ?thesis using inv by (simp add: table_ok_def sample_layer_def)
qed

definition sample_invite :: uac_request where
  "sample_invite = \<lparr>ur_tdata = \<lparr>td_id = 1, td_msg = \<lparr>m_type = PJSIP_REQUEST_MSG, m_method = PJSIP_INVITE_METHOD,
     m_code = 0, m_reason = [], m_cseq_method = PJSIP_INVITE_METHOD\<rparr>\<rparr>,
     ur_method = \<lparr>me_id = PJSIP_INVITE_METHOD, me_name = [73, 78, 86]\<rparr>, ur_cseq = Some 1, ur_branch = []\<rparr>"

definition sample_rx :: "msg_type \<Rightarrow> method_id \<Rightarrow> bytes option \<Rightarrow> rx_data" where
  "sample_rx ty me b = \<lparr>rd_msg = \<lparr>m_type = ty, m_method = me, m_code = 180, m_reason = [], m_cseq_method = me\<rparr>,
     rd_req_method = \<lparr>me_id = me, me_name = [73, 78, 86]\<rparr>,
     rd_cseq = Some (\<lparr>me_id = me, me_name = [73, 78, 86]\<rparr>, 1), rd_via = True, rd_branch = b, rd_after = [59],
     rd_host = [104], rd_port = 5060, rd_from_tag = Some [116], rd_cid = [99]\<rparr>"

theorem client_gets_its_responses_witness:
  "\<exists>L1 a. pjsip_tsx_create_uac sample_layer True sample_invite [120] (Inr False) = (L1, Inr a) \<and>
     mod_tsx_layer_on_rx_response L1 (sample_rx PJSIP_RESPONSE_MSG PJSIP_INVITE_METHOD
       (Some (PJSIP_RFC3261_BRANCH_ID @ [80, 106, 120]))) \<noteq> None"
  using client_gets_its_responses[OF sample_layer_ok, of sample_invite "PJSIP_RFC3261_BRANCH_ID @ [80, 106, 120]" "[120]"
      "sample_rx PJSIP_RESPONSE_MSG PJSIP_INVITE_METHOD (Some (PJSIP_RFC3261_BRANCH_ID @ [80, 106, 120]))" 1 True False]
  by (fastforce simp: sample_invite_def sample_rx_def cookie_branch_def PJSIP_RFC3261_BRANCH_ID_def)

text \<open>
  C38. A destroyed transaction whose send is still in progress is taken out of the table a second time
  when that send succeeds, by its key: a transaction that has been created under the same key in the meantime
  (for the same request received again) is taken out of the table although it is in use, and its messages no longer reach it.
\<close>

theorem late_callback_unregisters_successor:
  assumes ok: "table_ok L" and a: "a < next_obj L" and b: "find_tsx L (tkey L a) = Some b" "b \<noteq> a"
    and t: "state (objs L a) = PJSIP_TSX_STATE_DESTROYED" "has_pending_destroy (objs L a)"
    and r: "0 < sr_sent r" "sr_transport r \<noteq> None"
  shows "let L' = run_tsx L a (\<lambda>t. send_msg_callback t d r)
     in find_tsx L' (tkey L a) = None \<and> objs L' b = objs L b \<and> tkey L' b = tkey L a"
proof -
  let ?t = "objs L a"
  define v where "v = (adopt_transport ?t r)\<lparr>has_pending_transport := False, has_resolved_server := True\<rparr>"
  have c: "core v = core ?t" by (simp add: v_def adopt_core)
  have u: "unregister_calls v = unregister_calls ?t"
    by (simp add: v_def adopt_transport_def take_transport_def release_transport_def split: option.split)
  have e: "send_msg_callback ?t d r = tsx_set_state v PJSIP_TSX_STATE_DESTROYED Src_Unknown"
    using r(1) t(2) coreD(12)[OF c] by (simp add: send_msg_callback_def send_msg_callback_with_def Let_def v_def[symmetric])
  have d: "unregister_calls (fst (tsx_destroy w)) = unregister_calls w" for w
    by (simp add: tsx_destroy_def Let_def release_transport_def cancel_timeout_def cancel_retransmit_def td_dec_ref_def
        split: option.split)
  have "unregister_calls (send_msg_callback ?t d r) > unregister_calls ?t"
    unfolding e by (simp add: tsx_set_state_def Let_def emit_def d u)
  then show ?thesis
    using run_table(2)[OF ok a, of "\<lambda>t. send_msg_callback t d r" "tkey L a"] b find_tsx_key[OF ok b(1)]
    by (simp add: Let_def run_tsx_def mod_tsx_layer_unregister_tsx_def)
qed

text \<open>Two transactions with the same key: the first destroyed with its send in progress, the second registered.\<close>

definition sample_successor :: tsx_layer where
  "sample_successor = mod_tsx_layer_register_tsx (new_tsx
     (new_tsx sample_layer ((tsx_create True)\<lparr>state := PJSIP_TSX_STATE_DESTROYED, has_pending_transport := True,
        has_pending_destroy := True\<rparr>) [115, 36]) (tsx_create True) [115, 36]) 1"

theorem late_callback_unregisters_successor_witness:
  "find_tsx sample_successor [115, 36] = Some 1 \<and>
   find_tsx (run_tsx sample_successor 0 (\<lambda>t. send_msg_callback t \<lparr>td_id = 1, td_msg = rd_msg (sample_rx PJSIP_RESPONSE_MSG PJSIP_BYE_METHOD None)\<rparr>
     \<lparr>sr_transport = Some \<lparr>tp_id = 7, tp_reliable = False\<rparr>, sr_addr = 0, sr_sent = 1, sr_cont = False\<rparr>)) [115, 36] = None"
proof -
  define L0 where "L0 = new_tsx (new_tsx sample_layer ((tsx_create True)\<lparr>state := PJSIP_TSX_STATE_DESTROYED, has_pending_transport := True,
        has_pending_destroy := True\<rparr>) [115, 36]) (tsx_create True) [115, 36]"
  have ok: "table_ok L0" unfolding L0_def by (intro new_tsx_table(1) sample_layer_ok)
  have L0: "table_ok L0" "1 < next_obj L0" "tkey L0 1 = [115, 36]" "tkey L0 0 = [115, 36]" "next_obj L0 = 2"
    "state (objs L0 0) = PJSIP_TSX_STATE_DESTROYED" "has_pending_destroy (objs L0 0)"
    using ok by (simp_all add: L0_def new_tsx_def sample_layer_def)
  have s: "sample_successor = mod_tsx_layer_register_tsx L0 1" by (simp add: sample_successor_def L0_def)
  note R = register_table[OF L0(1,2)]
  have ss: "table_ok sample_successor" "0 < next_obj sample_successor" "tkey sample_successor 0 = [115, 36]"
    "find_tsx sample_successor [115, 36] = Some 1" "state (objs sample_successor 0) = PJSIP_TSX_STATE_DESTROYED"
    "has_pending_destroy (objs sample_successor 0)"
    using R L0 by (simp_all add: s) (simp_all add: mod_tsx_layer_register_tsx_def)
  show ?thesis using late_callback_unregisters_successor[OF ss(1,2) _ _ ss(5,6), of 1
      "\<lparr>sr_transport = Some \<lparr>tp_id = 7, tp_reliable = False\<rparr>, sr_addr = 0, sr_sent = 1, sr_cont = False\<rparr>"] ss
    by (simp add: Let_def)
qed

section \<open>The buffer of the RFC 2543 key\<close>

text \<open>
  The key for peers without the branch cookie: the buffer has room for the key exactly when the name
  of the method (with its separator), the CSeq number and the port take at most 26 bytes. With a
  32-bit CSeq number and a 16-bit port an INVITE always fits, and so does a method name of up to ten bytes; the
  length of the name itself is not part of the size that is allocated, so that a longer name is
  written beyond the end.
\<close>

theorem tsx_key_2543_buffer:
  assumes "rd_via rdata" "rd_cseq rdata = Some (cm, cseq)" "rd_from_tag rdata = Some tag"
  shows "\<exists>key over. create_tsx_key_2543 rl m rdata = Inr (key, over) \<and>
     (over \<longleftrightarrow> 26 < length (method_part m) + length (pj_utoa cseq) + length (pj_utoa (rd_port rdata))) \<and>
     (cseq < 2 ^ 32 \<and> rd_port rdata < 2 ^ 16 \<and>
        (me_id m \<in> {PJSIP_INVITE_METHOD, PJSIP_ACK_METHOD} \<or> length (me_name m) \<le> 10) \<longrightarrow> \<not> over) \<and>
     (me_id m \<notin> {PJSIP_INVITE_METHOD, PJSIP_ACK_METHOD} \<and> 24 \<le> length (me_name m) \<longrightarrow> over)"
proof -
  define key where "key = [role_byte rl, SEPARATOR] @ method_part m @ bytes_of (pj_utoa cseq) @ [SEPARATOR] @
     tag @ [SEPARATOR] @ rd_cid rdata @ [SEPARATOR] @ rd_host rdata @ [58] @ bytes_of (pj_utoa (rd_port rdata)) @ [SEPARATOR] @ [0]"
  define over where "over = (length key > 9 + length tag + length (rd_cid rdata) + length (rd_host rdata) + 9 + 16)"
  have k: "create_tsx_key_2543 rl m rdata = Inr (key, over)"
    using assms by (simp add: create_tsx_key_2543_def Let_def key_def over_def)
  have o: "over \<longleftrightarrow> 26 < length (method_part m) + length (pj_utoa cseq) + length (pj_utoa (rd_port rdata))"
    by (auto simp: over_def key_def)
  have c: "cseq < 2 ^ 32 \<Longrightarrow> length (pj_utoa cseq) \<le> 10" "rd_port rdata < 2 ^ 16 \<Longrightarrow> length (pj_utoa (rd_port rdata)) \<le> 5"
    unfolding length_utoa by (rule utoa_digits_length; simp)+
  have p: "0 < length (pj_utoa n)" for n unfolding length_utoa by (subst utoa_digits.simps) simp
  have m: "length (method_part m) = (if me_id m \<in> {PJSIP_INVITE_METHOD, PJSIP_ACK_METHOD} then 0 else length (me_name m) + 1)"
    by (simp add: method_part_def)
  show ?thesis using k o c m p[of cseq] p[of "rd_port rdata"] by (intro exI[of _ key] exI[of _ over]) (auto simp: not_less simp del: length_greater_0_conv)
qed

theorem tsx_key_2543_buffer_witness:
  "\<exists>key. create_tsx_key_2543 PJSIP_ROLE_UAS \<lparr>me_id = PJSIP_OTHER_METHOD, me_name = replicate 30 65\<rparr>
     (sample_rx PJSIP_REQUEST_MSG PJSIP_OTHER_METHOD None) = Inr (key, True)"
  using tsx_key_2543_buffer[of "sample_rx PJSIP_REQUEST_MSG PJSIP_OTHER_METHOD None" _ _ _ PJSIP_ROLE_UAS
      "\<lparr>me_id = PJSIP_OTHER_METHOD, me_name = replicate 30 65\<rparr>"]
  by (fastforce simp: sample_rx_def)

section \<open>Stopping the layer\<close>

lemma stop_tsx_table:
  assumes "table_ok L" "a < next_obj L"
  shows "table_ok (stop_tsx a L)" "next_obj (stop_tsx a L) = next_obj L" "tkey (stop_tsx a L) = tkey L"
    "find_tsx (stop_tsx a L) k = (if k = tkey L a then None else find_tsx L k)"
proof -
  define L0 where "L0 = mod_tsx_layer_unregister_tsx L a"
  have s: "stop_tsx a L = L0\<lparr>objs := (objs L0)(a := fst (tsx_destroy (objs L0 a)))\<rparr>"
    by (simp add: stop_tsx_def Let_def L0_def)
  have L0: "next_obj L0 = next_obj L" "tkey L0 = tkey L" by (simp_all add: L0_def mod_tsx_layer_unregister_tsx_def)
  show "next_obj (stop_tsx a L) = next_obj L" "tkey (stop_tsx a L) = tkey L" by (simp_all add: s L0)
  show "table_ok (stop_tsx a L)" using unregister_table(1)[OF assms] by (simp add: s L0_def[symmetric] table_ok_def)
  show "find_tsx (stop_tsx a L) k = (if k = tkey L a then None else find_tsx L k)"
    using unregister_table(2)[OF assms, of k] by (simp add: s L0_def[symmetric] pjsip_tsx_layer_find_tsx_def)
qed

lemma stop_fold:
  assumes "table_ok L" "\<forall>a\<in>set as. a < next_obj L"
  shows "table_ok (fold stop_tsx as L) \<and>
    find_tsx (fold stop_tsx as L) k = (if \<exists>a\<in>set as. k = tkey L a then None else find_tsx L k)"
  using assms
proof (induction as arbitrary: L)
  case (Cons a as)
  note S = stop_tsx_table[OF Cons.prems(1), of a]
  have "\<forall>b\<in>set as. b < next_obj (stop_tsx a L)" using Cons.prems(2) S(2) by simp
  from Cons.IH[OF S(1) this] show ?case using Cons.prems(2) S by auto
qed simp

text \<open>The entry of a key, in the chain its hash value selects.\<close>

lemma lookup_entry:
  assumes "ht_inv ht" "ht_lookup ht (h, k) = Some v"
  shows "\<exists>e. e \<in> set (ht_table ht ! (h AND ht_rows ht)) \<and> he_hash e = h \<and> he_key e = k \<and> he_value e = v"
  using assms(2) map_of_SomeD[of "map (\<lambda>e. (entry_id e, he_value e)) (ht_table ht ! (h AND ht_rows ht))" "(h, k)" v]
  by (auto simp: ht_lookup_def chain_map_def entry_id_def)

lemma entry_lookup:
  assumes inv: "ht_inv ht" and i: "i < length (ht_table ht)" "e \<in> set (ht_table ht ! i)"
  shows "ht_lookup ht (he_hash e, he_key e) = Some (he_value e)"
proof -
  have h: "he_hash e AND ht_rows ht = i" and d: "distinct (map entry_id (ht_table ht ! i))"
    using ht_invD(3,4)[OF inv] i by simp_all
  have "map_of (map (\<lambda>e. (entry_id e, he_value e)) (ht_table ht ! i)) (entry_id e) = Some (he_value e)"
    using d i(2) by (intro map_of_is_SomeI) (auto simp: comp_def)
  then show ?thesis by (simp add: ht_lookup_def h chain_map_def entry_id_def)
qed

lemma in_butlast_chains:
  assumes "length xss = r + 1"
  shows "x \<in> set (concat (butlast xss)) \<longleftrightarrow> (\<exists>i<r. x \<in> set (xss ! i))"
proof -
  have "set (butlast xss) = (\<lambda>i. xss ! i) ` {..<r}"
    unfolding butlast_conv_take using assms by (simp add: nth_image lessThan_atLeast0)
  then show ?thesis by auto
qed

lemma table_entry:
  assumes ok: "table_ok L" and i: "i < length (ht_table (htable L))" "e \<in> set (ht_table (htable L) ! i)"
  shows "he_hash e = key_hash (he_key e)" "he_value e < next_obj L" "tkey L (he_value e) = he_key e"
    "find_tsx L (he_key e) = Some (he_value e)"
proof -
  have inv: "ht_inv (htable L)" using ok by (simp add: table_ok_def)
  have "ht_lookup (htable L) (he_hash e, he_key e) = Some (he_value e)" by (rule entry_lookup[OF inv i])
  then show h: "he_hash e = key_hash (he_key e)" "he_value e < next_obj L" "tkey L (he_value e) = he_key e"
    using ok unfolding table_ok_def by blast+
  show "find_tsx L (he_key e) = Some (he_value e)"
    using entry_lookup[OF inv i] h(1) by (simp add: find_tsx_lookup hash_lookup_ht_lookup)
qed

lemma find_entry_in_chain:
  assumes ok: "table_ok L" and k: "find_tsx L k = Some a"
  shows "\<exists>e\<in>set (ht_table (htable L) ! (key_hash k AND ht_rows (htable L))). he_key e = k \<and> he_value e = a"
  using lookup_entry[of "htable L" "key_hash k" k a] assms
  unfolding table_ok_def find_tsx_lookup hash_lookup_ht_lookup by blast

text \<open>What is left in the table after the stop: the transactions of the last chain.\<close>

lemma stop_find:
  assumes ok: "table_ok L"
  shows "table_ok (mod_tsx_layer_stop L)"
    "find_tsx L k = Some a \<Longrightarrow> find_tsx (mod_tsx_layer_stop L) k =
       (if key_hash k AND ht_rows (htable L) = ht_rows (htable L) then Some a else None)"
    "find_tsx (mod_tsx_layer_stop L) k = Some a \<Longrightarrow> find_tsx L k = Some a"
proof -
  let ?ht = "htable L" and ?L' = "mod_tsx_layer_stop L" and ?i = "key_hash k AND ht_rows (htable L)"
  define vs where "vs = map he_value (concat (butlast (ht_table ?ht)))"
  have inv: "ht_inv ?ht" using ok by (simp add: table_ok_def)
  note D = ht_invD[OF inv]
  have bl: "v \<in> set vs \<longleftrightarrow> (\<exists>i<ht_rows ?ht. \<exists>e\<in>set (ht_table ?ht ! i). v = he_value e)" for v
    using in_butlast_chains[OF D(1)] unfolding vs_def set_map by blast
  have e: "?L' = fold stop_tsx vs L"
    unfolding mod_tsx_layer_stop_def vs_def by (simp add: hash_iterate_first[OF inv])
  have "\<forall>a\<in>set vs. a < next_obj L"
    using bl table_entry(2)[OF ok] D(1) by (metis less_SucI Suc_eq_plus1)
  note F = stop_fold[OF ok this, folded e]
  show "table_ok ?L'" using F by simp
  show "find_tsx ?L' k = Some a \<Longrightarrow> find_tsx L k = Some a" using F[of k] by (simp split: if_splits)
  assume k: "find_tsx L k = Some a"
  obtain x where x: "x \<in> set (ht_table ?ht ! ?i)" "he_key x = k" using find_entry_in_chain[OF ok k] by blast
  have i: "?i < length (ht_table ?ht)" by (rule ht_inv_row[OF inv])
  have "(\<exists>b\<in>set vs. k = tkey L b) \<longleftrightarrow> ?i \<noteq> ht_rows ?ht"
  proof
    assume "\<exists>b\<in>set vs. k = tkey L b"
    then obtain j y where j: "j < ht_rows ?ht" "y \<in> set (ht_table ?ht ! j)" "k = tkey L (he_value y)" using bl by auto
    then have jl: "j < length (ht_table ?ht)" using D(1) by simp
    show "?i \<noteq> ht_rows ?ht" using D(3)[OF jl j(2)] table_entry(1,3)[OF ok jl j(2)] j(1,3) by simp
  next
    assume "?i \<noteq> ht_rows ?ht"
    then have "?i < ht_rows ?ht" using i D(1) by simp
    then have "he_value x \<in> set vs" using bl[of "he_value x"] x(1) by blast
    moreover have "k = tkey L (he_value x)" using table_entry(3)[OF ok i x(1)] x(2) by simp
    ultimately show "\<exists>b\<in>set vs. k = tkey L b" by blast
  qed
  then show "find_tsx ?L' k = (if ?i = ht_rows ?ht then Some a else None)" using F[of k] k by simp
qed

lemma table_dom: "table_ok L \<Longrightarrow> dom (ht_lookup (htable L)) = {(key_hash k, k) |k. find_tsx L k \<noteq> None}"
  by (auto simp: table_ok_def find_tsx_lookup hash_lookup_ht_lookup dom_def)

text \<open>
  Stopping the layer destroys the transactions of every chain of the table but the last: those are
  still found under their keys afterwards, and the layer then refuses to be unloaded.
\<close>

theorem layer_stop_incomplete:
  assumes ok: "table_ok L" and few: "length (concat (ht_table (htable L))) < 2 ^ 32"
  shows "table_ok (mod_tsx_layer_stop L) \<and>
    (\<forall>k a. find_tsx L k = Some a \<longrightarrow>
       find_tsx (mod_tsx_layer_stop L) k =
         (if key_hash k AND ht_rows (htable L) = ht_rows (htable L) then Some a else None)) \<and>
    (snd (mod_tsx_layer_unload (mod_tsx_layer_stop L)) = SIP_EBUSY \<longleftrightarrow> last (ht_table (htable L)) \<noteq> [])"
proof -
  let ?ht = "htable L" and ?L' = "mod_tsx_layer_stop L"
  have inv: "ht_inv ?ht" using ok by (simp add: table_ok_def)
  note D = ht_invD[OF inv] and S = stop_find[OF ok]
  have inv': "ht_inv (htable ?L')" using S(1) by (simp add: table_ok_def)
  have last: "last (ht_table ?ht) = ht_table ?ht ! ht_rows ?ht"
    using D(1) by (metis add_diff_cancel_right' last_conv_nth length_0_conv add_is_0 one_neq_zero)
  have fin: "finite (dom (ht_lookup ?ht))" unfolding dom_ht_lookup[OF inv] by simp
  have sub: "dom (ht_lookup (htable ?L')) \<subseteq> dom (ht_lookup ?ht)"
    unfolding table_dom[OF ok] table_dom[OF S(1)] using S(3) by blast
  have ne: "dom (ht_lookup (htable ?L')) \<noteq> {} \<longleftrightarrow> last (ht_table ?ht) \<noteq> []"
  proof
    assume "dom (ht_lookup (htable ?L')) \<noteq> {}"
    then obtain k a where k: "find_tsx ?L' k = Some a" unfolding table_dom[OF S(1)] by blast
    have "key_hash k AND ht_rows ?ht = ht_rows ?ht" using S(2)[OF S(3)[OF k]] k by (simp split: if_splits)
    then show "last (ht_table ?ht) \<noteq> []" using find_entry_in_chain[OF ok S(3)[OF k]] unfolding last by auto
  next
    assume "last (ht_table ?ht) \<noteq> []"
    then obtain x where x: "x \<in> set (ht_table ?ht ! ht_rows ?ht)" unfolding last by (meson last_in_set)
    have r: "ht_rows ?ht < length (ht_table ?ht)" using D(1) by simp
    have "key_hash (he_key x) AND ht_rows ?ht = ht_rows ?ht" using D(3)[OF r x] table_entry(1)[OF ok r x] by simp
    then have "find_tsx ?L' (he_key x) \<noteq> None" using S(2)[OF table_entry(4)[OF ok r x]] by simp
    then show "dom (ht_lookup (htable ?L')) \<noteq> {}" unfolding table_dom[OF S(1)] by blast
  qed
  have "card (dom (ht_lookup (htable ?L'))) < 2 ^ 32"
    using card_mono[OF fin sub] sum_lengths_card[OF inv] few by (simp add: length_concat)
  then have "pj_hash_count (htable ?L') = card (dom (ht_lookup (htable ?L')))"
    using ht_invD(2)[OF inv'] sum_lengths_card[OF inv'] by (simp add: pj_hash_count_def u32_def)
  then have "snd (mod_tsx_layer_unload ?L') = SIP_EBUSY \<longleftrightarrow> last (ht_table ?ht) \<noteq> []"
    using ne finite_subset[OF sub fin] by (simp add: mod_tsx_layer_unload_def)
  then show ?thesis using S(1,2) by blast
qed

text \<open>A transaction whose key falls into the last chain.\<close>

definition sample_last :: tsx_layer where
  "sample_last = mod_tsx_layer_register_tsx (new_tsx sample_layer (tsx_create True) [111]) 0"

theorem layer_stop_incomplete_witness:
  "find_tsx (mod_tsx_layer_stop sample_last) [111] = Some 0"
proof -
  define L0 where "L0 = new_tsx sample_layer (tsx_create True) [111]"
  have ok: "table_ok L0" unfolding L0_def by (intro new_tsx_table(1) sample_layer_ok)
  have L0: "0 < next_obj L0" "tkey L0 0 = [111]" by (simp_all add: L0_def new_tsx_def sample_layer_def)
  have s: "sample_last = mod_tsx_layer_register_tsx L0 0" by (simp add: sample_last_def L0_def)
  note R = register_table[OF ok L0(1)]
  have inv: "ht_inv (htable L0)" using ok by (simp add: table_ok_def)
  have h: "htable sample_last = hash_put (htable L0) [111] (Some 0)"
    using ok L0 hash_set_precalc[of "htable L0" "[111]" "Some 0"]
    by (simp add: s mod_tsx_layer_register_tsx_def table_ok_def)
  have inv': "ht_inv (htable sample_last)" unfolding h by (rule hs.put_inv[OF inv])
  have l: "ht_lookup (htable sample_last) = [(key_hash [111], [111]) \<mapsto> 0]"
  proof -
    have "ht_lookup (htable L0) x = None" for x
      using ht_inv_row[OF inv, of "fst x"] by (cases x) (simp add: ht_lookup_def L0_def new_tsx_def sample_layer_def chain_map_def)
    then show ?thesis unfolding h put_lookup[OF inv] by (simp add: fun_eq_iff)
  qed
  have few: "length (concat (ht_table (htable sample_last))) < 2 ^ 32"
    using sum_lengths_card[OF inv'] by (simp add: l length_concat)
  have rows: "ht_rows (htable sample_last) = 15"
    unfolding h hash_put_def hash_set_chain(2)[OF inv] by (simp add: L0_def new_tsx_def sample_layer_def)
  have k: "key_hash [111] AND 15 = 15" by (simp add: pj_hash_calc_def key_bytes_def PJ_HASH_MULTIPLIER_def u32_def)
  have f: "find_tsx sample_last [111] = Some 0" using R(2)[of "[111]"] L0(2) by (simp add: s)
  have "find_tsx (mod_tsx_layer_stop sample_last) [111] =
      (if key_hash [111] AND ht_rows (htable sample_last) = ht_rows (htable sample_last) then Some 0 else None)"
    using layer_stop_incomplete[of sample_last] R(1) few f by (simp add: s)
  then show ?thesis using rows k by simp
qed

end
