(* ===== verification/Pj_Scanner.thy ===== *)
theory Pj_Scanner
  imports Pj_String "HOL-Library.Monad_Syntax"
begin

unbundle bit_operations_syntax

text \<open>
  The text scanner of \<^verbatim>\<open>pjlib-util/src/pjlib-util/scanner.c\<close>. The input buffer ends with a zero, as the
  scanner demands. The state is the part of the buffer from \<^verbatim>\<open>curptr\<close> to \<^verbatim>\<open>end\<close> and the option word; the line
  counter and the start of the line serve only the text of a log message and are left out. A syntax error calls
  the callback, which throws: the value \<open>None\<close>.
\<close>

section \<open>Character specifications\<close>

type_synonym cis = "char \<Rightarrow> bool"

definition pj_cis_init :: cis where
  "pj_cis_init = (\<lambda>_. False)"

definition pj_cis_add_range :: "cis \<Rightarrow> nat \<Rightarrow> nat \<Rightarrow> cis" where
  "pj_cis_add_range spec cstart cend = (\<lambda>c. cstart \<le> of_char c \<and> of_char c < cend \<or> spec c)"

definition pj_cis_add_alpha :: "cis \<Rightarrow> cis" where
  "pj_cis_add_alpha spec = pj_cis_add_range (pj_cis_add_range spec 97 (122 + 1)) 65 (90 + 1)"

definition pj_cis_add_num :: "cis \<Rightarrow> cis" where
  "pj_cis_add_num spec = pj_cis_add_range spec 48 (57 + 1)"

definition pj_cis_add_str :: "cis \<Rightarrow> string \<Rightarrow> cis" where
  "pj_cis_add_str spec str = (\<lambda>c. c \<in> set str \<or> spec c)"

section \<open>The scanner\<close>

record scanner =
  curptr :: string
  skip_ws :: nat

abbreviation (input) PJ_SCAN_AUTOSKIP_WS :: nat where "PJ_SCAN_AUTOSKIP_WS \<equiv> 1"
abbreviation (input) PJ_SCAN_AUTOSKIP_WS_HEADER :: nat where "PJ_SCAN_AUTOSKIP_WS_HEADER \<equiv> 3"
abbreviation (input) PJ_SCAN_AUTOSKIP_NEWLINE :: nat where "PJ_SCAN_AUTOSKIP_NEWLINE \<equiv> 4"

abbreviation (input) CR :: char where "CR \<equiv> CHR 0x0D"
abbreviation (input) LF :: char where "LF \<equiv> CHR 0x0A"
abbreviation (input) HTAB :: char where "HTAB \<equiv> CHR 0x09"
abbreviation (input) SP :: char where "SP \<equiv> CHR '' ''"

definition PJ_SCAN_IS_SPACE :: "char \<Rightarrow> bool" where
  "PJ_SCAN_IS_SPACE c \<longleftrightarrow> c = SP \<or> c = HTAB"

definition PJ_SCAN_IS_NEWLINE :: "char \<Rightarrow> bool" where
  "PJ_SCAN_IS_NEWLINE c \<longleftrightarrow> c = CR \<or> c = LF"

definition PJ_SCAN_IS_PROBABLY_SPACE :: "char \<Rightarrow> bool" where
  "PJ_SCAN_IS_PROBABLY_SPACE c \<longleftrightarrow> schar c \<le> 32"

text \<open>The character \<open>n\<close> places behind \<^verbatim>\<open>curptr\<close>; behind the end stands the terminating zero.\<close>

definition peek_at :: "string \<Rightarrow> nat \<Rightarrow> char" where
  "peek_at s n = (if n < length s then s ! n else NUL)"

abbreviation peek :: "scanner \<Rightarrow> char" where
  "peek sc \<equiv> peek_at (curptr sc) 0"

definition pj_scan_is_eof :: "scanner \<Rightarrow> bool" where
  "pj_scan_is_eof sc \<longleftrightarrow> curptr sc = []"

primrec skip_newlines :: "string \<Rightarrow> string" where
  "skip_newlines [] = []"
| "skip_newlines (c # s) = (if c = CR \<or> c = LF \<or> PJ_SCAN_IS_SPACE c then skip_newlines s else c # s)"

definition header_continuation :: "string \<Rightarrow> string" where
  "header_continuation s =
     (let s1 = (if peek_at s 0 = CR then tl s else s);
          s2 = (if peek_at s1 0 = LF then tl s1 else s1)
      in if PJ_SCAN_IS_SPACE (peek_at s2 0) then dropWhile PJ_SCAN_IS_SPACE s2 else s)"

definition pj_scan_skip_whitespace :: "scanner \<Rightarrow> scanner" where
  "pj_scan_skip_whitespace sc =
     (let s = dropWhile PJ_SCAN_IS_SPACE (curptr sc);
          s1 = (if PJ_SCAN_IS_NEWLINE (peek_at s 0) \<and> skip_ws sc AND PJ_SCAN_AUTOSKIP_NEWLINE \<noteq> 0
                then skip_newlines s else s)
      in sc\<lparr>curptr := (if PJ_SCAN_IS_NEWLINE (peek_at s1 0) \<and>
                         skip_ws sc AND PJ_SCAN_AUTOSKIP_WS_HEADER = PJ_SCAN_AUTOSKIP_WS_HEADER
                       then header_continuation s1 else s1)\<rparr>)"

text \<open>How every reading operation ends: the pointer moves to \<open>s\<close> and white space is skipped if asked for.\<close>

definition move_to :: "bool \<Rightarrow> scanner \<Rightarrow> string \<Rightarrow> scanner" where
  "move_to skip sc s =
     (let sc' = sc\<lparr>curptr := s\<rparr>
      in if PJ_SCAN_IS_PROBABLY_SPACE (peek_at s 0) \<and> skip then pj_scan_skip_whitespace sc' else sc')"

abbreviation scan_to :: "scanner \<Rightarrow> string \<Rightarrow> scanner" where
  "scan_to sc s \<equiv> move_to (skip_ws sc \<noteq> 0) sc s"

definition pj_scan_init :: "string \<Rightarrow> nat \<Rightarrow> scanner" where
  "pj_scan_init buf options =
     (let sc = \<lparr>curptr = buf, skip_ws = options\<rparr>
      in if skip_ws sc \<noteq> 0 then pj_scan_skip_whitespace sc else sc)"

definition pj_scan_skip_line :: "scanner \<Rightarrow> scanner" where
  "pj_scan_skip_line sc =
     (let s = dropWhile (\<lambda>c. c \<noteq> LF \<and> c \<noteq> NUL) (curptr sc)
      in sc\<lparr>curptr := (if peek_at s 0 = LF then tl s else [])\<rparr>)"

definition pj_scan_get :: "scanner \<Rightarrow> cis \<Rightarrow> (string \<times> scanner) option" where
  "pj_scan_get sc spec =
     (if \<not> spec (peek sc) then None
      else Some (takeWhile spec (curptr sc), scan_to sc (dropWhile spec (curptr sc))))"

definition pj_scan_get_char :: "scanner \<Rightarrow> (char \<times> scanner) option" where
  "pj_scan_get_char sc =
     (let chr = peek sc in if chr = NUL then None else Some (chr, scan_to sc (tl (curptr sc))))"

definition pj_scan_get_newline :: "scanner \<Rightarrow> scanner option" where
  "pj_scan_get_newline sc =
     (if \<not> PJ_SCAN_IS_NEWLINE (peek sc) then None
      else let s = (if peek sc = CR then tl (curptr sc) else curptr sc)
           in Some (sc\<lparr>curptr := (if peek_at s 0 = LF then tl s else s)\<rparr>))"

definition scan_until :: "cis \<Rightarrow> scanner \<Rightarrow> (string \<times> scanner) option" where
  "scan_until spec sc =
     (if curptr sc = [] then None
      else let go = (\<lambda>c. c \<noteq> NUL \<and> \<not> spec c)
           in Some (takeWhile go (curptr sc), scan_to sc (dropWhile go (curptr sc))))"

definition pj_scan_get_until_ch :: "scanner \<Rightarrow> char \<Rightarrow> (string \<times> scanner) option" where
  "pj_scan_get_until_ch sc until_char = scan_until (\<lambda>c. c = until_char) sc"

definition pj_scan_get_until_chr :: "scanner \<Rightarrow> string \<Rightarrow> (string \<times> scanner) option" where
  "pj_scan_get_until_chr sc until_spec = scan_until (\<lambda>c. c \<in> set until_spec) sc"

definition pj_scan_advance_n :: "scanner \<Rightarrow> nat \<Rightarrow> bool \<Rightarrow> scanner option" where
  "pj_scan_advance_n sc N skip =
     (if N > length (curptr sc) then None else Some (move_to skip sc (drop N (curptr sc))))"

section \<open>No operation moves backwards\<close>

lemma move_to_False [simp]: "move_to False sc s = sc\<lparr>curptr := s\<rparr>"
  by (simp add: move_to_def Let_def)

lemma peek_at_Nil [simp]: "peek_at [] n = NUL"
  by (simp add: peek_at_def)

lemma peek_at_Cons [simp]: "peek_at (c # s) 0 = c" "peek_at (c # s) (Suc n) = peek_at s n"
  by (auto simp: peek_at_def)

lemma length_skip_newlines: "length (skip_newlines s) \<le> length s"
  by (induction s) auto

lemma length_header_continuation: "length (header_continuation s) \<le> length s"
  using length_dropWhile_le[of PJ_SCAN_IS_SPACE "tl s"] length_dropWhile_le[of PJ_SCAN_IS_SPACE "tl (tl s)"]
    length_dropWhile_le[of PJ_SCAN_IS_SPACE s]
  by (auto simp: header_continuation_def Let_def)

lemma skip_whitespace_le: "length (curptr (pj_scan_skip_whitespace sc)) \<le> length (curptr sc)"
proof -
  let ?s = "dropWhile PJ_SCAN_IS_SPACE (curptr sc)"
  have "length ?s \<le> length (curptr sc)" by (rule length_dropWhile_le)
  then show ?thesis
    using length_skip_newlines[of ?s] length_header_continuation[of ?s] length_header_continuation[of "skip_newlines ?s"]
    by (auto simp: pj_scan_skip_whitespace_def Let_def)
qed

lemma skip_ws_skip_whitespace [simp]: "skip_ws (pj_scan_skip_whitespace sc) = skip_ws sc"
  by (simp add: pj_scan_skip_whitespace_def Let_def)

lemma move_to_le: "length (curptr (move_to b sc s)) \<le> length s"
  using skip_whitespace_le[of "sc\<lparr>curptr := s\<rparr>"] by (simp add: move_to_def Let_def)

lemma skip_ws_move_to [simp]: "skip_ws (move_to b sc s) = skip_ws sc"
  by (simp add: move_to_def Let_def)

lemma skip_line_le: "length (curptr (pj_scan_skip_line sc)) \<le> length (curptr sc)"
  using length_dropWhile_le[of "\<lambda>c. c \<noteq> LF \<and> c \<noteq> NUL" "curptr sc"]
  by (auto simp: pj_scan_skip_line_def Let_def)

lemma skip_ws_skip_line [simp]: "skip_ws (pj_scan_skip_line sc) = skip_ws sc"
  by (simp add: pj_scan_skip_line_def Let_def)

lemma scan_get_less:
  assumes "pj_scan_get sc spec = Some (x, sc')" and "\<not> spec NUL"
  shows "length (curptr sc') < length (curptr sc)"
proof -
  obtain c cs where s: "curptr sc = c # cs" "spec c"
    using assms by (cases "curptr sc") (auto simp: pj_scan_get_def split: if_splits)
  have "length (dropWhile spec (c # cs)) \<le> length cs" using s(2) by (simp add: length_dropWhile_le)
  moreover have "sc' = scan_to sc (dropWhile spec (c # cs))" using assms s by (auto simp: pj_scan_get_def)
  ultimately show ?thesis using move_to_le[of "skip_ws sc \<noteq> 0" sc "dropWhile spec (c # cs)"] s by simp
qed

lemma scan_get_char_less:
  assumes "pj_scan_get_char sc = Some (x, sc')" shows "length (curptr sc') < length (curptr sc)"
proof -
  obtain c cs where s: "curptr sc = c # cs" and sc': "sc' = scan_to sc cs"
    using assms by (cases "curptr sc") (auto simp: pj_scan_get_char_def Let_def split: if_splits)
  show ?thesis using move_to_le[of "skip_ws sc \<noteq> 0" sc cs] s sc' by simp
qed

lemma scan_get_newline_less:
  "pj_scan_get_newline sc = Some sc' \<Longrightarrow> length (curptr sc') < length (curptr sc)"
  by (cases "curptr sc"; cases "tl (curptr sc)")
     (auto simp: pj_scan_get_newline_def Let_def PJ_SCAN_IS_NEWLINE_def split: if_splits)

lemma scan_until_le:
  assumes "scan_until spec sc = Some (x, sc')" shows "length (curptr sc') \<le> length (curptr sc)"
proof -
  let ?s = "dropWhile (\<lambda>c. c \<noteq> NUL \<and> \<not> spec c) (curptr sc)"
  have "sc' = scan_to sc ?s" using assms by (auto simp: scan_until_def Let_def split: if_splits)
  then show ?thesis
    using move_to_le[of "skip_ws sc \<noteq> 0" sc ?s] length_dropWhile_le[of "\<lambda>c. c \<noteq> NUL \<and> \<not> spec c" "curptr sc"]
    by simp
qed

lemma until_ch_le: "pj_scan_get_until_ch sc ch = Some (x, sc') \<Longrightarrow> length (curptr sc') \<le> length (curptr sc)"
  unfolding pj_scan_get_until_ch_def by (rule scan_until_le)

lemma until_chr_le: "pj_scan_get_until_chr sc chs = Some (x, sc') \<Longrightarrow> length (curptr sc') \<le> length (curptr sc)"
  unfolding pj_scan_get_until_chr_def by (rule scan_until_le)

lemma advance_n_le:
  assumes "pj_scan_advance_n sc n b = Some sc'" shows "length (curptr sc') + n \<le> length (curptr sc)"
proof -
  have "n \<le> length (curptr sc)" "sc' = move_to b sc (drop n (curptr sc))"
    using assms by (auto simp: pj_scan_advance_n_def split: if_splits)
  then show ?thesis using move_to_le[of b sc "drop n (curptr sc)"] by simp
qed

lemmas scan_consumes = scan_get_char_less scan_get_newline_less until_ch_le until_chr_le advance_n_le

section \<open>Reading back what was written\<close>

text \<open>The operations on an input that starts with the expected text; white space is not skipped.\<close>

lemma takeWhile_stop: "\<forall>x \<in> set a. P x \<Longrightarrow> \<not> P (peek_at r 0) \<Longrightarrow> takeWhile P (a @ r) = a"
  by (cases r) auto

lemma dropWhile_stop: "\<forall>x \<in> set a. P x \<Longrightarrow> \<not> P (peek_at r 0) \<Longrightarrow> dropWhile P (a @ r) = r"
  by (cases r) auto

lemma scan_get_text:
  assumes "a \<noteq> []" "\<forall>x \<in> set a. spec x" "\<not> spec (peek_at r 0)"
  shows "pj_scan_get \<lparr>curptr = a @ r, skip_ws = 0\<rparr> spec = Some (a, \<lparr>curptr = r, skip_ws = 0\<rparr>)"
  using assms takeWhile_stop[of a spec r] dropWhile_stop[of a spec r]
  by (cases a) (auto simp: pj_scan_get_def)

lemma scan_get_char_text [simp]:
  "c \<noteq> NUL \<Longrightarrow> pj_scan_get_char \<lparr>curptr = c # r, skip_ws = 0\<rparr> = Some (c, \<lparr>curptr = r, skip_ws = 0\<rparr>)"
  by (simp add: pj_scan_get_char_def Let_def)

lemma scan_until_text:
  assumes "\<forall>x \<in> set a. x \<noteq> NUL \<and> \<not> spec x" "spec (peek_at r 0)" "r \<noteq> []"
  shows "scan_until spec \<lparr>curptr = a @ r, skip_ws = 0\<rparr> = Some (a, \<lparr>curptr = r, skip_ws = 0\<rparr>)"
  using assms takeWhile_stop[of a "\<lambda>c. c \<noteq> NUL \<and> \<not> spec c" r] dropWhile_stop[of a "\<lambda>c. c \<noteq> NUL \<and> \<not> spec c" r]
  by (simp add: scan_until_def Let_def)

lemma until_ch_text:
  "\<forall>x \<in> set a. x \<noteq> NUL \<and> x \<noteq> ch \<Longrightarrow>
   pj_scan_get_until_ch \<lparr>curptr = a @ ch # r, skip_ws = 0\<rparr> ch = Some (a, \<lparr>curptr = ch # r, skip_ws = 0\<rparr>)"
  unfolding pj_scan_get_until_ch_def by (rule scan_until_text) auto

lemma until_chr_text:
  "\<forall>x \<in> set a. x \<noteq> NUL \<and> x \<notin> set chs \<Longrightarrow> ch \<in> set chs \<Longrightarrow>
   pj_scan_get_until_chr \<lparr>curptr = a @ ch # r, skip_ws = 0\<rparr> chs = Some (a, \<lparr>curptr = ch # r, skip_ws = 0\<rparr>)"
  unfolding pj_scan_get_until_chr_def by (rule scan_until_text) auto

lemma skip_line_text [simp]:
  "pj_scan_skip_line \<lparr>curptr = CR # LF # r, skip_ws = 0\<rparr> = \<lparr>curptr = r, skip_ws = 0\<rparr>"
  by (simp add: pj_scan_skip_line_def Let_def)

lemma get_newline_text [simp]:
  "pj_scan_get_newline \<lparr>curptr = CR # LF # r, skip_ws = 0\<rparr> = Some \<lparr>curptr = r, skip_ws = 0\<rparr>"
  by (simp add: pj_scan_get_newline_def Let_def PJ_SCAN_IS_NEWLINE_def)

lemma advance_2_text [simp]:
  "pj_scan_advance_n \<lparr>curptr = a # b # r, skip_ws = 0\<rparr> 2 False = Some \<lparr>curptr = r, skip_ws = 0\<rparr>"
  by (simp add: pj_scan_advance_n_def numeral_2_eq_2)

end
