(* ===== verification/Sdp_Session.thy ===== *)
theory Sdp_Session
  imports Pj_Scanner
begin

text \<open>
  Session descriptions, \<^verbatim>\<open>pjmedia/src/pjmedia/sdp.c\<close>: the structures of \<^verbatim>\<open>pjmedia/sdp.h\<close>, the attribute
  lists, the \<^verbatim>\<open>rtpmap\<close>, \<^verbatim>\<open>fmtp\<close> and \<^verbatim>\<open>rtcp\<close> values, the printer, the parser and the validation. The
  arrays with their counters are lists; the writes that the code makes behind the end of an array are outcomes of
  their own. Copies made by the clone functions are the values themselves.
\<close>

section \<open>Data\<close>

datatype sdp_error =
    PJMEDIA_SDP_EINSDP | PJMEDIA_SDP_EINVER | PJMEDIA_SDP_EINORIGIN | PJMEDIA_SDP_EINTIME
  | PJMEDIA_SDP_EINNAME | PJMEDIA_SDP_EINCONN | PJMEDIA_SDP_EMISSINGCONN | PJMEDIA_SDP_EINATTR
  | PJMEDIA_SDP_EINRTPMAP | PJMEDIA_SDP_ERTPMAPTOOLONG | PJMEDIA_SDP_EMISSINGRTPMAP
  | PJMEDIA_SDP_EINMEDIA | PJMEDIA_SDP_ENOFMT | PJMEDIA_SDP_EINPT | PJMEDIA_SDP_EINFMTP
  | PJMEDIA_SDP_EINRTCP | PJMEDIA_SDPNEG_EINSTATE | PJMEDIA_SDPNEG_ENOINITIAL
  | PJMEDIA_SDPNEG_ENOACTIVE | PJMEDIA_SDPNEG_ENONEG | PJMEDIA_SDPNEG_EMISMEDIA
  | PJMEDIA_SDPNEG_EINVANSMEDIA | PJMEDIA_SDPNEG_EINVANSTP | PJMEDIA_SDPNEG_EANSNOMEDIA
  | PJMEDIA_SDPNEG_ENOMEDIA | PJMEDIA_SDPNEG_NOANSCODEC | PJMEDIA_SDPNEG_NOANSUNKNOWN
  | SDP_EBUG | SDP_ENOMEM | SDP_EINVAL | SDP_EINVALIDOP | SDP_ETOOMANY | SDP_ENOTFOUND

text \<open>A status: \<open>Inr ()\<close> is \<^verbatim>\<open>PJ_SUCCESS\<close>.\<close>

type_synonym sdp_status = "sdp_error + unit"

abbreviation (input) SUCCESS :: sdp_status where "SUCCESS \<equiv> Inr ()"

record sdp_attr =
  attr_name :: string
  attr_value :: string

record sdp_rtpmap =
  rm_pt :: string
  enc_name :: string
  clock_rate :: "32 word"
  rm_param :: string

record sdp_fmtp =
  fmtp_fmt :: string
  fmt_param :: string

record sdp_rtcp_attr =
  rtcp_port :: "32 word"
  rtcp_net_type :: string
  rtcp_addr_type :: string
  rtcp_addr :: string

record sdp_conn =
  net_type :: string
  addr_type :: string
  addr :: string

record sdp_media =
  media :: string
  port :: "16 word"
  port_count :: "32 word"
  transport :: string
  fmt :: "string list"
  m_conn :: "sdp_conn option"
  m_attr :: "sdp_attr list"

record sdp_origin =
  o_user :: string
  o_id :: "32 word"
  o_version :: "32 word"
  o_net_type :: string
  o_addr_type :: string
  o_addr :: string

record sdp_session =
  origin :: sdp_origin
  s_name :: string
  s_conn :: "sdp_conn option"
  time_start :: "32 word"
  time_stop :: "32 word"
  s_attr :: "sdp_attr list"
  s_media :: "sdp_media list"

definition PJMEDIA_MAX_SDP_FMT :: nat where "PJMEDIA_MAX_SDP_FMT = 32"
definition PJMEDIA_MAX_SDP_ATTR :: nat where "PJMEDIA_MAX_SDP_ATTR = PJMEDIA_MAX_SDP_FMT * 2 + 4"
definition PJMEDIA_MAX_SDP_MEDIA :: nat where "PJMEDIA_MAX_SDP_MEDIA = 16"

definition cs_token :: cis where
  "cs_token = pj_cis_add_str (pj_cis_add_num (pj_cis_add_alpha pj_cis_init))
     (''-.!%*_='' @ [CHR 0x60, CHR 0x27] @ ''~'')"

definition cs_digit :: cis where
  "cs_digit = pj_cis_add_num pj_cis_init"

section \<open>Attributes\<close>

definition pjmedia_sdp_attr_create :: "string \<Rightarrow> string option \<Rightarrow> sdp_attr" where
  "pjmedia_sdp_attr_create name val =
     \<lparr>attr_name = name, attr_value = (case val of Some v \<Rightarrow> v | None \<Rightarrow> [])\<rparr>"

text \<open>
  The searches return the place of the attribute in the array instead of a pointer to it: the pointers of
  an array are distinct, and a pointer is all that is needed to remove the attribute.
\<close>

fun attr_find_from :: "sdp_attr list \<Rightarrow> string \<Rightarrow> 32 word option \<Rightarrow> nat \<Rightarrow> nat option" where
  "attr_find_from [] name c_pt i = None"
| "attr_find_from (a # as) name c_pt i =
     (if pj_strcmp (attr_name a) name = 0 then
        (case c_pt of
           Some pt \<Rightarrow> if pj_strtoul2 (attr_value a) 10 = pt then Some i else attr_find_from as name c_pt (i + 1)
         | None \<Rightarrow> Some i)
      else attr_find_from as name c_pt (i + 1))"

definition pjmedia_sdp_attr_find :: "sdp_attr list \<Rightarrow> string \<Rightarrow> string option \<Rightarrow> nat option" where
  "pjmedia_sdp_attr_find attrs name c_fmt = attr_find_from attrs name (map_option pj_strtoul c_fmt) 0"

definition pjmedia_sdp_media_find_attr2 :: "sdp_media \<Rightarrow> string \<Rightarrow> string option \<Rightarrow> sdp_attr option" where
  "pjmedia_sdp_media_find_attr2 m name c_fmt =
     map_option (\<lambda>i. m_attr m ! i) (pjmedia_sdp_attr_find (m_attr m) name c_fmt)"

definition pjmedia_sdp_attr_add :: "sdp_attr list \<Rightarrow> sdp_attr \<Rightarrow> sdp_status \<times> sdp_attr list" where
  "pjmedia_sdp_attr_add attrs attr =
     (if length attrs < PJMEDIA_MAX_SDP_ATTR then (SUCCESS, attrs @ [attr]) else (Inl SDP_ETOOMANY, attrs))"

definition pj_array_erase :: "'a list \<Rightarrow> nat \<Rightarrow> 'a list" where
  "pj_array_erase xs pos = take pos xs @ drop (pos + 1) xs"

function attr_remove_from :: "sdp_attr list \<Rightarrow> string \<Rightarrow> nat \<Rightarrow> sdp_attr list" where
  "attr_remove_from attrs name i =
     (if i < length attrs then
        if pj_strcmp (attr_name (attrs ! i)) name = 0 then attr_remove_from (pj_array_erase attrs i) name i
        else attr_remove_from attrs name (i + 1)
      else attrs)"
  by auto
termination by (relation "measure (\<lambda>(attrs, _, i). length attrs - i)") (auto simp: pj_array_erase_def)

declare attr_remove_from.simps [simp del]

definition pjmedia_sdp_media_add_attr :: "sdp_media \<Rightarrow> sdp_attr \<Rightarrow> sdp_media" where
  "pjmedia_sdp_media_add_attr m a = m\<lparr>m_attr := snd (pjmedia_sdp_attr_add (m_attr m) a)\<rparr>"

definition pjmedia_sdp_media_remove_all_attr :: "sdp_media \<Rightarrow> string \<Rightarrow> sdp_media" where
  "pjmedia_sdp_media_remove_all_attr m name = m\<lparr>m_attr := attr_remove_from (m_attr m) name 0\<rparr>"

text \<open>Find an attribute and remove it, as the negotiator does for the attributes of a format.\<close>

definition remove_found_attr :: "sdp_media \<Rightarrow> string \<Rightarrow> string option \<Rightarrow> sdp_media" where
  "remove_found_attr m name c_fmt =
     (case pjmedia_sdp_attr_find (m_attr m) name c_fmt of
        Some i \<Rightarrow> m\<lparr>m_attr := pj_array_erase (m_attr m) i\<rparr>
      | None \<Rightarrow> m)"

text \<open>
  The out parameter of \<^verbatim>\<open>pjmedia_sdp_attr_get_rtpmap\<close> is untouched (\<open>None\<close>) when the arguments are refused,
  and holds what was read so far when the value does not parse.
\<close>

definition rtpmap_parse :: "string \<Rightarrow> sdp_status \<times> sdp_rtpmap" where
  "rtpmap_parse val =
     (let sc = pj_scan_init val PJ_SCAN_AUTOSKIP_WS;
          r = \<lparr>rm_pt = [], enc_name = [], clock_rate = 0, rm_param = []\<rparr>;
          bad = Inl PJMEDIA_SDP_EINRTPMAP
      in case pj_scan_get sc cs_token of
        None \<Rightarrow> (bad, r)
      | Some (pt, sc1) \<Rightarrow> let r = r\<lparr>rm_pt := pt\<rparr> in (case pj_scan_get sc1 cs_token of
        None \<Rightarrow> (bad, r)
      | Some (enc, sc2) \<Rightarrow> let r = r\<lparr>enc_name := enc\<rparr> in (case pj_scan_get_char sc2 of
        None \<Rightarrow> (bad, r)
      | Some (c, sc3) \<Rightarrow> if c \<noteq> CHR ''/'' then (bad, r) else (case pj_scan_get sc3 cs_digit of
        None \<Rightarrow> (bad, r)
      | Some (token, sc4) \<Rightarrow> let r = r\<lparr>clock_rate := pj_strtoul token\<rparr> in
          if peek sc4 = CHR ''/'' then
            (case pj_scan_get_char sc4 of
               None \<Rightarrow> (bad, r)
             | Some (_, sc5) \<Rightarrow> (SUCCESS, r\<lparr>rm_param := curptr sc5\<rparr>))
          else (SUCCESS, r)))))"

definition pjmedia_sdp_attr_get_rtpmap :: "sdp_attr \<Rightarrow> sdp_status \<times> sdp_rtpmap option" where
  "pjmedia_sdp_attr_get_rtpmap attr =
     (if pj_strcmp2 (attr_name attr) ''rtpmap'' \<noteq> 0 then (Inl SDP_EINVALIDOP, None)
      else if attr_value attr = [] then (Inl PJMEDIA_SDP_EINATTR, None)
      else apsnd Some (rtpmap_parse (attr_value attr)))"

definition snprintf :: "nat \<Rightarrow> string \<Rightarrow> string" where
  "snprintf n text = (if length text < n then text else take (n - 1) text @ [NUL])"

definition pjmedia_sdp_rtpmap_to_attr :: "sdp_rtpmap \<Rightarrow> sdp_error + sdp_attr" where
  "pjmedia_sdp_rtpmap_to_attr r =
     (if enc_name r = [] \<or> clock_rate r = 0 then Inl PJMEDIA_SDP_EINRTPMAP
      else let text = rm_pt r @ [SP] @ enc_name r @ ''/'' @ pj_utoa (unat (clock_rate r)) @
                      (if rm_param r \<noteq> [] then ''/'' else []) @ rm_param r;
               len = length text
           in if len < 1 \<or> len > 128 then Inl PJMEDIA_SDP_ERTPMAPTOOLONG
              else Inr \<lparr>attr_name = ''rtpmap'', attr_value = snprintf 128 text\<rparr>)"

definition pjmedia_sdp_attr_get_fmtp :: "sdp_attr \<Rightarrow> sdp_error + sdp_fmtp" where
  "pjmedia_sdp_attr_get_fmtp attr =
     (if pj_strcmp2 (attr_name attr) ''fmtp'' \<noteq> 0 then Inl SDP_EINVALIDOP
      else let token = takeWhile pj_isdigit (attr_value attr); p = dropWhile pj_isdigit (attr_value attr)
           in if token = [] then Inl PJMEDIA_SDP_EINFMTP
              else if peek_at p 0 \<noteq> SP then Inl PJMEDIA_SDP_EINFMTP
              else Inr \<lparr>fmtp_fmt = token, fmt_param = tl p\<rparr>)"

definition pjmedia_sdp_attr_get_rtcp :: "sdp_attr \<Rightarrow> sdp_error + sdp_rtcp_attr" where
  "pjmedia_sdp_attr_get_rtcp attr =
     (if pj_strcmp2 (attr_name attr) ''rtcp'' \<noteq> 0 then Inl SDP_EINVALIDOP
      else case (do {
             (token, sc) \<leftarrow> pj_scan_get (pj_scan_init (attr_value attr) PJ_SCAN_AUTOSKIP_WS) cs_token;
             if pj_scan_is_eof sc
             then Some \<lparr>rtcp_port = pj_strtoul token, rtcp_net_type = [], rtcp_addr_type = [], rtcp_addr = []\<rparr>
             else do {
               (nt, sc) \<leftarrow> pj_scan_get sc cs_token;
               (ty, sc) \<leftarrow> pj_scan_get sc cs_token;
               (ad, sc) \<leftarrow> pj_scan_get sc cs_token;
               Some \<lparr>rtcp_port = pj_strtoul token, rtcp_net_type = nt, rtcp_addr_type = ty, rtcp_addr = ad\<rparr>
             }
           }) of Some rtcp \<Rightarrow> Inr rtcp | None \<Rightarrow> Inl PJMEDIA_SDP_EINRTCP)"

section \<open>Printing\<close>

text \<open>
  The printers get the room that is left in the buffer and return the text they write, or \<open>None\<close> for \<^verbatim>\<open>-1\<close>.
  The room is a signed number: nothing stops the unchecked writes at the end of the buffer, and \<^verbatim>\<open>end-p\<close>
  is negative then.
\<close>

abbreviation crlf :: string where "crlf \<equiv> [CR, LF]"

definition print_connection_info :: "sdp_conn \<Rightarrow> int \<Rightarrow> string option" where
  "print_connection_info c len =
     (let text = ''c='' @ net_type c @ [SP] @ addr_type c @ [SP] @ addr c @ crlf; printed = int (length text)
      in if printed < 1 \<or> printed > len then None else Some (snprintf (nat len) text))"

definition print_attr :: "sdp_attr \<Rightarrow> int \<Rightarrow> string option" where
  "print_attr attr len =
     (if len < int (length (attr_name attr) + length (attr_value attr) + 10) then None
      else Some (''a='' @ attr_name attr @ (if attr_value attr \<noteq> [] then '':'' @ attr_value attr else []) @ crlf))"

primrec print_attrs :: "sdp_attr list \<Rightarrow> int \<Rightarrow> string option" where
  "print_attrs [] room = Some []"
| "print_attrs (a # as) room = do {
     t \<leftarrow> print_attr a room;
     ts \<leftarrow> print_attrs as (room - int (length t));
     Some (t @ ts)
   }"

definition print_conn_opt :: "sdp_conn option \<Rightarrow> int \<Rightarrow> string option" where
  "print_conn_opt co room = (case co of Some c \<Rightarrow> print_connection_info c room | None \<Rightarrow> Some [])"

primrec fmt_text :: "string list \<Rightarrow> string" where
  "fmt_text [] = []"
| "fmt_text (f # fs) = [SP] @ f @ fmt_text fs"

definition m_line :: "sdp_media \<Rightarrow> string" where
  "m_line m = ''m='' @ media m @ [SP] @ pj_utoa (unat (port m)) @
     (if port_count m > 1 then ''/'' @ pj_utoa (unat (port_count m)) else []) @ [SP] @
     transport m @ fmt_text (fmt m) @ crlf"

definition print_media_desc :: "sdp_media \<Rightarrow> int \<Rightarrow> string option" where
  "print_media_desc m len =
     (if len < int (length (media m) + length (transport m) + 12 + 24) then None
      else let t = m_line m in do {
        c \<leftarrow> print_conn_opt (m_conn m) (len - int (length t));
        as \<leftarrow> print_attrs (m_attr m) (len - int (length (t @ c)));
        Some (t @ c @ as)
      })"

primrec print_medias :: "sdp_media list \<Rightarrow> int \<Rightarrow> string option" where
  "print_medias [] room = Some []"
| "print_medias (m # ms) room = do {
     t \<leftarrow> print_media_desc m room;
     ts \<leftarrow> print_medias ms (room - int (length t));
     Some (t @ ts)
   }"

definition o_line :: "sdp_origin \<Rightarrow> string" where
  "o_line org = ''o='' @ o_user org @ [SP] @ pj_utoa (unat (o_id org)) @ [SP] @ pj_utoa (unat (o_version org)) @ [SP] @
     o_net_type org @ [SP] @ o_addr_type org @ [SP] @ o_addr org @ crlf"

definition t_line :: "sdp_session \<Rightarrow> string" where
  "t_line ses = ''t='' @ pj_utoa (unat (time_start ses)) @ [SP] @ pj_utoa (unat (time_stop ses)) @ crlf"

definition print_session :: "sdp_session \<Rightarrow> int \<Rightarrow> string option" where
  "print_session ses len =
     (let org = origin ses in
      if len < int (5 + 2 + length (o_user org) + 18 + length (o_net_type org) + length (o_addr org) + 2) then None
      else let t = ''v=0'' @ crlf @ o_line org in
      if len - int (length t) < int (8 + length (s_name ses)) then None
      else let t = t @ ''s='' @ s_name ses @ crlf in do {
        c \<leftarrow> print_conn_opt (s_conn ses) (len - int (length t));
        if len - int (length (t @ c)) < 24 then None
        else let t = t @ c @ t_line ses in do {
          as \<leftarrow> print_attrs (s_attr ses) (len - int (length t));
          ms \<leftarrow> print_medias (s_media ses) (len - int (length (t @ as)));
          Some (t @ as @ ms)
        }
      })"

section \<open>Parsing\<close>

text \<open>
  A line parser throws \<open>Syntax e\<close> when the code throws with \<open>e\<close> in \<^verbatim>\<open>ctx.last_error\<close> (\<open>None\<close> is
  \<^verbatim>\<open>PJ_SUCCESS\<close>); \<open>Overrun\<close> is a write behind the end of the array of formats, attributes or media.
\<close>

datatype parse_stop = Syntax "sdp_error option" | Overrun

definition or_throw :: "sdp_error \<Rightarrow> 'a option \<Rightarrow> parse_stop + 'a" where
  "or_throw e r = (case r of Some x \<Rightarrow> Inr x | None \<Rightarrow> Inl (Syntax (Some e)))"

definition parse_version :: "scanner \<Rightarrow> parse_stop + scanner" where
  "parse_version sc = or_throw PJMEDIA_SDP_EINVER
     (if peek_at (curptr sc) 1 \<noteq> CHR ''='' then None
      else if peek_at (curptr sc) 2 \<noteq> CHR ''0'' then None
      else Some (pj_scan_skip_line sc))"

definition parse_origin :: "scanner \<Rightarrow> parse_stop + sdp_origin \<times> scanner" where
  "parse_origin sc = or_throw PJMEDIA_SDP_EINORIGIN
     (if peek_at (curptr sc) 1 \<noteq> CHR ''='' then None
      else do {
        sc \<leftarrow> pj_scan_advance_n sc 2 False;
        (user, sc) \<leftarrow> pj_scan_get_until_ch sc SP;
        (_, sc) \<leftarrow> pj_scan_get_char sc;
        (str, sc) \<leftarrow> pj_scan_get_until_ch sc SP;
        let id = pj_strtoul str;
        (_, sc) \<leftarrow> pj_scan_get_char sc;
        (str, sc) \<leftarrow> pj_scan_get_until_ch sc SP;
        let version = pj_strtoul str;
        (_, sc) \<leftarrow> pj_scan_get_char sc;
        (nt, sc) \<leftarrow> pj_scan_get_until_ch sc SP;
        (_, sc) \<leftarrow> pj_scan_get_char sc;
        (ty, sc) \<leftarrow> pj_scan_get_until_ch sc SP;
        (_, sc) \<leftarrow> pj_scan_get_char sc;
        (ad, sc) \<leftarrow> pj_scan_get_until_chr sc [SP, HTAB, CR];
        Some (\<lparr>o_user = user, o_id = id, o_version = version, o_net_type = nt, o_addr_type = ty, o_addr = ad\<rparr>,
              pj_scan_skip_line sc)
      })"

definition parse_time :: "scanner \<Rightarrow> parse_stop + (32 word \<times> 32 word) \<times> scanner" where
  "parse_time sc = or_throw PJMEDIA_SDP_EINTIME
     (if peek_at (curptr sc) 1 \<noteq> CHR ''='' then None
      else do {
        sc \<leftarrow> pj_scan_advance_n sc 2 False;
        (str, sc) \<leftarrow> pj_scan_get_until_ch sc SP;
        let start = pj_strtoul str;
        (_, sc) \<leftarrow> pj_scan_get_char sc;
        (str, sc) \<leftarrow> pj_scan_get_until_chr sc [SP, HTAB, CR];
        Some ((start, pj_strtoul str), pj_scan_skip_line sc)
      })"

definition parse_generic_line :: "scanner \<Rightarrow> parse_stop + string \<times> scanner" where
  "parse_generic_line sc = or_throw PJMEDIA_SDP_EINSDP
     (if peek_at (curptr sc) 1 \<noteq> CHR ''='' then None
      else do {
        sc \<leftarrow> pj_scan_advance_n sc 2 False;
        (str, sc) \<leftarrow> pj_scan_get_until_ch sc CR;
        sc \<leftarrow> pj_scan_get_newline sc;
        Some (str, sc)
      })"

definition parse_connection_info :: "scanner \<Rightarrow> parse_stop + sdp_conn \<times> scanner" where
  "parse_connection_info sc = or_throw PJMEDIA_SDP_EINCONN
     (do {
        sc \<leftarrow> pj_scan_advance_n sc 2 False;
        (nt, sc) \<leftarrow> pj_scan_get_until_ch sc SP;
        (_, sc) \<leftarrow> pj_scan_get_char sc;
        (ty, sc) \<leftarrow> pj_scan_get_until_ch sc SP;
        (_, sc) \<leftarrow> pj_scan_get_char sc;
        (ad, sc) \<leftarrow> pj_scan_get_until_chr sc [SP, HTAB, CR];
        Some (\<lparr>net_type = nt, addr_type = ty, addr = ad\<rparr>, pj_scan_skip_line sc)
      })"

lemma cs_token_NUL [simp]: "\<not> cs_token NUL"
  by (simp add: cs_token_def pj_cis_add_str_def pj_cis_add_num_def pj_cis_add_alpha_def pj_cis_add_range_def pj_cis_init_def)

function parse_fmts :: "scanner \<Rightarrow> string list \<Rightarrow> parse_stop + string list \<times> scanner" where
  "parse_fmts sc fmts =
     (if peek sc \<noteq> SP then Inr (fmts, sc)
      else case pj_scan_get_char sc of
        None \<Rightarrow> Inl (Syntax (Some PJMEDIA_SDP_EINMEDIA))
      | Some (_, sc1) \<Rightarrow>
          if peek sc1 = CR \<or> peek sc1 = LF then Inr (fmts, sc1)
          else (case pj_scan_get sc1 cs_token of
            None \<Rightarrow> Inl (Syntax (Some PJMEDIA_SDP_EINMEDIA))
          | Some (f, sc2) \<Rightarrow>
              if length fmts < PJMEDIA_MAX_SDP_FMT then parse_fmts sc2 (fmts @ [f]) else Inl Overrun))"
  by auto
termination
  by (relation "measure (\<lambda>(sc, _). length (curptr sc))")
     (auto dest!: scan_get_char_less scan_get_less)

declare parse_fmts.simps [simp del]

definition parse_m_head :: "scanner \<Rightarrow> (sdp_media \<times> scanner) option" where
  "parse_m_head sc =
     (if peek_at (curptr sc) 1 \<noteq> CHR ''='' then None
      else do {
        sc \<leftarrow> pj_scan_advance_n sc 2 False;
        (md, sc) \<leftarrow> pj_scan_get_until_ch sc SP;
        (_, sc) \<leftarrow> pj_scan_get_char sc;
        (str, sc) \<leftarrow> pj_scan_get sc cs_token;
        let prt = (ucast (pj_strtoul str) :: 16 word);
        (cnt, sc) \<leftarrow>
          (if peek sc = CHR ''/'' then do {
             (_, sc) \<leftarrow> pj_scan_get_char sc;
             (str, sc) \<leftarrow> pj_scan_get sc cs_token;
             Some (pj_strtoul str, sc)
           } else Some (0, sc));
        (c, sc) \<leftarrow> pj_scan_get_char sc;
        if c \<noteq> SP then None
        else do {
          (tp, sc) \<leftarrow> pj_scan_get_until_ch sc SP;
          Some (\<lparr>media = md, port = prt, port_count = cnt, transport = tp, fmt = [], m_conn = None, m_attr = []\<rparr>, sc)
        }
      })"

definition parse_media :: "scanner \<Rightarrow> parse_stop + sdp_media \<times> scanner" where
  "parse_media sc =
     (case or_throw PJMEDIA_SDP_EINMEDIA (parse_m_head sc) of
        Inl e \<Rightarrow> Inl e
      | Inr (med, sc1) \<Rightarrow>
          (case parse_fmts sc1 [] of
             Inl e \<Rightarrow> Inl e
           | Inr (fmts, sc2) \<Rightarrow> Inr (med\<lparr>fmt := fmts\<rparr>, pj_scan_skip_line sc2)))"

definition parse_attr :: "scanner \<Rightarrow> parse_stop + sdp_attr \<times> scanner" where
  "parse_attr sc = or_throw PJMEDIA_SDP_EINATTR
     (if peek_at (curptr sc) 1 \<noteq> CHR ''='' then None
      else do {
        sc \<leftarrow> pj_scan_advance_n sc 2 False;
        (name, sc) \<leftarrow> pj_scan_get sc cs_token;
        (val, sc) \<leftarrow>
          (if peek sc \<noteq> CR \<and> peek sc \<noteq> LF then do {
             sc \<leftarrow> (if peek sc = CHR '':'' then map_option snd (pj_scan_get_char sc) else Some sc);
             (if peek sc \<noteq> CR then pj_scan_get_until_ch sc CR else Some ([], sc))
           } else Some ([], sc));
        Some (\<lparr>attr_name = name, attr_value = val\<rparr>, pj_scan_skip_line sc)
      })"

text \<open>
  \<^verbatim>\<open>media\<close> points to the last media description once there is one; what follows an \<^verbatim>\<open>m=\<close> line belongs to it.
\<close>

definition update_last :: "('a \<Rightarrow> 'a) \<Rightarrow> 'a list \<Rightarrow> 'a list" where
  "update_last f xs = butlast xs @ [f (last xs)]"

record parse_state =
  ps_session :: sdp_session
  ps_last_error :: "sdp_error option"

definition empty_session :: sdp_session where
  "empty_session = \<lparr>origin = \<lparr>o_user = [], o_id = 0, o_version = 0, o_net_type = [], o_addr_type = [], o_addr = []\<rparr>,
     s_name = [], s_conn = None, time_start = 0, time_stop = 0, s_attr = [], s_media = []\<rparr>"

definition add_parsed_attr :: "sdp_session \<Rightarrow> sdp_attr \<Rightarrow> parse_stop + sdp_session" where
  "add_parsed_attr ses a =
     (if s_media ses \<noteq> [] then
        if length (m_attr (last (s_media ses))) < PJMEDIA_MAX_SDP_ATTR
        then Inr (ses\<lparr>s_media := update_last (m_attr_update (\<lambda>as. as @ [a])) (s_media ses)\<rparr>)
        else Inl Overrun
      else if length (s_attr ses) < PJMEDIA_MAX_SDP_ATTR then Inr (ses\<lparr>s_attr := s_attr ses @ [a]\<rparr>)
      else Inl Overrun)"

definition add_parsed_conn :: "sdp_session \<Rightarrow> sdp_conn \<Rightarrow> sdp_session" where
  "add_parsed_conn ses c =
     (if s_media ses \<noteq> [] then ses\<lparr>s_media := update_last (m_conn_update (\<lambda>_. Some c)) (s_media ses)\<rparr>
      else ses\<lparr>s_conn := Some c\<rparr>)"

definition add_parsed_media :: "sdp_session \<Rightarrow> sdp_media \<Rightarrow> parse_stop + sdp_session" where
  "add_parsed_media ses m =
     (if length (s_media ses) < PJMEDIA_MAX_SDP_MEDIA then Inr (ses\<lparr>s_media := s_media ses @ [m]\<rparr>)
      else Inl Overrun)"

definition parsed_line :: "sdp_error \<Rightarrow> parse_stop + sdp_session \<times> scanner \<Rightarrow> parse_stop + parse_state \<times> scanner" where
  "parsed_line e r = map_sum id (apfst (\<lambda>ses. \<lparr>ps_session = ses, ps_last_error = Some e\<rparr>)) r"

definition bind_line :: "parse_stop + 'a \<times> scanner \<Rightarrow> ('a \<Rightarrow> parse_stop + sdp_session) \<Rightarrow> parse_stop + sdp_session \<times> scanner" where
  "bind_line r f = (case r of Inl e \<Rightarrow> Inl e | Inr (x, sc) \<Rightarrow> map_sum id (\<lambda>ses. (ses, sc)) (f x))"

text \<open>A carriage return at the start of a line falls through to the line feed.\<close>

definition parse_empty_line :: "parse_state \<Rightarrow> scanner \<Rightarrow> parse_stop + parse_state \<times> scanner" where
  "parse_empty_line ps sc =
     (case (do {
        sc \<leftarrow> (if peek sc = CR then map_option snd (pj_scan_get_char sc) else Some sc);
        (_, sc) \<leftarrow> pj_scan_get_char sc;
        if \<not> pj_scan_is_eof sc then None else Some sc
      }) of
        Some sc \<Rightarrow> Inr (ps, sc)
      | None \<Rightarrow> Inl (Syntax (ps_last_error ps)))"

definition parse_line :: "parse_state \<Rightarrow> scanner \<Rightarrow> parse_stop + parse_state \<times> scanner" where
  "parse_line ps sc =
     (let ses = ps_session ps; cur_name = peek sc in
      if cur_name = CHR ''a'' then
        parsed_line PJMEDIA_SDP_EINATTR (bind_line (parse_attr sc) (add_parsed_attr ses))
      else if cur_name = CHR ''o'' then
        parsed_line PJMEDIA_SDP_EINORIGIN (bind_line (parse_origin sc) (\<lambda>org. Inr (ses\<lparr>origin := org\<rparr>)))
      else if cur_name = CHR ''s'' then
        parsed_line PJMEDIA_SDP_EINSDP (bind_line (parse_generic_line sc) (\<lambda>str. Inr (ses\<lparr>s_name := str\<rparr>)))
      else if cur_name = CHR ''c'' then
        parsed_line PJMEDIA_SDP_EINCONN (bind_line (parse_connection_info sc) (\<lambda>c. Inr (add_parsed_conn ses c)))
      else if cur_name = CHR ''t'' then
        parsed_line PJMEDIA_SDP_EINTIME (bind_line (parse_time sc)
          (\<lambda>(start, stop). Inr (ses\<lparr>time_start := start, time_stop := stop\<rparr>)))
      else if cur_name = CHR ''m'' then
        parsed_line PJMEDIA_SDP_EINMEDIA (bind_line (parse_media sc) (add_parsed_media ses))
      else if cur_name = CHR ''v'' then
        parsed_line PJMEDIA_SDP_EINVER (map_sum id (\<lambda>sc. (ses, sc)) (parse_version sc))
      else if cur_name = CR \<or> cur_name = LF then parse_empty_line ps sc
      else if of_char cur_name \<in> {97..122::nat} then
        parsed_line PJMEDIA_SDP_EINSDP (bind_line (parse_generic_line sc) (\<lambda>_. Inr ses))
      else Inl (Syntax (Some PJMEDIA_SDP_EINSDP)))"

section \<open>Every line moves the scanner forward\<close>

lemma bind_SomeE:
  assumes "Option.bind r f = Some y"
  obtains x where "r = Some x" "f x = Some y"
  using assms by (cases r) auto

lemma or_throw_Inr [simp]: "or_throw e r = Inr x \<longleftrightarrow> r = Some x"
  by (simp add: or_throw_def split: option.splits)


lemma skip_line_less: "curptr sc \<noteq> [] \<Longrightarrow> length (curptr (pj_scan_skip_line sc)) < length (curptr sc)"
proof -
  assume ne: "curptr sc \<noteq> []"
  define s where "s = dropWhile (\<lambda>c. c \<noteq> LF \<and> c \<noteq> NUL) (curptr sc)"
  have len: "length s \<le> length (curptr sc)" unfolding s_def by (rule length_dropWhile_le)
  have eq: "curptr (pj_scan_skip_line sc) = (if peek_at s 0 = LF then tl s else [])"
    by (simp add: pj_scan_skip_line_def s_def Let_def)
  show ?thesis unfolding eq using ne len by (cases s) auto
qed

lemma parse_version_less: "parse_version sc = Inr sc' \<Longrightarrow> length (curptr sc') < length (curptr sc)"
  using skip_line_less[of sc] by (cases "curptr sc = []") (auto simp: parse_version_def split: if_splits)

lemma parse_origin_less: "parse_origin sc = Inr (x, sc') \<Longrightarrow> length (curptr sc') < length (curptr sc)"
  by (auto simp: parse_origin_def Let_def split: if_splits prod.splits elim!: bind_SomeE
      dest!: scan_consumes intro!: le_less_trans[OF skip_line_le])

lemma parse_time_less: "parse_time sc = Inr (x, sc') \<Longrightarrow> length (curptr sc') < length (curptr sc)"
  by (auto simp: parse_time_def Let_def split: if_splits prod.splits elim!: bind_SomeE
      dest!: scan_consumes intro!: le_less_trans[OF skip_line_le])

lemma parse_generic_line_less: "parse_generic_line sc = Inr (x, sc') \<Longrightarrow> length (curptr sc') < length (curptr sc)"
  by (auto simp: parse_generic_line_def split: if_splits prod.splits elim!: bind_SomeE dest!: scan_consumes)

lemma parse_connection_info_less: "parse_connection_info sc = Inr (x, sc') \<Longrightarrow> length (curptr sc') < length (curptr sc)"
  by (auto simp: parse_connection_info_def split: if_splits prod.splits elim!: bind_SomeE
      dest!: scan_consumes intro!: le_less_trans[OF skip_line_le])

lemma parse_attr_less: "parse_attr sc = Inr (x, sc') \<Longrightarrow> length (curptr sc') < length (curptr sc)"
  by (auto simp: parse_attr_def split: if_splits prod.splits elim!: bind_SomeE
      dest!: scan_consumes scan_get_less intro!: le_less_trans[OF skip_line_le])

lemma parse_m_head_less: "parse_m_head sc = Some (x, sc') \<Longrightarrow> length (curptr sc') < length (curptr sc)"
  by (auto simp: parse_m_head_def Let_def split: if_splits prod.splits elim!: bind_SomeE
      dest!: scan_consumes scan_get_less)

lemma parse_fmts_le: "parse_fmts sc fmts = Inr (x, sc') \<Longrightarrow> length (curptr sc') \<le> length (curptr sc)"
proof (induction sc fmts rule: parse_fmts.induct)
  case (1 sc fmts)
  have step: "length (curptr sc') \<le> length (curptr sc)"
    if "peek sc = SP" "pj_scan_get_char sc = Some (c, sc1)" "peek sc1 \<noteq> CR" "peek sc1 \<noteq> LF"
      "pj_scan_get sc1 cs_token = Some (f, sc2)" "length fmts < PJMEDIA_MAX_SDP_FMT"
      "parse_fmts sc2 (fmts @ [f]) = Inr (x, sc')" for c sc1 f sc2
    using 1(1)[OF _ that(2) refl _ that(5) refl that(6,7)] that(1,3,4) scan_get_char_less[OF that(2)]
      scan_get_less[OF that(5)] by simp
  show ?case using 1(2)
    apply (subst (asm) parse_fmts.simps)
    apply (auto split: if_splits option.splits)
    subgoal by (drule scan_get_char_less) simp
    subgoal by (drule scan_get_char_less) simp
    by (rule step)
qed

lemma parse_media_less: "parse_media sc = Inr (x, sc') \<Longrightarrow> length (curptr sc') < length (curptr sc)"
  by (auto simp: parse_media_def split: sum.splits prod.splits dest!: parse_m_head_less parse_fmts_le
      intro!: le_less_trans[OF skip_line_le])

lemma parse_empty_line_less: "parse_empty_line ps sc = Inr (x, sc') \<Longrightarrow> length (curptr sc') < length (curptr sc)"
  by (auto simp: parse_empty_line_def split: if_splits option.splits prod.splits elim!: bind_SomeE dest!: scan_get_char_less)

lemma parsed_line_Inr: "parsed_line e r = Inr (ps, sc) \<longleftrightarrow> (\<exists>ses. r = Inr (ses, sc) \<and> ps = \<lparr>ps_session = ses, ps_last_error = Some e\<rparr>)"
  by (cases r) (auto simp: parsed_line_def)

lemma bind_line_Inr: "bind_line r f = Inr (ses, sc) \<longleftrightarrow> (\<exists>x. r = Inr (x, sc) \<and> f x = Inr ses)"
  by (cases r; cases "f (fst (projr r))") (auto simp: bind_line_def split: prod.splits)

lemmas line_less = parse_attr_less parse_origin_less parse_generic_line_less parse_connection_info_less
  parse_time_less parse_media_less parse_version_less parse_empty_line_less

lemma parse_line_less: "parse_line ps sc = Inr (ps', sc') \<Longrightarrow> length (curptr sc') < length (curptr sc)"
  unfolding parse_line_def Let_def
  by (auto simp: parsed_line_Inr bind_line_Inr map_sum_def split: if_splits sum.splits dest: line_less)

section \<open>The whole message\<close>

function parse_lines :: "parse_state \<Rightarrow> scanner \<Rightarrow> parse_stop + sdp_session" where
  "parse_lines ps sc =
     (if pj_scan_is_eof sc then Inr (ps_session ps)
      else case parse_line ps sc of
        Inl e \<Rightarrow> Inl e
      | Inr (ps', sc') \<Rightarrow> parse_lines ps' sc')"
  by auto
termination by (relation "measure (\<lambda>(_, sc). length (curptr sc))") (auto dest!: parse_line_less)

declare parse_lines.simps [simp del]

definition pjmedia_sdp_parse :: "string \<Rightarrow> parse_stop + sdp_session" where
  "pjmedia_sdp_parse buf =
     parse_lines \<lparr>ps_session = empty_session, ps_last_error = None\<rparr> (pj_scan_init buf 0)"

definition pjmedia_sdp_print :: "sdp_session \<Rightarrow> nat \<Rightarrow> string option" where
  "pjmedia_sdp_print desc n = print_session desc (int n)"

section \<open>Validation\<close>

definition validate_sdp_conn :: "sdp_conn \<Rightarrow> sdp_status" where
  "validate_sdp_conn c =
     (if pj_strcmp2 (net_type c) ''IN'' \<noteq> 0 then Inl PJMEDIA_SDP_EINCONN
      else if \<not> (pj_strcmp2 (addr_type c) ''IP4'' = 0 \<or> pj_strcmp2 (addr_type c) ''IP6'' = 0)
      then Inl PJMEDIA_SDP_EINCONN
      else if addr c = [] then Inl PJMEDIA_SDP_EINCONN
      else SUCCESS)"

definition fmt_isdigit :: "string \<Rightarrow> bool" where
  "fmt_isdigit f \<longleftrightarrow> pj_isdigit (peek_at f 0)"

primrec validate_fmts :: "sdp_media \<Rightarrow> string list \<Rightarrow> sdp_status" where
  "validate_fmts m [] = SUCCESS"
| "validate_fmts m (f # fs) =
     (if fmt_isdigit f then
        let pt = pj_strtoul f in
        if \<not> pt \<le> 127 then Inl PJMEDIA_SDP_EINPT
        else if port m \<noteq> 0 \<and> 96 \<le> pt \<and> pjmedia_sdp_media_find_attr2 m ''rtpmap'' (Some f) = None
        then Inl PJMEDIA_SDP_EMISSINGRTPMAP
        else validate_fmts m fs
      else validate_fmts m fs)"

primrec validate_medias :: "sdp_session \<Rightarrow> sdp_media list \<Rightarrow> sdp_status" where
  "validate_medias sdp [] = SUCCESS"
| "validate_medias sdp (m # ms) =
     (if media m = [] then Inl PJMEDIA_SDP_EINMEDIA
      else if transport m = [] then Inl PJMEDIA_SDP_EINMEDIA
      else if \<not> (fmt m \<noteq> [] \<or> port m = 0) then Inl PJMEDIA_SDP_ENOFMT
      else case (case m_conn m of
                   Some c \<Rightarrow> validate_sdp_conn c
                 | None \<Rightarrow> if s_conn sdp = None then Inl PJMEDIA_SDP_EMISSINGCONN else SUCCESS) of
        Inl e \<Rightarrow> Inl e
      | Inr _ \<Rightarrow> (case validate_fmts m (fmt m) of
          Inl e \<Rightarrow> Inl e
        | Inr _ \<Rightarrow> validate_medias sdp ms))"

definition pjmedia_sdp_validate :: "sdp_session \<Rightarrow> sdp_status" where
  "pjmedia_sdp_validate sdp =
     (let org = origin sdp in
      if o_user org = [] then Inl PJMEDIA_SDP_EINORIGIN
      else if pj_strcmp2 (o_net_type org) ''IN'' \<noteq> 0 then Inl PJMEDIA_SDP_EINORIGIN
      else if \<not> (pj_strcmp2 (o_addr_type org) ''IP4'' = 0 \<or> pj_strcmp2 (o_addr_type org) ''IP6'' = 0)
      then Inl PJMEDIA_SDP_EINORIGIN
      else if o_addr org = [] then Inl PJMEDIA_SDP_EINORIGIN
      else if s_name sdp = [] then Inl PJMEDIA_SDP_EINNAME
      else case (case s_conn sdp of Some c \<Rightarrow> validate_sdp_conn c | None \<Rightarrow> SUCCESS) of
        Inl e \<Rightarrow> Inl e
      | Inr _ \<Rightarrow> validate_medias sdp (s_media sdp))"

end
