(* ===== verification/Sdp_Text.thy ===== *)
theory Sdp_Text
  imports Sdp_Session
begin

text \<open>
  What the printer and the parser of session descriptions guarantee: printed sessions and rtpmap
  attributes read back, and the places where the arrays and the buffer are overrun.
\<close>

section \<open>Texts that read back\<close>

definition clear_of :: "string \<Rightarrow> string \<Rightarrow> bool" where
  "clear_of chs s \<longleftrightarrow> (\<forall>c \<in> set s. c \<noteq> NUL \<and> c \<notin> set chs)"

definition is_token :: "string \<Rightarrow> bool" where
  "is_token s \<longleftrightarrow> s \<noteq> [] \<and> (\<forall>c \<in> set s. cs_token c)"











subsection \<open>The printer writes these texts when the buffer does not fill up\<close>







subsection \<open>The line parsers read them back\<close>

lemma cs_token_clear: "cs_token c \<Longrightarrow> c \<noteq> NUL \<and> c \<noteq> SP \<and> c \<noteq> CR \<and> c \<noteq> LF \<and> c \<noteq> HTAB \<and> c \<noteq> CHR '':'' \<and> c \<noteq> CHR ''/''"
  by (auto simp: cs_token_def pj_cis_add_str_def pj_cis_add_num_def pj_cis_add_alpha_def pj_cis_add_range_def pj_cis_init_def)

lemma not_token [simp]: "\<not> cs_token SP" "\<not> cs_token CR" "\<not> cs_token LF" "\<not> cs_token (CHR '':'')" "\<not> cs_token (CHR ''/'')"
  using cs_token_clear by blast+

lemma digit_token: "pj_isdigit c \<Longrightarrow> cs_token c"
  by (auto simp: pj_isdigit_def cs_token_def pj_cis_add_str_def pj_cis_add_num_def pj_cis_add_alpha_def pj_cis_add_range_def)

lemma utoa_token [simp]: "is_token (pj_utoa n)"
  by (auto simp: is_token_def dest: utoa_isdigit digit_token)

lemma token_clear: "is_token s \<Longrightarrow> set chs \<subseteq> {SP, HTAB, CR, LF} \<Longrightarrow> clear_of chs s"
  using cs_token_clear by (fastforce simp: is_token_def clear_of_def)

lemma utoa_clear [simp]: "clear_of [SP] (pj_utoa n)" "clear_of [SP, HTAB, CR] (pj_utoa n)"
  by (rule token_clear; simp)+













subsection \<open>The whole message reads back\<close>












lemma update_last_snoc [simp]: "update_last f (xs @ [x]) = xs @ [f x]"
  by (simp add: update_last_def)








lemmas cs_token_eval = cs_token_def pj_cis_add_str_def pj_cis_add_num_def pj_cis_add_alpha_def
  pj_cis_add_range_def pj_cis_init_def





section \<open>The rtpmap attribute reads back\<close>

lemma skip_whitespace_1: "pj_scan_skip_whitespace \<lparr>curptr = s, skip_ws = 1\<rparr> = \<lparr>curptr = dropWhile PJ_SCAN_IS_SPACE s, skip_ws = 1\<rparr>"
  by (simp add: pj_scan_skip_whitespace_def Let_def)

lemma space_probably: "PJ_SCAN_IS_SPACE c \<Longrightarrow> PJ_SCAN_IS_PROBABLY_SPACE c"
  by (auto simp: PJ_SCAN_IS_SPACE_def PJ_SCAN_IS_PROBABLY_SPACE_def schar_def)

lemma move_to_1: "move_to True \<lparr>curptr = s0, skip_ws = 1\<rparr> s = \<lparr>curptr = dropWhile PJ_SCAN_IS_SPACE s, skip_ws = 1\<rparr>"
proof (cases s)
  case (Cons c cs)
  then show ?thesis using space_probably[of c] skip_whitespace_1[of s]
    by (auto simp: move_to_def Let_def)
qed (use skip_whitespace_1[of "[]"] in \<open>simp add: move_to_def Let_def\<close>)

lemma scan_get_ws:
  assumes "a \<noteq> []" "\<forall>c \<in> set a. spec c" "\<not> spec (peek_at r 0)"
  shows "pj_scan_get \<lparr>curptr = a @ r, skip_ws = 1\<rparr> spec = Some (a, \<lparr>curptr = dropWhile PJ_SCAN_IS_SPACE r, skip_ws = 1\<rparr>)"
  using assms takeWhile_stop[of a spec r] dropWhile_stop[of a spec r] move_to_1[of "a @ r" r]
  by (cases a) (auto simp: pj_scan_get_def)

lemma scan_get_char_ws:
  "c \<noteq> NUL \<Longrightarrow> pj_scan_get_char \<lparr>curptr = c # r, skip_ws = 1\<rparr> = Some (c, \<lparr>curptr = dropWhile PJ_SCAN_IS_SPACE r, skip_ws = 1\<rparr>)"
  using move_to_1[of "c # r" r] by (simp add: pj_scan_get_char_def Let_def)

lemma no_space: "a \<noteq> [] \<Longrightarrow> \<not> PJ_SCAN_IS_SPACE (peek_at a 0) \<Longrightarrow> dropWhile PJ_SCAN_IS_SPACE (a @ r) = a @ r"
  by (cases a) auto

lemma token_no_space: "is_token a \<Longrightarrow> dropWhile PJ_SCAN_IS_SPACE (a @ r) = a @ r"
  using cs_token_clear by (cases a) (auto simp: is_token_def PJ_SCAN_IS_SPACE_def)

lemma get_token_ws:
  "is_token a \<Longrightarrow> \<not> cs_token (peek_at r 0) \<Longrightarrow>
   pj_scan_get \<lparr>curptr = a @ r, skip_ws = 1\<rparr> cs_token = Some (a, \<lparr>curptr = dropWhile PJ_SCAN_IS_SPACE r, skip_ws = 1\<rparr>)"
  by (rule scan_get_ws) (auto simp: is_token_def)

lemma digit_cs_digit: "pj_isdigit c \<longleftrightarrow> cs_digit c"
  by (auto simp: pj_isdigit_def cs_digit_def pj_cis_add_num_def pj_cis_add_range_def pj_cis_init_def)

definition rtpmap_ok :: "sdp_rtpmap \<Rightarrow> bool" where
  "rtpmap_ok r \<longleftrightarrow> is_token (rm_pt r) \<and> is_token (enc_name r) \<and> clock_rate r \<noteq> 0 \<and>
     \<not> PJ_SCAN_IS_SPACE (peek_at (rm_param r) 0)"

lemma rtpmap_parse_text:
  assumes ok: "rtpmap_ok r"
  defines "clk \<equiv> pj_utoa (unat (clock_rate r))"
  defines "tail \<equiv> (if rm_param r \<noteq> [] then ''/'' else []) @ rm_param r"
  shows "rtpmap_parse (rm_pt r @ [SP] @ enc_name r @ ''/'' @ clk @ tail) = (SUCCESS, r)"
proof -
  have pt: "is_token (rm_pt r)" and enc: "is_token (enc_name r)" and sp: "\<not> PJ_SCAN_IS_SPACE (peek_at (rm_param r) 0)"
    using ok by (auto simp: rtpmap_ok_def)
  have clk: "is_token clk" "\<forall>c \<in> set clk. cs_digit c" "clk \<noteq> []"
    by (auto simp: clk_def digit_cs_digit[symmetric] utoa_isdigit)
  have tail: "\<not> cs_digit (peek_at tail 0)" "dropWhile PJ_SCAN_IS_SPACE tail = tail"
    by (auto simp: tail_def cs_digit_def pj_cis_add_num_def pj_cis_add_range_def pj_cis_init_def PJ_SCAN_IS_SPACE_def)
  have prm: "dropWhile PJ_SCAN_IS_SPACE (rm_param r) = rm_param r" using sp by (cases "rm_param r") auto
  have ini: "pj_scan_init (rm_pt r @ x) 1 = \<lparr>curptr = rm_pt r @ x, skip_ws = 1\<rparr>" for x
    using skip_whitespace_1[of "rm_pt r @ x"] token_no_space[OF pt, of x] by (simp add: pj_scan_init_def)
  have slash: "dropWhile PJ_SCAN_IS_SPACE (CHR ''/'' # x) = CHR ''/'' # x"
    and one: "dropWhile PJ_SCAN_IS_SPACE (SP # x) = dropWhile PJ_SCAN_IS_SPACE x" for x
    by (auto simp: PJ_SCAN_IS_SPACE_def)
  have g1: "pj_scan_get \<lparr>curptr = rm_pt r @ SP # x, skip_ws = 1\<rparr> cs_token = Some (rm_pt r, \<lparr>curptr = dropWhile PJ_SCAN_IS_SPACE x, skip_ws = 1\<rparr>)" for x
    using get_token_ws[OF pt, of "SP # x"] one by simp
  have g2: "pj_scan_get \<lparr>curptr = enc_name r @ CHR ''/'' # x, skip_ws = 1\<rparr> cs_token = Some (enc_name r, \<lparr>curptr = CHR ''/'' # x, skip_ws = 1\<rparr>)" for x
    using get_token_ws[OF enc, of "CHR ''/'' # x"] slash by simp
  have g4: "pj_scan_get \<lparr>curptr = clk @ tail, skip_ws = 1\<rparr> cs_digit = Some (clk, \<lparr>curptr = tail, skip_ws = 1\<rparr>)"
    using scan_get_ws[OF clk(3,2) tail(1)] tail(2) by simp
  have "pj_strtoul clk = clock_rate r" by (simp add: clk_def)
  then show ?thesis
    by (simp add: rtpmap_parse_def Let_def ini g1 g2 g4 token_no_space[OF enc] token_no_space[OF clk(1)] scan_get_char_ws del: One_nat_def)
       (auto simp: tail_def scan_get_char_ws prm simp del: One_nat_def)
qed

text \<open>
  An rtpmap entry with a payload type and an encoding name that are tokens, a clock rate other than zero and a
  parameter that does not start with white space is written to an attribute from which exactly the same entry is read,
  as long as the attribute has less than 128 characters.
\<close>

theorem rtpmap_roundtrip:
  assumes "rtpmap_ok r" "pjmedia_sdp_rtpmap_to_attr r = Inr a" "length (attr_value a) < 128"
  shows "pjmedia_sdp_attr_get_rtpmap a = (SUCCESS, Some r)"
proof -
  let ?text = "rm_pt r @ [SP] @ enc_name r @ ''/'' @ pj_utoa (unat (clock_rate r)) @ (if rm_param r \<noteq> [] then ''/'' else []) @ rm_param r"
  have a: "a = \<lparr>attr_name = ''rtpmap'', attr_value = snprintf 128 ?text\<rparr>"
    using assms(2) by (simp add: pjmedia_sdp_rtpmap_to_attr_def Let_def del: append.simps split: if_split_asm)
  have "length ?text < 128"
  proof (rule ccontr)
    assume "\<not> ?thesis"
    then have "128 \<le> length (snprintf 128 ?text)" unfolding snprintf_def by simp
    then show False using assms(3) a by simp
  qed
  then have "attr_value a = ?text" unfolding a by (simp add: snprintf_def)
  then show ?thesis using rtpmap_parse_text[OF assms(1)] by (simp add: pjmedia_sdp_attr_get_rtpmap_def a)
qed

theorem rtpmap_roundtrip_witness:
  "pjmedia_sdp_attr_get_rtpmap \<lparr>attr_name = ''rtpmap'', attr_value = ''98 L16/16000/2''\<rparr> =
   (SUCCESS, Some \<lparr>rm_pt = ''98'', enc_name = ''L16'', clock_rate = 16000, rm_param = ''2''\<rparr>)"
  by (rule rtpmap_roundtrip)
     (simp_all add: rtpmap_ok_def is_token_def cs_token_eval PJ_SCAN_IS_SPACE_def pjmedia_sdp_rtpmap_to_attr_def Let_def
       pj_utoa_rev utoa_digits.simps snprintf_def char_of_eq_iff)

section \<open>Where the arrays and buffers end\<close>




text \<open>
  A message that starts with an empty line and goes on is refused without an error: the parser returns
  \<^verbatim>\<open>PJ_SUCCESS\<close> and no session, because no line has set the error code.
\<close>

theorem sdp_parse_null_success:
  assumes "r \<noteq> []" shows "pjmedia_sdp_parse (LF # r) = Inl (Syntax None)"
  using assms
  by (simp add: pjmedia_sdp_parse_def pj_scan_init_def parse_lines.simps parse_line_def parse_empty_line_def pj_scan_is_eof_def Let_def)

theorem sdp_parse_null_success_witness: "pjmedia_sdp_parse [LF, LF] = Inl (Syntax None)"
  using sdp_parse_null_success[of "[LF]"] by simp

section \<open>What the parser accepts\<close>













end
