(* ===== verification/Sdp_Neg.thy ===== *)
theory Sdp_Neg
  imports Sdp_Session
begin

text \<open>
  The offer and answer negotiator, \<^verbatim>\<open>pjmedia/src/pjmedia/sdp_neg.c\<close>: the state of \<^verbatim>\<open>pjmedia_sdp_neg\<close>, the
  operations that move it, and the two negotiation algorithms. \<open>None\<close> as the outcome of a negotiation stands for a
  run that leaves what C defines: the failed assertion of \<^verbatim>\<open>match_offer\<close> about a format that is not there, the
  use of an rtpmap structure that was never filled, a null pointer that is followed. Pool allocation succeeds,
  and the pointer arguments that must not be null are not null.
\<close>

section \<open>State\<close>

datatype sdp_neg_state = STATE_NULL | STATE_LOCAL_OFFER | STATE_REMOTE_OFFER | STATE_WAIT_NEGO | STATE_DONE

record sdp_neg =
  neg_state :: sdp_neg_state
  prefer_remote_codec_order :: bool
  has_remote_answer :: bool
  answer_was_remote :: bool
  initial_sdp :: "sdp_session option"
  active_local_sdp :: "sdp_session option"
  active_remote_sdp :: "sdp_session option"
  neg_local_sdp :: "sdp_session option"
  neg_remote_sdp :: "sdp_session option"

definition PJMEDIA_SDP_NEG_PREFER_REMOTE_CODEC_ORDER :: bool where
  "PJMEDIA_SDP_NEG_PREFER_REMOTE_CODEC_ORDER = True"

definition zero_neg :: sdp_neg where
  "zero_neg = \<lparr>neg_state = STATE_NULL, prefer_remote_codec_order = False, has_remote_answer = False,
     answer_was_remote = False, initial_sdp = None, active_local_sdp = None, active_remote_sdp = None,
     neg_local_sdp = None, neg_remote_sdp = None\<rparr>"

definition pjmedia_sdp_neg_create_w_local_offer :: "sdp_session \<Rightarrow> sdp_error + sdp_neg" where
  "pjmedia_sdp_neg_create_w_local_offer loc =
     (case pjmedia_sdp_validate loc of
        Inl e \<Rightarrow> Inl e
      | Inr _ \<Rightarrow> Inr (zero_neg\<lparr>neg_state := STATE_LOCAL_OFFER,
          prefer_remote_codec_order := PJMEDIA_SDP_NEG_PREFER_REMOTE_CODEC_ORDER,
          initial_sdp := Some loc, neg_local_sdp := Some loc\<rparr>))"

definition pjmedia_sdp_neg_create_w_remote_offer :: "sdp_session option \<Rightarrow> sdp_session \<Rightarrow> sdp_error + sdp_neg" where
  "pjmedia_sdp_neg_create_w_remote_offer initial remote =
     (case pjmedia_sdp_validate remote of
        Inl e \<Rightarrow> Inl e
      | Inr _ \<Rightarrow>
          let neg = zero_neg\<lparr>prefer_remote_codec_order := PJMEDIA_SDP_NEG_PREFER_REMOTE_CODEC_ORDER,
                neg_remote_sdp := Some remote\<rparr>
          in (case initial of
                Some ini \<Rightarrow>
                  (case pjmedia_sdp_validate ini of
                     Inl e \<Rightarrow> Inl e
                   | Inr _ \<Rightarrow> Inr (neg\<lparr>initial_sdp := Some ini, neg_local_sdp := Some ini, neg_state := STATE_WAIT_NEGO\<rparr>))
              | None \<Rightarrow> Inr (neg\<lparr>neg_state := STATE_REMOTE_OFFER\<rparr>)))"

definition pjmedia_sdp_neg_set_prefer_remote_codec_order :: "sdp_neg \<Rightarrow> bool \<Rightarrow> sdp_status \<times> sdp_neg" where
  "pjmedia_sdp_neg_set_prefer_remote_codec_order neg prefer_remote =
     (SUCCESS, neg\<lparr>prefer_remote_codec_order := prefer_remote\<rparr>)"

definition pjmedia_sdp_neg_get_active_local :: "sdp_neg \<Rightarrow> sdp_error + sdp_session" where
  "pjmedia_sdp_neg_get_active_local neg =
     (case active_local_sdp neg of Some s \<Rightarrow> Inr s | None \<Rightarrow> Inl PJMEDIA_SDPNEG_ENOACTIVE)"

definition pjmedia_sdp_neg_get_active_remote :: "sdp_neg \<Rightarrow> sdp_error + sdp_session" where
  "pjmedia_sdp_neg_get_active_remote neg =
     (case active_remote_sdp neg of Some s \<Rightarrow> Inr s | None \<Rightarrow> Inl PJMEDIA_SDPNEG_ENOACTIVE)"

definition pjmedia_sdp_neg_get_neg_remote :: "sdp_neg \<Rightarrow> sdp_error + sdp_session" where
  "pjmedia_sdp_neg_get_neg_remote neg =
     (case neg_remote_sdp neg of Some s \<Rightarrow> Inr s | None \<Rightarrow> Inl PJMEDIA_SDPNEG_ENONEG)"

definition pjmedia_sdp_neg_get_neg_local :: "sdp_neg \<Rightarrow> sdp_error + sdp_session" where
  "pjmedia_sdp_neg_get_neg_local neg =
     (case neg_local_sdp neg of Some s \<Rightarrow> Inr s | None \<Rightarrow> Inl PJMEDIA_SDPNEG_ENONEG)"

definition pjmedia_sdp_neg_modify_local_offer :: "sdp_neg \<Rightarrow> sdp_session \<Rightarrow> sdp_status \<times> sdp_neg" where
  "pjmedia_sdp_neg_modify_local_offer neg loc =
     (if neg_state neg \<noteq> STATE_DONE then (Inl PJMEDIA_SDPNEG_EINSTATE, neg)
      else (SUCCESS, neg\<lparr>neg_state := STATE_LOCAL_OFFER, initial_sdp := Some loc, neg_local_sdp := Some loc\<rparr>))"

text \<open>The offer is an out parameter, null on failure.\<close>

definition pjmedia_sdp_neg_send_local_offer :: "sdp_neg \<Rightarrow> (sdp_status \<times> sdp_session option) \<times> sdp_neg" where
  "pjmedia_sdp_neg_send_local_offer neg =
     (if \<not> (neg_state neg = STATE_DONE \<or> neg_state neg = STATE_LOCAL_OFFER)
      then ((Inl PJMEDIA_SDPNEG_EINSTATE, None), neg)
      else if neg_state neg = STATE_DONE then
        (case active_local_sdp neg of
           None \<Rightarrow> ((Inl PJMEDIA_SDPNEG_ENOACTIVE, None), neg)
         | Some a \<Rightarrow> ((SUCCESS, Some a), neg\<lparr>neg_state := STATE_LOCAL_OFFER, neg_local_sdp := Some a\<rparr>))
      else ((SUCCESS, neg_local_sdp neg), neg))"

definition pjmedia_sdp_neg_set_remote_answer :: "sdp_neg \<Rightarrow> sdp_session \<Rightarrow> sdp_status \<times> sdp_neg" where
  "pjmedia_sdp_neg_set_remote_answer neg remote =
     (if neg_state neg \<noteq> STATE_LOCAL_OFFER then (Inl PJMEDIA_SDPNEG_EINSTATE, neg)
      else (SUCCESS, neg\<lparr>neg_state := STATE_WAIT_NEGO, has_remote_answer := True, neg_remote_sdp := Some remote\<rparr>))"

definition pjmedia_sdp_neg_set_remote_offer :: "sdp_neg \<Rightarrow> sdp_session \<Rightarrow> sdp_status \<times> sdp_neg" where
  "pjmedia_sdp_neg_set_remote_offer neg remote =
     (if neg_state neg \<noteq> STATE_DONE then (Inl PJMEDIA_SDPNEG_EINSTATE, neg)
      else (SUCCESS, neg\<lparr>neg_state := STATE_REMOTE_OFFER, neg_remote_sdp := Some remote\<rparr>))"

definition pjmedia_sdp_neg_set_local_answer :: "sdp_neg \<Rightarrow> sdp_session option \<Rightarrow> sdp_status \<times> sdp_neg" where
  "pjmedia_sdp_neg_set_local_answer neg loc =
     (if loc = None then (Inl SDP_EINVAL, neg)
      else if neg_state neg \<noteq> STATE_REMOTE_OFFER then (Inl PJMEDIA_SDPNEG_EINSTATE, neg)
      else let neg1 = neg\<lparr>neg_state := STATE_WAIT_NEGO\<rparr>
           in (case loc of
                 Some l \<Rightarrow> (SUCCESS, neg1\<lparr>neg_local_sdp := Some l\<rparr>)
               | None \<Rightarrow>
                   (case initial_sdp neg1 of
                      None \<Rightarrow> (Inl PJMEDIA_SDPNEG_ENOINITIAL, neg1)
                    | Some i \<Rightarrow> (SUCCESS, neg1\<lparr>neg_local_sdp := Some i\<rparr>))))"

definition pjmedia_sdp_neg_has_local_answer :: "sdp_neg \<Rightarrow> bool" where
  "pjmedia_sdp_neg_has_local_answer neg \<longleftrightarrow> \<not> has_remote_answer neg"

section \<open>Directions\<close>

datatype pjmedia_dir =
  PJMEDIA_DIR_NONE | PJMEDIA_DIR_ENCODING | PJMEDIA_DIR_DECODING | PJMEDIA_DIR_ENCODING_DECODING

definition remove_all_media_directions :: "sdp_media \<Rightarrow> sdp_media" where
  "remove_all_media_directions m =
     pjmedia_sdp_media_remove_all_attr (pjmedia_sdp_media_remove_all_attr (pjmedia_sdp_media_remove_all_attr
       (pjmedia_sdp_media_remove_all_attr m ''inactive'') ''sendrecv'') ''sendonly'') ''recvonly''"

definition has_attr :: "sdp_media \<Rightarrow> string \<Rightarrow> bool" where
  "has_attr m name \<longleftrightarrow> pjmedia_sdp_media_find_attr2 m name None \<noteq> None"

definition local_dir :: "sdp_media \<Rightarrow> pjmedia_dir" where
  "local_dir m =
     (if has_attr m ''sendonly'' then PJMEDIA_DIR_ENCODING
      else if has_attr m ''recvonly'' then PJMEDIA_DIR_DECODING
      else if has_attr m ''inactive'' then PJMEDIA_DIR_NONE
      else PJMEDIA_DIR_ENCODING_DECODING)"

definition adjusted_dir :: "sdp_media \<Rightarrow> pjmedia_dir \<Rightarrow> pjmedia_dir" where
  "adjusted_dir remote old_dir =
     (if has_attr remote ''inactive'' then PJMEDIA_DIR_NONE
      else if has_attr remote ''sendonly'' then
        (case old_dir of
           PJMEDIA_DIR_ENCODING_DECODING \<Rightarrow> PJMEDIA_DIR_DECODING
         | PJMEDIA_DIR_DECODING \<Rightarrow> old_dir
         | _ \<Rightarrow> PJMEDIA_DIR_NONE)
      else if has_attr remote ''recvonly'' then
        (case old_dir of
           PJMEDIA_DIR_ENCODING_DECODING \<Rightarrow> PJMEDIA_DIR_ENCODING
         | PJMEDIA_DIR_ENCODING \<Rightarrow> old_dir
         | _ \<Rightarrow> PJMEDIA_DIR_NONE)
      else old_dir)"

definition dir_attr :: "pjmedia_dir \<Rightarrow> sdp_attr option" where
  "dir_attr dir =
     (case dir of
        PJMEDIA_DIR_NONE \<Rightarrow> Some (pjmedia_sdp_attr_create ''inactive'' None)
      | PJMEDIA_DIR_ENCODING \<Rightarrow> Some (pjmedia_sdp_attr_create ''sendonly'' None)
      | PJMEDIA_DIR_DECODING \<Rightarrow> Some (pjmedia_sdp_attr_create ''recvonly'' None)
      | _ \<Rightarrow> None)"

definition update_media_direction :: "sdp_media \<Rightarrow> sdp_media \<Rightarrow> sdp_media" where
  "update_media_direction remote loc =
     (let old_dir = local_dir loc; new_dir = adjusted_dir remote old_dir
      in if new_dir \<noteq> old_dir then
           let m = remove_all_media_directions loc
           in (case dir_attr new_dir of Some a \<Rightarrow> pjmedia_sdp_media_add_attr m a | None \<Rightarrow> m)
         else loc)"

section \<open>Finding a format by its rtpmap\<close>

text \<open>
  The status of \<^verbatim>\<open>pjmedia_sdp_attr_get_rtpmap\<close> is ignored; only an attribute with an empty value leaves the
  structure unfilled. \<open>find_dynamic\<close> is the loop over the formats of the other side.
\<close>

definition fmt_rtpmap :: "sdp_media \<Rightarrow> string \<Rightarrow> sdp_rtpmap option option" where
  "fmt_rtpmap m f =
     (case pjmedia_sdp_media_find_attr2 m ''rtpmap'' (Some f) of
        None \<Rightarrow> Some None
      | Some a \<Rightarrow> map_option Some (snd (pjmedia_sdp_attr_get_rtpmap a)))"

fun find_dynamic :: "(sdp_rtpmap \<Rightarrow> bool) \<Rightarrow> sdp_media \<Rightarrow> string list \<Rightarrow> string option option" where
  "find_dynamic match m [] = Some None"
| "find_dynamic match m (f # fs) = do {
     r \<leftarrow> fmt_rtpmap m f;
     (case r of
        None \<Rightarrow> find_dynamic match m fs
      | Some x \<Rightarrow> if match x then Some (Some f) else find_dynamic match m fs)
   }"

definition str_swap :: "string list \<Rightarrow> nat \<Rightarrow> nat \<Rightarrow> string list" where
  "str_swap fs i j = fs[i := fs ! j, j := fs ! i]"

definition index_from :: "string list \<Rightarrow> nat \<Rightarrow> string \<Rightarrow> nat option" where
  "index_from fs i f = find (\<lambda>j. pj_strcmp f (fs ! j) = 0) [i..<length fs]"

definition remove_fmt_attrs :: "sdp_media \<Rightarrow> string \<Rightarrow> sdp_media" where
  "remove_fmt_attrs m f = remove_found_attr (remove_found_attr m ''rtpmap'' (Some f)) ''fmtp'' (Some f)"

section \<open>Processing an answer\<close>

definition answer_match :: "sdp_rtpmap \<Rightarrow> sdp_rtpmap \<Rightarrow> bool" where
  "answer_match ofr ar \<longleftrightarrow> pj_stricmp (enc_name ofr) (enc_name ar) = 0 \<and> clock_rate ofr = clock_rate ar \<and>
     (pj_stricmp (rm_param ofr) (rm_param ar) = 0 \<or> rm_param ar = ''1'')"

definition answer_has :: "sdp_media \<Rightarrow> sdp_media \<Rightarrow> string \<Rightarrow> (sdp_error + bool) option" where
  "answer_has offer answer f =
     (if pj_strtoul f < 96 then Some (Inr (list_ex (\<lambda>g. pj_strcmp f g = 0) (fmt answer)))
      else case pjmedia_sdp_media_find_attr2 offer ''rtpmap'' (Some f) of
        None \<Rightarrow> Some (Inl SDP_EBUG)
      | Some a \<Rightarrow> do {
          ofr \<leftarrow> snd (pjmedia_sdp_attr_get_rtpmap a);
          r \<leftarrow> find_dynamic (answer_match ofr) answer (fmt answer);
          Some (Inr (r \<noteq> None))
        })"

lemma fmt_remove_found_attr [simp]: "fmt (remove_found_attr m name f) = fmt m"
  by (simp add: remove_found_attr_def split: option.splits)

lemma fmt_remove_fmt_attrs [simp]: "fmt (remove_fmt_attrs m f) = fmt m"
  by (simp add: remove_fmt_attrs_def)

function prune_fmts :: "sdp_media \<Rightarrow> sdp_media \<Rightarrow> nat \<Rightarrow> (sdp_error + sdp_media) option" where
  "prune_fmts offer answer i =
     (if i < length (fmt offer) then
        (case answer_has offer answer (fmt offer ! i) of
           None \<Rightarrow> None
         | Some (Inl e) \<Rightarrow> Some (Inl e)
         | Some (Inr True) \<Rightarrow> prune_fmts offer answer (i + 1)
         | Some (Inr False) \<Rightarrow>
             let m = remove_fmt_attrs offer (fmt offer ! i)
             in prune_fmts (m\<lparr>fmt := pj_array_erase (fmt m) i\<rparr>) answer i)
      else Some (Inr offer))"
  by auto
termination
  by (relation "measure (\<lambda>(offer, _, i). length (fmt offer) - i)") (auto simp: pj_array_erase_def)

declare prune_fmts.simps [simp del]

fun arrange_fmts :: "string list \<Rightarrow> nat \<Rightarrow> string list \<Rightarrow> string list" where
  "arrange_fmts [] i fs = fs"
| "arrange_fmts (f # as) i fs =
     arrange_fmts as (i + 1) (case index_from fs i f of Some j \<Rightarrow> str_swap fs i j | None \<Rightarrow> fs)"

definition asym_common :: "sdp_media \<Rightarrow> sdp_media \<Rightarrow> bool" where
  "asym_common offer answer =
     list_ex (\<lambda>rem_fmt. list_ex (\<lambda>j. pj_strcmp rem_fmt (fmt answer ! j) = 0) [0..<length (fmt offer)]) (fmt answer)"

definition process_m_answer :: "sdp_media \<Rightarrow> sdp_media \<Rightarrow> bool \<Rightarrow> (sdp_error + sdp_media) option" where
  "process_m_answer offer answer allow_asym =
     (if pj_strcmp (media answer) (media offer) \<noteq> 0 then Some (Inl PJMEDIA_SDPNEG_EINVANSMEDIA)
      else if pj_strcmp (transport answer) (transport offer) \<noteq> 0 then Some (Inl PJMEDIA_SDPNEG_EINVANSTP)
      else
        let offer1 = (if port answer = 0 then offer\<lparr>port := 0\<rparr> else offer);
            offer2 = update_media_direction answer offer1
        in if allow_asym then
             (if asym_common offer2 answer then Some (Inr offer2) else Some (Inl PJMEDIA_SDPNEG_EANSNOMEDIA))
           else
             (case prune_fmts offer2 answer 0 of
                None \<Rightarrow> None
              | Some (Inl e) \<Rightarrow> Some (Inl e)
              | Some (Inr offer3) \<Rightarrow> Some (Inr (offer3\<lparr>fmt := arrange_fmts (fmt answer) 0 (fmt offer3)\<rparr>))))"

text \<open>The offer is changed in place; what an error leaves of it is dropped by the caller.\<close>

fun process_medias :: "sdp_media list \<Rightarrow> sdp_media list \<Rightarrow> bool \<Rightarrow> (sdp_error + sdp_media list) option" where
  "process_medias (om # oms) (am # ams) allow_asym =
     (case process_m_answer om am allow_asym of
        None \<Rightarrow> None
      | Some (Inl e) \<Rightarrow> Some (Inl e)
      | Some (Inr m) \<Rightarrow>
          (case process_medias oms ams allow_asym of
             None \<Rightarrow> None
           | Some (Inl e) \<Rightarrow> Some (Inl e)
           | Some (Inr ms) \<Rightarrow> Some (Inr (m # ms))))"
| "process_medias _ _ allow_asym = Some (Inr [])"

definition process_answer :: "sdp_session \<Rightarrow> sdp_session \<Rightarrow> bool \<Rightarrow> (sdp_error + sdp_session) option" where
  "process_answer offer answer allow_asym =
     (if length (s_media offer) \<noteq> length (s_media answer) then Some (Inl PJMEDIA_SDPNEG_EMISMEDIA)
      else case process_medias (s_media offer) (s_media answer) allow_asym of
        None \<Rightarrow> None
      | Some (Inl e) \<Rightarrow> Some (Inl e)
      | Some (Inr ms) \<Rightarrow>
          if list_ex (\<lambda>m. port m \<noteq> 0) ms then Some (Inr (offer\<lparr>s_media := ms\<rparr>))
          else Some (Inl PJMEDIA_SDPNEG_ENOMEDIA))"

section \<open>Creating an answer\<close>

record match_state =
  offer_has_codec :: bool
  offer_has_telephone_event :: bool
  offer_has_other :: bool
  found_matching_codec :: bool
  found_matching_telephone_event :: bool
  found_matching_other :: bool
  pt_answer :: "string list"

definition match_init :: match_state where
  "match_init = \<lparr>offer_has_codec = False, offer_has_telephone_event = False, offer_has_other = False,
     found_matching_codec = False, found_matching_telephone_event = False, found_matching_other = False, pt_answer = []\<rparr>"

definition offer_match :: "sdp_rtpmap \<Rightarrow> sdp_rtpmap \<Rightarrow> bool" where
  "offer_match ofr lr \<longleftrightarrow> pj_stricmp (enc_name ofr) (enc_name lr) = 0 \<and> clock_rate ofr = clock_rate lr \<and>
     (pj_strcmp (rm_param ofr) (rm_param lr) = 0 \<or> rm_param ofr = ''1'')"

definition match_static :: "sdp_media \<Rightarrow> match_state \<Rightarrow> string \<Rightarrow> match_state" where
  "match_static preanswer st f =
     (let st = st\<lparr>offer_has_codec := True\<rparr> in
      if found_matching_codec st then st
      else case find (\<lambda>g. pj_strtoul g = pj_strtoul f \<and> fmt_isdigit g) (fmt preanswer) of
        Some g \<Rightarrow> st\<lparr>found_matching_codec := True, pt_answer := pt_answer st @ [g]\<rparr>
      | None \<Rightarrow> st)"

definition match_dynamic :: "sdp_media \<Rightarrow> sdp_media \<Rightarrow> match_state \<Rightarrow> string \<Rightarrow> (sdp_error + match_state) option" where
  "match_dynamic offer preanswer st f =
     (case pjmedia_sdp_media_find_attr2 offer ''rtpmap'' (Some f) of
        None \<Rightarrow> Some (Inl PJMEDIA_SDP_EMISSINGRTPMAP)
      | Some a \<Rightarrow> do {
          ofr \<leftarrow> snd (pjmedia_sdp_attr_get_rtpmap a);
          (if pj_strcmp2 (enc_name ofr) ''telephone-event'' = 0 then
             let st = st\<lparr>offer_has_telephone_event := True\<rparr> in
             if found_matching_telephone_event st then Some (Inr st)
             else do {
               r \<leftarrow> find_dynamic (offer_match ofr) preanswer (fmt preanswer);
               Some (Inr (case r of
                 Some g \<Rightarrow> st\<lparr>found_matching_telephone_event := True, pt_answer := pt_answer st @ [g]\<rparr>
               | None \<Rightarrow> st))
             }
           else
             let st = st\<lparr>offer_has_codec := True\<rparr> in
             if found_matching_codec st then Some (Inr st)
             else do {
               r \<leftarrow> find_dynamic (offer_match ofr) preanswer (fmt preanswer);
               Some (Inr (case r of
                 Some g \<Rightarrow> st\<lparr>found_matching_codec := True, pt_answer := pt_answer st @ [g]\<rparr>
               | None \<Rightarrow> st))
             })
        })"

definition match_other :: "sdp_media \<Rightarrow> match_state \<Rightarrow> string \<Rightarrow> match_state" where
  "match_other preanswer st f =
     (let st = st\<lparr>offer_has_other := True\<rparr> in
      if found_matching_other st then st
      else case find (\<lambda>g. pj_strcmp f g = 0) (fmt preanswer) of
        Some g \<Rightarrow> st\<lparr>found_matching_other := True, pt_answer := pt_answer st @ [g]\<rparr>
      | None \<Rightarrow> st)"

fun match_fmts :: "sdp_media \<Rightarrow> sdp_media \<Rightarrow> match_state \<Rightarrow> string list \<Rightarrow> (sdp_error + match_state) option" where
  "match_fmts offer preanswer st [] = Some (Inr st)"
| "match_fmts offer preanswer st (f # fs) =
     (if fmt_isdigit f then
        if pj_strtoul f < 96 then match_fmts offer preanswer (match_static preanswer st f) fs
        else (case match_dynamic offer preanswer st f of
          None \<Rightarrow> None
        | Some (Inl e) \<Rightarrow> Some (Inl e)
        | Some (Inr st) \<Rightarrow> match_fmts offer preanswer st fs)
      else match_fmts offer preanswer (match_other preanswer st f) fs)"

fun place_fmts :: "string list \<Rightarrow> nat \<Rightarrow> string list \<Rightarrow> string list option" where
  "place_fmts [] i fs = Some fs"
| "place_fmts (p # ps) i fs =
     (case index_from fs i p of
        None \<Rightarrow> None
      | Some j \<Rightarrow> place_fmts ps (i + 1) (str_swap fs i j))"

definition build_answer :: "sdp_media \<Rightarrow> sdp_media \<Rightarrow> string list \<Rightarrow> sdp_media option" where
  "build_answer offer orig_local pts =
     (case place_fmts pts 0 (fmt orig_local) of
        None \<Rightarrow> None
      | Some fs \<Rightarrow>
          let answer = foldl remove_fmt_attrs orig_local (drop (length pts) fs);
              answer = answer\<lparr>fmt := take (length pts) fs\<rparr>;
              answer = (if port offer = 0 then answer\<lparr>port := 0\<rparr> else answer)
          in Some (update_media_direction offer answer))"

definition match_offer :: "sdp_media \<Rightarrow> sdp_media \<Rightarrow> sdp_media \<Rightarrow> (sdp_error + sdp_media) option" where
  "match_offer offer preanswer orig_local =
     (case match_fmts offer preanswer match_init (fmt offer) of
        None \<Rightarrow> None
      | Some (Inl e) \<Rightarrow> Some (Inl e)
      | Some (Inr st) \<Rightarrow>
          if offer_has_codec st \<and> \<not> found_matching_codec st then Some (Inl PJMEDIA_SDPNEG_NOANSCODEC)
          else if offer_has_other st \<and> \<not> found_matching_other st then Some (Inl PJMEDIA_SDPNEG_NOANSUNKNOWN)
          else map_option Inr (build_answer offer orig_local (pt_answer st)))"

text \<open>The inner loop of \<^verbatim>\<open>create_answer\<close>: \<open>j\<close> counts the local media, \<open>used\<close> are the flags of \<^verbatim>\<open>media_used\<close>.\<close>

fun find_local_media :: "bool \<Rightarrow> sdp_media \<Rightarrow> sdp_media list \<Rightarrow> bool list \<Rightarrow> nat \<Rightarrow> sdp_status \<Rightarrow>
    (sdp_status \<times> (nat \<times> sdp_media) option) option" where
  "find_local_media prefer_remote om (im # ims) used j status =
     (if pj_strcmp (media om) (media im) = 0 \<and> pj_strcmp (transport om) (transport im) = 0 \<and> \<not> used ! j then
        (case (if prefer_remote then match_offer om im im else match_offer im om im) of
           None \<Rightarrow> None
         | Some (Inr am) \<Rightarrow> Some (SUCCESS, Some (j, am))
         | Some (Inl e) \<Rightarrow> find_local_media prefer_remote om ims used (j + 1) (Inl e))
      else find_local_media prefer_remote om ims used (j + 1) status)"
| "find_local_media prefer_remote om [] used j status = Some (status, None)"

definition reject_media :: "sdp_media \<Rightarrow> sdp_media" where
  "reject_media om =
     pjmedia_sdp_media_add_attr (remove_all_media_directions (om\<lparr>port := 0\<rparr>)) (pjmedia_sdp_attr_create ''inactive'' None)"

fun answer_medias :: "bool \<Rightarrow> sdp_media list \<Rightarrow> sdp_media list \<Rightarrow> bool list \<Rightarrow> sdp_status \<Rightarrow>
    (sdp_status \<times> sdp_media list) option" where
  "answer_medias prefer_remote initial [] used status = Some (status, [])"
| "answer_medias prefer_remote initial (om # oms) used status =
     (case find_local_media prefer_remote om initial used 0 status of
        None \<Rightarrow> None
      | Some (status, r) \<Rightarrow>
          let (am, used) = (case r of Some (j, am) \<Rightarrow> (am, used[j := True]) | None \<Rightarrow> (reject_media om, used))
          in (case answer_medias prefer_remote initial oms used status of
                None \<Rightarrow> None
              | Some (status, ams) \<Rightarrow> Some (status, am # ams)))"

definition create_answer :: "bool \<Rightarrow> sdp_session \<Rightarrow> sdp_session \<Rightarrow> (sdp_error + sdp_session) option" where
  "create_answer prefer_remote initial offer =
     (case pjmedia_sdp_validate offer of
        Inl e \<Rightarrow> Some (Inl e)
      | Inr _ \<Rightarrow>
          (case answer_medias prefer_remote (s_media initial) (s_media offer)
                  (replicate PJMEDIA_MAX_SDP_MEDIA False) SUCCESS of
             None \<Rightarrow> None
           | Some (status, ams) \<Rightarrow>
               let answer = initial\<lparr>s_media := ams\<rparr>
               in if list_ex (\<lambda>m. port m \<noteq> 0) ams then Some (Inr answer)
                  else (case status of Inl e \<Rightarrow> Some (Inl e) | Inr _ \<Rightarrow> Some (Inr answer))))"

section \<open>Negotiation\<close>

definition negotiated :: "sdp_neg \<Rightarrow> sdp_neg" where
  "negotiated neg = neg\<lparr>neg_state := STATE_DONE, answer_was_remote := has_remote_answer neg,
     neg_local_sdp := None, neg_remote_sdp := None, has_remote_answer := False\<rparr>"

definition negotiate_remote_answer :: "sdp_neg \<Rightarrow> sdp_session \<Rightarrow> bool \<Rightarrow> (sdp_status \<times> sdp_neg) option" where
  "negotiate_remote_answer neg remote allow_asym =
     (case neg_local_sdp neg of
        None \<Rightarrow> Some (Inl SDP_EINVAL, neg)
      | Some loc \<Rightarrow>
          (case process_answer loc remote allow_asym of
             None \<Rightarrow> None
           | Some (Inl e) \<Rightarrow> Some (Inl e, neg)
           | Some (Inr active) \<Rightarrow>
               Some (SUCCESS, neg\<lparr>active_local_sdp := Some active, active_remote_sdp := Some remote\<rparr>)))"

definition negotiate_local_answer :: "sdp_neg \<Rightarrow> sdp_session \<Rightarrow> (sdp_status \<times> sdp_neg) option" where
  "negotiate_local_answer neg remote =
     (case neg_local_sdp neg of
        None \<Rightarrow> Some (case pjmedia_sdp_validate remote of Inl e \<Rightarrow> Inl e | Inr _ \<Rightarrow> Inl SDP_ENOMEM, neg)
      | Some loc \<Rightarrow>
          (case create_answer (prefer_remote_codec_order neg) loc remote of
             None \<Rightarrow> None
           | Some (Inl e) \<Rightarrow> Some (Inl e, neg)
           | Some (Inr answer) \<Rightarrow>
               (case (case active_local_sdp neg of Some a \<Rightarrow> Some a | None \<Rightarrow> initial_sdp neg) of
                  None \<Rightarrow> None
                | Some old \<Rightarrow>
                    Some (SUCCESS, neg\<lparr>
                      active_local_sdp := Some (answer\<lparr>origin := (origin answer)\<lparr>o_version := o_version (origin old) + 1\<rparr>\<rparr>),
                      active_remote_sdp := Some remote\<rparr>))))"

definition pjmedia_sdp_neg_negotiate :: "sdp_neg \<Rightarrow> bool \<Rightarrow> (sdp_status \<times> sdp_neg) option" where
  "pjmedia_sdp_neg_negotiate neg allow_asym =
     (if neg_state neg \<noteq> STATE_WAIT_NEGO then Some (Inl PJMEDIA_SDPNEG_EINSTATE, neg)
      else case neg_remote_sdp neg of
        None \<Rightarrow> Some (Inl SDP_EBUG, neg)
      | Some remote \<Rightarrow>
          map_option (apsnd negotiated)
            (if has_remote_answer neg then negotiate_remote_answer neg remote allow_asym
             else negotiate_local_answer neg remote))"

end
