(* ===== verification/Sdp_Answer.thy ===== *)
theory Sdp_Answer
  imports Sdp_Neg "HOL-Library.Multiset"
begin

text \<open>
  The two negotiation algorithms of \<^verbatim>\<open>sdp_neg.c\<close>: attribute lists, directions, the choice of formats for an answer, the
  shape of the answer, and that the side that made the offer accepts the answer of the other side.
\<close>

section \<open>Attribute lists\<close>

lemma attr_find_from_Some:
  "attr_find_from as name pt i = Some k \<Longrightarrow> i \<le> k \<and> k < i + length as"
  by (induction as arbitrary: i) (fastforce split: if_splits option.splits)+

definition names_attr :: "string \<Rightarrow> 32 word option \<Rightarrow> sdp_attr \<Rightarrow> bool" where
  "names_attr name pt a \<longleftrightarrow> attr_name a = name \<and> (\<forall>v. pt = Some v \<longrightarrow> pj_strtoul2 (attr_value a) 10 = v)"

lemma attr_find_from_split:
  "attr_find_from as name pt i = Some (i + k) \<longleftrightarrow>
   k < length as \<and> names_attr name pt (as ! k) \<and> (\<forall>l < k. \<not> names_attr name pt (as ! l))"
proof (induction as arbitrary: i k)
  case (Cons a as)
  have step: "attr_find_from (a # as) name pt i = (if names_attr name pt a then Some i else attr_find_from as name pt (Suc i))"
    by (auto simp: names_attr_def split: option.splits)
  show ?case
  proof (cases k)
    case 0
    then show ?thesis using attr_find_from_Some[of as name pt "Suc i" i] unfolding step by auto
  next
    case (Suc k')
    have "attr_find_from as name pt (Suc i) = Some (i + k) \<longleftrightarrow>
        k' < length as \<and> names_attr name pt (as ! k') \<and> (\<forall>l < k'. \<not> names_attr name pt (as ! l))"
      using Cons.IH[of "Suc i" k'] Suc by simp
    then show ?thesis using Suc unfolding step by (auto simp: nth_Cons' less_Suc_eq_0_disj)
  qed
qed simp

lemma attr_find_from_None: "attr_find_from as name pt i = None \<longleftrightarrow> (\<forall>a \<in> set as. \<not> names_attr name pt a)"
  by (induction as arbitrary: i) (auto simp: names_attr_def split: option.splits)

lemma find_attr2_find:
  "pjmedia_sdp_media_find_attr2 m name f = find (names_attr name (map_option pj_strtoul f)) (m_attr m)"
proof (cases "pjmedia_sdp_attr_find (m_attr m) name f")
  case None
  then have "find (names_attr name (map_option pj_strtoul f)) (m_attr m) = None"
    by (simp add: pjmedia_sdp_attr_find_def attr_find_from_None find_None_iff)
  then show ?thesis using None by (simp add: pjmedia_sdp_media_find_attr2_def)
next
  case (Some i)
  then have "find (names_attr name (map_option pj_strtoul f)) (m_attr m) = Some (m_attr m ! i)"
    using attr_find_from_split[of "m_attr m" name "map_option pj_strtoul f" 0 i]
    by (auto simp: pjmedia_sdp_attr_find_def find_Some_iff)
  then show ?thesis using Some by (simp add: pjmedia_sdp_media_find_attr2_def)
qed

lemma has_attr_iff: "has_attr m name \<longleftrightarrow> name \<in> attr_name ` set (m_attr m)"
  by (auto simp: has_attr_def find_attr2_find find_None_iff names_attr_def)

lemma erase_nth: "i < length xs \<Longrightarrow> P (xs ! i) \<Longrightarrow> (\<forall>l < i. \<not> P (xs ! l)) \<Longrightarrow>
   \<exists>ys zs. xs = ys @ xs ! i # zs \<and> pj_array_erase xs i = ys @ zs \<and> (\<forall>y \<in> set ys. \<not> P y)"
  by (intro exI[of _ "take i xs"] exI[of _ "drop (Suc i) xs"])
     (auto simp: id_take_nth_drop[symmetric] pj_array_erase_def in_set_conv_nth)

lemma remove_found_attr_cases:
  obtains (found) ys a zs where "m_attr m = ys @ a # zs" "names_attr name (map_option pj_strtoul f) a"
      "remove_found_attr m name f = m\<lparr>m_attr := ys @ zs\<rparr>"
  | (absent) "remove_found_attr m name f = m"
proof (cases "pjmedia_sdp_attr_find (m_attr m) name f")
  case None
  then show ?thesis using absent by (simp add: remove_found_attr_def)
next
  case (Some i)
  let ?P = "names_attr name (map_option pj_strtoul f)"
  have "i < length (m_attr m)" "?P (m_attr m ! i)" "\<forall>l < i. \<not> ?P (m_attr m ! l)"
    using Some attr_find_from_split[of "m_attr m" name "map_option pj_strtoul f" 0 i]
    by (auto simp: pjmedia_sdp_attr_find_def)
  then show ?thesis using erase_nth[of i "m_attr m" ?P] found Some by (auto simp: remove_found_attr_def)
qed

lemma find_append: "find P (xs @ ys) = (case find P xs of None \<Rightarrow> find P ys | Some x \<Rightarrow> Some x)"
  by (induction xs) auto

lemma find_attr2_remove_other:
  assumes "\<And>a. names_attr name (map_option pj_strtoul f) a \<Longrightarrow> \<not> names_attr name' (map_option pj_strtoul g) a"
  shows "pjmedia_sdp_media_find_attr2 (remove_found_attr m name f) name' g = pjmedia_sdp_media_find_attr2 m name' g"
  by (rule remove_found_attr_cases[of m name f])
     (use assms in \<open>auto simp: find_attr2_find find_append split: option.splits\<close>)

text \<open>Removing the attributes of one payload type does not touch those of another.\<close>

lemma find_rtpmap_remove_fmt:
  assumes "pj_strtoul f \<noteq> pj_strtoul g"
  shows "pjmedia_sdp_media_find_attr2 (remove_fmt_attrs m f) ''rtpmap'' (Some g) =
         pjmedia_sdp_media_find_attr2 m ''rtpmap'' (Some g)"
  unfolding remove_fmt_attrs_def
  by (subst find_attr2_remove_other, simp add: names_attr_def)+ (use assms in \<open>auto simp: names_attr_def\<close>)

lemma remove_found_attr_frame [simp]:
  "media (remove_found_attr m n f) = media m" "port (remove_found_attr m n f) = port m"
  "transport (remove_found_attr m n f) = transport m" "m_conn (remove_found_attr m n f) = m_conn m"
  by (simp_all add: remove_found_attr_def split: option.splits)

lemma remove_fmt_attrs_frame [simp]:
  "media (remove_fmt_attrs m f) = media m" "port (remove_fmt_attrs m f) = port m"
  "transport (remove_fmt_attrs m f) = transport m" "m_conn (remove_fmt_attrs m f) = m_conn m"
  by (simp_all add: remove_fmt_attrs_def)

lemma set_remove_found_attr: "set (m_attr (remove_found_attr m n f)) \<subseteq> set (m_attr m)"
  by (rule remove_found_attr_cases[of m n f]) auto

lemma set_remove_fmt_attrs: "set (m_attr (remove_fmt_attrs m f)) \<subseteq> set (m_attr m)"
  unfolding remove_fmt_attrs_def using set_remove_found_attr by blast

lemma length_remove_found_attr: "length (m_attr (remove_found_attr m n f)) \<le> length (m_attr m)"
  by (rule remove_found_attr_cases[of m n f]) auto

lemma length_remove_fmt_attrs: "length (m_attr (remove_fmt_attrs m f)) \<le> length (m_attr m)"
  unfolding remove_fmt_attrs_def using length_remove_found_attr le_trans by blast

lemma attr_remove_from_filter:
  "i \<le> length as \<Longrightarrow> attr_remove_from as name i = take i as @ filter (\<lambda>a. attr_name a \<noteq> name) (drop i as)"
proof (induction as name i rule: attr_remove_from.induct)
  case (1 as name i)
  show ?case
  proof (cases "i < length as")
    case True
    then have d: "drop i as = as ! i # drop (Suc i) as" by (simp add: Cons_nth_drop_Suc)
    show ?thesis
    proof (cases "attr_name (as ! i) = name")
      case t: True
      have "attr_remove_from as name i = attr_remove_from (pj_array_erase as i) name i"
        using True t by (subst attr_remove_from.simps) simp
      then show ?thesis using 1(1)[OF True] t True d by (simp add: pj_array_erase_def)
    next
      case f: False
      have "attr_remove_from as name i = attr_remove_from as name (i + 1)"
        using True f by (subst attr_remove_from.simps) simp
      then show ?thesis using 1(2)[OF True] f True d by (simp add: take_Suc_conv_app_nth)
    qed
  next
    case False
    then show ?thesis using 1 by (subst attr_remove_from.simps) simp
  qed
qed

lemma remove_all_directions_attr:
  "m_attr (remove_all_media_directions m) =
     filter (\<lambda>a. attr_name a \<notin> {''inactive'', ''sendrecv'', ''sendonly'', ''recvonly''}) (m_attr m)"
  by (auto simp: remove_all_media_directions_def pjmedia_sdp_media_remove_all_attr_def attr_remove_from_filter intro: filter_cong)

section \<open>Directions\<close>

definition can_send :: "sdp_media \<Rightarrow> bool" where
  "can_send m \<longleftrightarrow> local_dir m \<in> {PJMEDIA_DIR_ENCODING, PJMEDIA_DIR_ENCODING_DECODING}"

definition can_recv :: "sdp_media \<Rightarrow> bool" where
  "can_recv m \<longleftrightarrow> local_dir m \<in> {PJMEDIA_DIR_DECODING, PJMEDIA_DIR_ENCODING_DECODING}"

text \<open>At most one of the attributes that restrict the direction.\<close>

definition one_direction :: "sdp_media \<Rightarrow> bool" where
  "one_direction m \<longleftrightarrow> \<not> (has_attr m ''sendonly'' \<and> has_attr m ''recvonly'') \<and>
     \<not> (has_attr m ''sendonly'' \<and> has_attr m ''inactive'') \<and> \<not> (has_attr m ''recvonly'' \<and> has_attr m ''inactive'')"

lemma remove_all_directions_frame [simp]:
  "media (remove_all_media_directions m) = media m" "port (remove_all_media_directions m) = port m"
  "transport (remove_all_media_directions m) = transport m" "fmt (remove_all_media_directions m) = fmt m"
  "m_conn (remove_all_media_directions m) = m_conn m"
  by (simp_all add: remove_all_media_directions_def pjmedia_sdp_media_remove_all_attr_def)

lemma add_attr_frame [simp]:
  "media (pjmedia_sdp_media_add_attr m a) = media m" "port (pjmedia_sdp_media_add_attr m a) = port m"
  "transport (pjmedia_sdp_media_add_attr m a) = transport m" "fmt (pjmedia_sdp_media_add_attr m a) = fmt m"
  "m_conn (pjmedia_sdp_media_add_attr m a) = m_conn m"
  by (simp_all add: pjmedia_sdp_media_add_attr_def)

lemma update_direction_frame [simp]:
  "media (update_media_direction r m) = media m" "port (update_media_direction r m) = port m"
  "transport (update_media_direction r m) = transport m" "fmt (update_media_direction r m) = fmt m"
  "m_conn (update_media_direction r m) = m_conn m"
  by (simp_all add: update_media_direction_def Let_def split: option.splits)

lemma local_dir_set_direction:
  assumes "length (m_attr m) < PJMEDIA_MAX_SDP_ATTR"
  shows "local_dir (case dir_attr d of Some a \<Rightarrow> pjmedia_sdp_media_add_attr (remove_all_media_directions m) a
      | None \<Rightarrow> remove_all_media_directions m) = d"
proof -
  have "length (m_attr (remove_all_media_directions m)) < PJMEDIA_MAX_SDP_ATTR"
    using assms by (simp add: remove_all_directions_attr le_less_trans[OF length_filter_le])
  then show ?thesis
    by (cases d) (auto simp: dir_attr_def pjmedia_sdp_attr_create_def local_dir_def has_attr_iff pjmedia_sdp_media_add_attr_def
        pjmedia_sdp_attr_add_def remove_all_directions_attr)
qed

lemma local_dir_update:
  "length (m_attr loc) < PJMEDIA_MAX_SDP_ATTR \<Longrightarrow>
   local_dir (update_media_direction remote loc) = adjusted_dir remote (local_dir loc)"
  using local_dir_set_direction[of loc "adjusted_dir remote (local_dir loc)"]
  by (auto simp: update_media_direction_def Let_def)

lemma adjusted_dir_send_recv:
  assumes "one_direction remote"
  shows "adjusted_dir remote d \<in> {PJMEDIA_DIR_ENCODING, PJMEDIA_DIR_ENCODING_DECODING} \<longleftrightarrow>
           d \<in> {PJMEDIA_DIR_ENCODING, PJMEDIA_DIR_ENCODING_DECODING} \<and> can_recv remote"
    and "adjusted_dir remote d \<in> {PJMEDIA_DIR_DECODING, PJMEDIA_DIR_ENCODING_DECODING} \<longleftrightarrow>
           d \<in> {PJMEDIA_DIR_DECODING, PJMEDIA_DIR_ENCODING_DECODING} \<and> can_send remote"
  using assms by (cases d; auto simp: adjusted_dir_def one_direction_def can_recv_def can_send_def local_dir_def)+

text \<open>
  C14. After the update the local side of a media may send exactly if it could before and the peer receives, and may
  receive exactly if it could before and the peer sends; nothing but the attributes of the media changes.
\<close>

theorem direction_follows_peer:
  assumes "one_direction remote" "length (m_attr loc) < PJMEDIA_MAX_SDP_ATTR"
  shows "let m = update_media_direction remote loc in
     can_send m = (can_send loc \<and> can_recv remote) \<and> can_recv m = (can_recv loc \<and> can_send remote) \<and>
     m\<lparr>m_attr := m_attr loc\<rparr> = loc"
proof -
  have "m\<lparr>m_attr := m_attr loc\<rparr> = loc" if "m = update_media_direction remote loc" for m
    unfolding that by (simp add: update_media_direction_def remove_all_media_directions_def pjmedia_sdp_media_remove_all_attr_def
        pjmedia_sdp_media_add_attr_def Let_def split: option.splits)
  then show ?thesis
    using adjusted_dir_send_recv[OF assms(1)] local_dir_update[OF assms(2), of remote]
    by (simp add: can_send_def can_recv_def Let_def)
qed

lemma reject_media_inactive:
  assumes "length (m_attr om) < PJMEDIA_MAX_SDP_ATTR"
  shows "\<not> can_send (reject_media om)" "\<not> can_recv (reject_media om)"
  using local_dir_set_direction[of "om\<lparr>port := 0\<rparr>" PJMEDIA_DIR_NONE] assms
  by (simp_all add: reject_media_def dir_attr_def can_send_def can_recv_def)

lemma reject_media_frame [simp]:
  "media (reject_media om) = media om" "transport (reject_media om) = transport om" "fmt (reject_media om) = fmt om"
  "port (reject_media om) = 0"
  by (simp_all add: reject_media_def)

text \<open>Directions do not touch the other attributes.\<close>

definition dir_names :: "string list" where
  "dir_names = [''inactive'', ''sendrecv'', ''sendonly'', ''recvonly'']"

lemma find_filter_other: "(\<And>x. Q x \<Longrightarrow> P x) \<Longrightarrow> find Q (filter P xs) = find Q xs"
  by (induction xs) auto

lemma find_attr2_remove_directions:
  "name \<notin> set dir_names \<Longrightarrow> pjmedia_sdp_media_find_attr2 (remove_all_media_directions m) name f =
   pjmedia_sdp_media_find_attr2 m name f"
  by (simp add: find_attr2_find remove_all_directions_attr)
     (rule find_filter_other, auto simp: names_attr_def dir_names_def)

lemma find_attr2_add_direction:
  "name \<notin> set dir_names \<Longrightarrow> d \<in> set dir_names \<Longrightarrow>
   pjmedia_sdp_media_find_attr2 (pjmedia_sdp_media_add_attr m (pjmedia_sdp_attr_create d v)) name f =
   pjmedia_sdp_media_find_attr2 m name f"
  by (auto simp: find_attr2_find pjmedia_sdp_media_add_attr_def pjmedia_sdp_attr_add_def find_append names_attr_def
      pjmedia_sdp_attr_create_def split: option.splits)

lemma find_attr2_update_direction:
  "name \<notin> set dir_names \<Longrightarrow> pjmedia_sdp_media_find_attr2 (update_media_direction r m) name f =
   pjmedia_sdp_media_find_attr2 m name f"
  by (auto simp: update_media_direction_def Let_def dir_attr_def find_attr2_remove_directions
      find_attr2_add_direction split: pjmedia_dir.splits) (auto simp: find_attr2_add_direction find_attr2_remove_directions dir_names_def)

lemma find_attr2_reject:
  "name \<notin> set dir_names \<Longrightarrow> pjmedia_sdp_media_find_attr2 (reject_media m) name f = pjmedia_sdp_media_find_attr2 m name f"
  unfolding reject_media_def
  by (subst find_attr2_add_direction, simp, simp add: dir_names_def, subst find_attr2_remove_directions, simp)
     (simp add: find_attr2_find)

definition plain_media :: sdp_media where
  "plain_media = \<lparr>media = ''audio'', port = 4000, port_count = 0, transport = ''RTP/AVP'', fmt = [''0'', ''8''],
     m_conn = None, m_attr = []\<rparr>"

definition held_media :: sdp_media where
  "held_media = plain_media\<lparr>m_attr := [pjmedia_sdp_attr_create ''sendonly'' None]\<rparr>"

lemmas max_sdp_defs = PJMEDIA_MAX_SDP_ATTR_def PJMEDIA_MAX_SDP_FMT_def PJMEDIA_MAX_SDP_MEDIA_def

lemma held_media_dir:
  "one_direction held_media" "can_send held_media" "\<not> can_recv held_media" "can_send plain_media" "can_recv plain_media"
  by (simp_all add: one_direction_def has_attr_iff can_send_def can_recv_def local_dir_def plain_media_def held_media_def
      pjmedia_sdp_attr_create_def)

theorem direction_follows_peer_witness:
  "\<not> can_send (update_media_direction held_media plain_media) \<and> can_recv (update_media_direction held_media plain_media)"
proof -
  have "length (m_attr plain_media) < PJMEDIA_MAX_SDP_ATTR" by (simp add: plain_media_def max_sdp_defs)
  then show ?thesis using direction_follows_peer[OF held_media_dir(1), of plain_media] held_media_dir by (simp add: Let_def)
qed

section \<open>Rearranging formats\<close>

lemma index_from_Some: "index_from fs i f = Some j \<Longrightarrow> i \<le> j \<and> j < length fs \<and> fs ! j = f"
  by (auto simp: index_from_def find_Some_iff)

lemma length_str_swap [simp]: "length (str_swap fs i j) = length fs"
  by (simp add: str_swap_def)

lemma mset_str_swap: "i < length fs \<Longrightarrow> j < length fs \<Longrightarrow> mset (str_swap fs i j) = mset fs"
  by (simp add: str_swap_def mset_swap)

lemma take_Suc_str_swap: "i \<le> j \<Longrightarrow> j < length fs \<Longrightarrow> take (Suc i) (str_swap fs i j) = take i fs @ [fs ! j]"
  by (cases "i = j") (auto simp: str_swap_def take_Suc_conv_app_nth)

lemma place_fmts_Some:
  "place_fmts ps i fs = Some fs' \<Longrightarrow> i \<le> length fs \<Longrightarrow>
   mset fs' = mset fs \<and> i + length ps \<le> length fs \<and> take (i + length ps) fs' = take i fs @ ps"
proof (induction ps arbitrary: i fs)
  case (Cons p ps)
  obtain j where j: "index_from fs i p = Some j" and r: "place_fmts ps (i + 1) (str_swap fs i j) = Some fs'"
    using Cons.prems(1) by (auto split: option.splits)
  have ij: "i \<le> j" "j < length fs" "fs ! j = p" using index_from_Some[OF j] by auto
  show ?case
    using Cons.IH[OF r] ij mset_str_swap[of i fs j] take_Suc_str_swap[of i j fs] by simp
qed simp

lemma mset_arrange_fmts: "mset (arrange_fmts as i fs) = mset fs"
proof (induction as i fs rule: arrange_fmts.induct)
  case (2 f as i fs)
  have "mset (case index_from fs i f of Some j \<Rightarrow> str_swap fs i j | None \<Rightarrow> fs) = mset fs"
    using index_from_Some[of fs i f] by (auto simp: mset_str_swap split: option.split)
  then show ?case using 2 by simp
qed simp

section \<open>Which format answers which\<close>

definition fmt_answers :: "sdp_media \<Rightarrow> sdp_media \<Rightarrow> string \<Rightarrow> string \<Rightarrow> bool" where
  "fmt_answers offer pre f g \<longleftrightarrow>
     (if \<not> fmt_isdigit f then g = f
      else if pj_strtoul f < 96 then fmt_isdigit g \<and> pj_strtoul g = pj_strtoul f
      else \<exists>ofr lr. fmt_rtpmap offer f = Some (Some ofr) \<and> fmt_rtpmap pre g = Some (Some lr) \<and> offer_match ofr lr)"

definition codec_fmt :: "sdp_media \<Rightarrow> string \<Rightarrow> bool" where
  "codec_fmt offer f \<longleftrightarrow> fmt_isdigit f \<and> (pj_strtoul f < 96 \<or>
     (\<exists>ofr. fmt_rtpmap offer f = Some (Some ofr) \<and> pj_strcmp2 (enc_name ofr) ''telephone-event'' \<noteq> 0))"

text \<open>Among the codecs of \<open>fs\<close>, one that comes first among those with an answer is answered by \<open>g\<close>.\<close>

definition first_answered :: "sdp_media \<Rightarrow> sdp_media \<Rightarrow> string list \<Rightarrow> string \<Rightarrow> bool" where
  "first_answered offer pre fs g \<longleftrightarrow> (\<exists>fs1 f fs2. fs = fs1 @ f # fs2 \<and> codec_fmt offer f \<and> fmt_answers offer pre f g \<and>
     (\<forall>f' \<in> set fs1. codec_fmt offer f' \<longrightarrow> (\<forall>g' \<in> set (fmt pre). \<not> fmt_answers offer pre f' g')))"

definition match_inv :: "sdp_media \<Rightarrow> sdp_media \<Rightarrow> string list \<Rightarrow> match_state \<Rightarrow> bool" where
  "match_inv offer pre fs st \<longleftrightarrow>
     (\<forall>g \<in> set (pt_answer st). g \<in> set (fmt pre) \<and> (\<exists>f \<in> set fs. fmt_answers offer pre f g)) \<and>
     length (pt_answer st) = of_bool (found_matching_codec st) + of_bool (found_matching_telephone_event st) +
       of_bool (found_matching_other st) \<and>
     (offer_has_codec st \<longleftrightarrow> (\<exists>f \<in> set fs. codec_fmt offer f)) \<and>
     (if found_matching_codec st then \<exists>g \<in> set (pt_answer st). first_answered offer pre fs g
      else \<forall>f \<in> set fs. codec_fmt offer f \<longrightarrow> (\<forall>g \<in> set (fmt pre). \<not> fmt_answers offer pre f g))"

lemma first_answered_snoc: "first_answered offer pre fs g \<Longrightarrow> first_answered offer pre (fs @ [f]) g"
  unfolding first_answered_def by (metis append_Cons append_assoc)

lemma first_answered_new:
  "codec_fmt offer f \<Longrightarrow> fmt_answers offer pre f g \<Longrightarrow>
   \<forall>f' \<in> set fs. codec_fmt offer f' \<longrightarrow> (\<forall>g' \<in> set (fmt pre). \<not> fmt_answers offer pre f' g') \<Longrightarrow>
   first_answered offer pre (fs @ [f]) g"
  unfolding first_answered_def by blast

lemma match_inv_init: "match_inv offer pre [] match_init"
  by (simp add: match_inv_def match_init_def)

text \<open>One step for a codec, with the format of the other side that was found for it, and one for the others.\<close>

lemma match_inv_codec:
  assumes "match_inv offer pre fs st" "codec_fmt offer f"
    and "st' = (let s = st\<lparr>offer_has_codec := True\<rparr> in if found_matching_codec s then s
       else case r of Some g \<Rightarrow> s\<lparr>found_matching_codec := True, pt_answer := pt_answer s @ [g]\<rparr> | None \<Rightarrow> s)"
    and "\<not> found_matching_codec st \<Longrightarrow> (case r of Some g \<Rightarrow> g \<in> set (fmt pre) \<and> fmt_answers offer pre f g
       | None \<Rightarrow> \<forall>g \<in> set (fmt pre). \<not> fmt_answers offer pre f g)"
  shows "match_inv offer pre (fs @ [f]) st'"
proof (cases "found_matching_codec st")
  case True
  then show ?thesis using assms(1-3) unfolding match_inv_def by (auto simp: Let_def intro: first_answered_snoc)
next
  case False
  show ?thesis
  proof (cases r)
    case None
    then show ?thesis using assms False unfolding match_inv_def by (auto simp: Let_def)
  next
    case (Some g)
    have "first_answered offer pre (fs @ [f]) g"
      using assms False Some by (intro first_answered_new) (auto simp: match_inv_def)
    then show ?thesis using assms False Some unfolding match_inv_def by (auto simp: Let_def)
  qed
qed

lemma match_inv_other:
  assumes "match_inv offer pre fs st" "\<not> codec_fmt offer f"
    and "offer_has_codec st' = offer_has_codec st" "found_matching_codec st' = found_matching_codec st"
    and "pt_answer st' = pt_answer st @ (case r of Some g \<Rightarrow> [g] | None \<Rightarrow> [])"
    and "of_bool (found_matching_telephone_event st') + of_bool (found_matching_other st') =
      of_bool (found_matching_telephone_event st) + of_bool (found_matching_other st) + (of_bool (r \<noteq> None) :: nat)"
    and "\<And>g. r = Some g \<Longrightarrow> g \<in> set (fmt pre) \<and> fmt_answers offer pre f g"
  shows "match_inv offer pre (fs @ [f]) st'"
proof -
  have "\<exists>g \<in> set (pt_answer st'). first_answered offer pre (fs @ [f]) g" if found: "found_matching_codec st"
  proof -
    obtain g where "g \<in> set (pt_answer st)" "first_answered offer pre fs g"
      using assms(1) found by (auto simp: match_inv_def)
    then show ?thesis by (intro bexI[of _ g]) (simp_all add: first_answered_snoc assms(5))
  qed
  then show ?thesis using assms unfolding match_inv_def by (cases r) auto
qed

lemma find_dynamic_Some: "find_dynamic P m fs = Some (Some g) \<Longrightarrow> g \<in> set fs \<and> (\<exists>x. fmt_rtpmap m g = Some (Some x) \<and> P x)"
  by (induction fs) (auto split: bind_splits option.splits if_splits)

lemma find_dynamic_None: "find_dynamic P m fs = Some None \<Longrightarrow> g \<in> set fs \<Longrightarrow> fmt_rtpmap m g = Some (Some x) \<Longrightarrow> \<not> P x"
  by (induction fs) (auto split: bind_splits option.splits if_splits)

lemma match_dynamic_rtpmap:
  "match_dynamic offer pre st f =
     (case fmt_rtpmap offer f of
        None \<Rightarrow> None
      | Some None \<Rightarrow> Some (Inl PJMEDIA_SDP_EMISSINGRTPMAP)
      | Some (Some ofr) \<Rightarrow>
          (let te = (pj_strcmp2 (enc_name ofr) ''telephone-event'' = 0);
               st = (if te then st\<lparr>offer_has_telephone_event := True\<rparr> else st\<lparr>offer_has_codec := True\<rparr>) in
           if (if te then found_matching_telephone_event st else found_matching_codec st) then Some (Inr st)
           else map_option (\<lambda>r. Inr (case r of None \<Rightarrow> st | Some g \<Rightarrow>
             (if te then st\<lparr>found_matching_telephone_event := True, pt_answer := pt_answer st @ [g]\<rparr>
              else st\<lparr>found_matching_codec := True, pt_answer := pt_answer st @ [g]\<rparr>)))
             (find_dynamic (offer_match ofr) pre (fmt pre))))"
  by (auto simp: match_dynamic_def fmt_rtpmap_def Let_def split: option.splits bind_splits)

lemma match_inv_static:
  assumes "match_inv offer pre fs st" "fmt_isdigit f" "pj_strtoul f < 96"
  shows "match_inv offer pre (fs @ [f]) (match_static pre st f)"
proof (rule match_inv_codec[OF assms(1)])
  let ?r = "find (\<lambda>g. pj_strtoul g = pj_strtoul f \<and> fmt_isdigit g) (fmt pre)"
  show "codec_fmt offer f" using assms by (simp add: codec_fmt_def)
  show "match_static pre st f = (let s = st\<lparr>offer_has_codec := True\<rparr> in if found_matching_codec s then s
       else case ?r of Some g \<Rightarrow> s\<lparr>found_matching_codec := True, pt_answer := pt_answer s @ [g]\<rparr> | None \<Rightarrow> s)"
    by (simp add: match_static_def Let_def split: option.split)
  show "case ?r of Some g \<Rightarrow> g \<in> set (fmt pre) \<and> fmt_answers offer pre f g
       | None \<Rightarrow> \<forall>g \<in> set (fmt pre). \<not> fmt_answers offer pre f g"
    using assms(2,3) by (auto simp: fmt_answers_def find_None_iff find_Some_iff split: option.split)
qed

lemma match_inv_match_other:
  assumes "match_inv offer pre fs st" "\<not> fmt_isdigit f"
  shows "match_inv offer pre (fs @ [f]) (match_other pre st f)"
proof (rule match_inv_other[OF assms(1)])
  let ?r = "if found_matching_other st then None else find (\<lambda>g. pj_strcmp f g = 0) (fmt pre)"
  show "pt_answer (match_other pre st f) = pt_answer st @ (case ?r of Some g \<Rightarrow> [g] | None \<Rightarrow> [])"
    "of_bool (found_matching_telephone_event (match_other pre st f)) + of_bool (found_matching_other (match_other pre st f)) =
      of_bool (found_matching_telephone_event st) + of_bool (found_matching_other st) + (of_bool (?r \<noteq> None) :: nat)"
    by (auto simp: match_other_def Let_def split: option.split)
  show "g \<in> set (fmt pre) \<and> fmt_answers offer pre f g" if "?r = Some g" for g
    using that assms(2) by (auto simp: fmt_answers_def find_Some_iff split: if_splits)
qed (use assms(2) in \<open>auto simp: codec_fmt_def match_other_def Let_def split: option.split\<close>)

lemma match_inv_dynamic:
  assumes "match_inv offer pre fs st" "fmt_isdigit f" "\<not> pj_strtoul f < 96" "match_dynamic offer pre st f = Some (Inr st')"
  shows "match_inv offer pre (fs @ [f]) st'"
proof -
  obtain ofr where ofr: "fmt_rtpmap offer f = Some (Some ofr)"
    using assms(4) by (auto simp: match_dynamic_rtpmap split: option.splits)
  have ans: "fmt_answers offer pre f g \<longleftrightarrow> (\<exists>lr. fmt_rtpmap pre g = Some (Some lr) \<and> offer_match ofr lr)" for g
    using assms(2,3) ofr by (auto simp: fmt_answers_def)
  let ?found = "find_dynamic (offer_match ofr) pre (fmt pre)"
  show ?thesis
  proof (cases "pj_strcmp2 (enc_name ofr) ''telephone-event'' = 0")
    case te: True
    define r where "r = (if found_matching_telephone_event st then None else the ?found)"
    have st': "st' = (let s = st\<lparr>offer_has_telephone_event := True\<rparr> in case r of None \<Rightarrow> s
         | Some g \<Rightarrow> s\<lparr>found_matching_telephone_event := True, pt_answer := pt_answer s @ [g]\<rparr>)"
      using assms(4) ofr te by (auto simp: match_dynamic_rtpmap r_def Let_def split: if_splits option.split)
    have g: "g \<in> set (fmt pre) \<and> fmt_answers offer pre f g" if "r = Some g" for g
      using assms(4) ofr te that find_dynamic_Some[of "offer_match ofr" pre "fmt pre" g]
      by (auto simp: match_dynamic_rtpmap r_def ans Let_def split: if_splits)
    show ?thesis
      by (rule match_inv_other[OF assms(1), where r = r])
         (use g ofr te assms(3) st' in \<open>auto simp: codec_fmt_def r_def Let_def split: option.split if_splits\<close>)
  next
    case codec: False
    define r where "r = (if found_matching_codec st then None else the ?found)"
    have st': "st' = (let s = st\<lparr>offer_has_codec := True\<rparr> in if found_matching_codec s then s
         else case r of Some g \<Rightarrow> s\<lparr>found_matching_codec := True, pt_answer := pt_answer s @ [g]\<rparr> | None \<Rightarrow> s)"
      using assms(4) ofr codec by (auto simp: match_dynamic_rtpmap r_def Let_def split: if_splits option.split)
    show ?thesis
    proof (rule match_inv_codec[OF assms(1) _ st'])
      show "codec_fmt offer f" using assms(2) ofr codec by (simp add: codec_fmt_def)
      assume nf: "\<not> found_matching_codec st"
      then obtain x where x: "?found = Some x" using assms(4) ofr codec by (auto simp: match_dynamic_rtpmap Let_def)
      then show "case r of Some g \<Rightarrow> g \<in> set (fmt pre) \<and> fmt_answers offer pre f g
         | None \<Rightarrow> \<forall>g \<in> set (fmt pre). \<not> fmt_answers offer pre f g"
        using nf find_dynamic_Some[of "offer_match ofr" pre "fmt pre"] find_dynamic_None[of "offer_match ofr" pre "fmt pre"]
        by (auto simp: r_def ans split: option.split)
    qed
  qed
qed

lemma match_fmts_inv:
  "match_fmts offer pre st fs = Some (Inr st') \<Longrightarrow> match_inv offer pre seen st \<Longrightarrow> match_inv offer pre (seen @ fs) st'"
proof (induction fs arbitrary: st seen)
  case (Cons f fs)
  obtain st1 where "match_inv offer pre (seen @ [f]) st1" "match_fmts offer pre st1 fs = Some (Inr st')"
    using Cons.prems match_inv_static[of offer pre seen st f] match_inv_match_other[of offer pre seen st f]
      match_inv_dynamic[of offer pre seen st f]
    by (auto split: if_splits option.splits sum.splits)
  then show ?case using Cons.IH[of st1 "seen @ [f]"] by simp
qed simp

lemma foldl_remove_frame [simp]:
  "media (foldl remove_fmt_attrs m fs) = media m" "port (foldl remove_fmt_attrs m fs) = port m"
  "transport (foldl remove_fmt_attrs m fs) = transport m"
  by (induction fs arbitrary: m) simp_all

lemma build_answer_fmts:
  assumes "build_answer offer loc pts = Some am"
  shows "fmt am = pts" "mset pts \<subseteq># mset (fmt loc)" "media am = media loc" "transport am = transport loc"
    "port am = (if port offer = 0 then 0 else port loc)"
proof -
  obtain fs where fs: "place_fmts pts 0 (fmt loc) = Some fs"
    and am: "am = update_media_direction offer
       (let a = (foldl remove_fmt_attrs loc (drop (length pts) fs))\<lparr>fmt := take (length pts) fs\<rparr>
        in if port offer = 0 then a\<lparr>port := 0\<rparr> else a)"
    using assms by (auto simp: build_answer_def Let_def split: option.splits)
  have p: "mset fs = mset (fmt loc)" "take (length pts) fs = pts" using place_fmts_Some[OF fs] by auto
  show "fmt am = pts" "media am = media loc" "transport am = transport loc" "port am = (if port offer = 0 then 0 else port loc)"
    using am p(2) by (auto simp: Let_def)
  show "mset pts \<subseteq># mset (fmt loc)" using p by (metis append_take_drop_id mset_append mset_subset_eq_add_left)
qed

lemma match_offer_Some:
  assumes "match_offer offer pre loc = Some (Inr am)"
  obtains st where "match_inv offer pre (fmt offer) st" "offer_has_codec st \<longrightarrow> found_matching_codec st"
    "build_answer offer loc (pt_answer st) = Some am"
  using assms match_fmts_inv[of offer pre match_init "fmt offer" _ "[]"] match_inv_init[of offer pre]
  by (auto simp: match_offer_def split: option.splits sum.splits if_splits)

text \<open>
  C13. An answer that is created for an offered media takes its formats from the local media, at most three of them:
  one codec, one telephone event and one other format. Each of them answers a format of the offer, by payload number, by
  name, clock rate and channels of its rtpmap, or literally. If the offer has a codec, the answer has the
  codec for the first codec of the offer that the local media knows.
\<close>

theorem answer_formats:
  assumes "match_offer offer pre loc = Some (Inr am)"
  shows "mset (fmt am) \<subseteq># mset (fmt loc) \<and> length (fmt am) \<le> 3 \<and>
     (\<forall>g \<in> set (fmt am). g \<in> set (fmt pre) \<and> (\<exists>f \<in> set (fmt offer). fmt_answers offer pre f g)) \<and>
     ((\<exists>f \<in> set (fmt offer). codec_fmt offer f) \<longrightarrow> (\<exists>g \<in> set (fmt am). first_answered offer pre (fmt offer) g)) \<and>
     media am = media loc \<and> transport am = transport loc \<and> port am = (if port offer = 0 then 0 else port loc)"
  using assms
proof (rule match_offer_Some)
  fix st
  assume inv: "match_inv offer pre (fmt offer) st" and found: "offer_has_codec st \<longrightarrow> found_matching_codec st"
    and b: "build_answer offer loc (pt_answer st) = Some am"
  have "length (pt_answer st) \<le> 3" using inv unfolding match_inv_def by (auto simp: of_bool_def)
  then show ?thesis using build_answer_fmts[OF b] inv found unfolding match_inv_def by simp
qed

section \<open>The answer to an offer\<close>

primrec chosen :: "'a option list \<Rightarrow> 'a list" where
  "chosen [] = []"
| "chosen (j # js) = (case j of None \<Rightarrow> chosen js | Some x \<Rightarrow> x # chosen js)"

fun answered_by :: "bool \<Rightarrow> sdp_media list \<Rightarrow> sdp_media \<Rightarrow> nat option \<Rightarrow> sdp_media \<Rightarrow> bool" where
  "answered_by p initial om None am \<longleftrightarrow> am = reject_media om"
| "answered_by p initial om (Some j) am \<longleftrightarrow>
     j < length initial \<and> media om = media (initial ! j) \<and> transport om = transport (initial ! j) \<and>
     (if p then match_offer om (initial ! j) (initial ! j) else match_offer (initial ! j) om (initial ! j)) = Some (Inr am)"

lemma find_local_media_Some:
  "find_local_media p om ims used j st = Some (st', Some (k, am)) \<Longrightarrow>
   j \<le> k \<and> answered_by p ims om (Some (k - j)) am \<and> \<not> used ! k"
proof (induction ims arbitrary: j st)
  case (Cons im ims)
  let ?here = "media om = media im \<and> transport om = transport im \<and> \<not> used ! j"
  let ?r = "if p then match_offer om im im else match_offer im om im"
  consider (hit) "?here" "?r = Some (Inr am)" "k = j"
    | (later) st'' where "find_local_media p om ims used (j + 1) st'' = Some (st', Some (k, am))"
    using Cons.prems by (auto split: if_splits option.splits sum.splits)
  then show ?case
  proof cases
    case later
    then have "j + 1 \<le> k \<and> answered_by p ims om (Some (k - (j + 1))) am \<and> \<not> used ! k" by (rule Cons.IH)
    moreover from this have "k - j = Suc (k - (j + 1))" by arith
    ultimately show ?thesis by (cases p) simp_all
  qed auto
qed simp

lemma answer_medias_plan:
  "answer_medias p initial oms used st = Some (st', ams) \<Longrightarrow> length initial \<le> length used \<Longrightarrow>
   \<exists>js. length js = length oms \<and> length ams = length oms \<and> distinct (chosen js) \<and>
     (\<forall>j \<in> set (chosen js). \<not> used ! j) \<and>
     (\<forall>i < length oms. answered_by p initial (oms ! i) (js ! i) (ams ! i))"
proof (induction p initial oms used st arbitrary: ams rule: answer_medias.induct)
  case (2 p initial om oms used st)
  obtain st1 r where r: "find_local_media p om initial used 0 st = Some (st1, r)"
    using 2(2) by (auto split: option.splits)
  define used' where "used' = (case r of Some (j, _) \<Rightarrow> used[j := True] | None \<Rightarrow> used)"
  define am where "am = (case r of Some (_, am) \<Rightarrow> am | None \<Rightarrow> reject_media om)"
  obtain ams' where ams: "answer_medias p initial oms used' st1 = Some (st', ams')" "ams = am # ams'"
    using 2(2) r by (auto simp: used'_def am_def split: option.splits prod.splits)
  have "\<exists>js. length js = length oms \<and> length ams' = length oms \<and> distinct (chosen js) \<and>
     (\<forall>j \<in> set (chosen js). \<not> used' ! j) \<and> (\<forall>i < length oms. answered_by p initial (oms ! i) (js ! i) (ams' ! i))"
    using 2(1)[OF r refl _ refl, of am used'] ams(1) 2(3)
    by (auto simp: used'_def am_def split: option.splits prod.splits)
  then obtain js where js: "length js = length oms" "length ams' = length oms" "distinct (chosen js)"
     "\<forall>j \<in> set (chosen js). \<not> used' ! j" "\<forall>i < length oms. answered_by p initial (oms ! i) (js ! i) (ams' ! i)"
    by blast
  have ans: "answered_by p initial om (map_option fst r) am"
    using find_local_media_Some[of p om initial used 0 st st1] r by (auto simp: am_def split: option.split)
  have new: "\<not> used ! j \<and> j < length used \<and> used' = used[j := True]" if "map_option fst r = Some j" for j
    using that r ans 2(3) find_local_media_Some[of p om initial used 0 st st1 j] by (auto simp: used'_def)
  have fresh: "j \<notin> set (chosen js)" if "map_option fst r = Some j" for j
    using new[OF that] js(4) nth_list_update_eq[of j used True] by auto
  have old: "\<not> used ! j" if "\<not> used' ! j" for j
    using that by (cases r) (auto simp: used'_def, metis list_update_beyond not_less nth_list_update_eq nth_list_update_neq)
  show ?case
  proof (intro exI[of _ "map_option fst r # js"] conjI allI impI ballI)
    show "distinct (chosen (map_option fst r # js))"
      using js(3) fresh by (cases "map_option fst r") auto
    show "\<not> used ! j" if "j \<in> set (chosen (map_option fst r # js))" for j
      using that js(4) new old by (cases "map_option fst r") auto
    show "answered_by p initial ((om # oms) ! i) ((map_option fst r # js) ! i) (ams ! i)" if "i < length (om # oms)" for i
      using that ans js(5) ams(2) by (cases i) auto
  qed (use js ams in auto)
qed auto

lemma create_answer_medias:
  assumes "create_answer p initial offer = Some (Inr ans)"
  obtains st where "answer_medias p (s_media initial) (s_media offer) (replicate PJMEDIA_MAX_SDP_MEDIA False) (Inr ()) = Some (st, s_media ans)"
    "ans = initial\<lparr>s_media := s_media ans\<rparr>" "pjmedia_sdp_validate offer = Inr ()"
  using assms by (auto simp: create_answer_def Let_def split: option.splits sum.splits if_splits)

lemma match_offer_frame:
  assumes "match_offer offer pre loc = Some (Inr am)"
  shows "media am = media loc" "transport am = transport loc" "set (fmt am) \<subseteq> set (fmt loc)"
proof -
  obtain st :: match_state where b: "build_answer offer loc (pt_answer st) = Some am"
    by (rule match_offer_Some[OF assms]) (rule that)
  show "media am = media loc" "transport am = transport loc" "set (fmt am) \<subseteq> set (fmt loc)"
    using build_answer_fmts[OF b] set_mset_mono[OF build_answer_fmts(2)[OF b]] by simp_all
qed

lemma answered_by_types: "answered_by p initial om r am \<Longrightarrow> media am = media om \<and> transport am = transport om"
  by (cases r) (auto simp: match_offer_frame split: if_splits)

lemma create_answer_plan:
  assumes "create_answer p initial offer = Some (Inr ans)" "length (s_media initial) \<le> PJMEDIA_MAX_SDP_MEDIA"
  obtains js where "length js = length (s_media offer)" "length (s_media ans) = length (s_media offer)"
    "distinct (chosen js)" "ans = initial\<lparr>s_media := s_media ans\<rparr>"
    "\<And>i. i < length (s_media offer) \<Longrightarrow> answered_by p (s_media initial) (s_media offer ! i) (js ! i) (s_media ans ! i)"
  using assms(1)
proof (rule create_answer_medias)
  fix st
  assume a: "answer_medias p (s_media initial) (s_media offer) (replicate PJMEDIA_MAX_SDP_MEDIA False) (Inr ()) = Some (st, s_media ans)"
    and ans: "ans = initial\<lparr>s_media := s_media ans\<rparr>"
  show thesis using answer_medias_plan[OF a] assms(2) ans that by auto
qed

text \<open>
  C12. The answer has one media for each media of the offer, in the same order and of the same type and transport. Each is either
  rejected, with port zero and inactive, or created from a local media of that type; no local media is
  used twice. Everything else of the answer is the local description.
\<close>

theorem answer_mirrors_offer:
  assumes "create_answer p initial offer = Some (Inr ans)" "length (s_media initial) \<le> PJMEDIA_MAX_SDP_MEDIA"
  shows "\<exists>js. length js = length (s_media offer) \<and> length (s_media ans) = length (s_media offer) \<and>
     distinct (chosen js) \<and> ans\<lparr>s_media := []\<rparr> = initial\<lparr>s_media := []\<rparr> \<and>
     (\<forall>i < length (s_media offer).
        let om = s_media offer ! i; am = s_media ans ! i in
        media am = media om \<and> transport am = transport om \<and>
        (case js ! i of
           None \<Rightarrow> port am = 0 \<and> (length (m_attr om) < PJMEDIA_MAX_SDP_ATTR \<longrightarrow> \<not> can_send am \<and> \<not> can_recv am)
         | Some j \<Rightarrow> j < length (s_media initial) \<and> media (s_media initial ! j) = media om \<and>
             set (fmt am) \<subseteq> set (fmt (s_media initial ! j))))"
proof (rule create_answer_plan[OF assms])
  fix js
  assume js: "length js = length (s_media offer)" "length (s_media ans) = length (s_media offer)"
    "distinct (chosen js)" "ans = initial\<lparr>s_media := s_media ans\<rparr>"
    "\<And>i. i < length (s_media offer) \<Longrightarrow> answered_by p (s_media initial) (s_media offer ! i) (js ! i) (s_media ans ! i)"
  have each: "let om = s_media offer ! i; am = s_media ans ! i in
        media am = media om \<and> transport am = transport om \<and>
        (case js ! i of
           None \<Rightarrow> port am = 0 \<and> (length (m_attr om) < PJMEDIA_MAX_SDP_ATTR \<longrightarrow> \<not> can_send am \<and> \<not> can_recv am)
         | Some j \<Rightarrow> j < length (s_media initial) \<and> media (s_media initial ! j) = media om \<and>
             set (fmt am) \<subseteq> set (fmt (s_media initial ! j)))" if "i < length (s_media offer)" for i
    using js(5)[OF that] answered_by_types[OF js(5)[OF that]]
    by (cases "js ! i") (auto simp: Let_def reject_media_inactive split: if_splits dest: match_offer_frame(3))
  have "ans\<lparr>s_media := []\<rparr> = initial\<lparr>s_media := []\<rparr>" by (subst js(4)) simp
  then show ?thesis using js(1-3) each by blast
qed

section \<open>Both sides agree\<close>

definition filled :: "sdp_media \<Rightarrow> bool" where
  "filled m \<longleftrightarrow> (\<forall>a \<in> set (m_attr m). attr_name a = ''rtpmap'' \<longrightarrow> attr_value a \<noteq> [])"

text \<open>
  A media description as a phone creates it: payload numbers in plain decimal and no number twice, an rtpmap with
  a value for every dynamic one.
\<close>

definition proper_media :: "sdp_media \<Rightarrow> bool" where
  "proper_media m \<longleftrightarrow> filled m \<and> distinct (map pj_strtoul (fmt m)) \<and>
     (\<forall>f \<in> set (fmt m). 96 \<le> pj_strtoul f \<longrightarrow> pjmedia_sdp_media_find_attr2 m ''rtpmap'' (Some f) \<noteq> None) \<and>
     (\<forall>f \<in> set (fmt m). fmt_isdigit f \<longrightarrow> f = pj_utoa (unat (pj_strtoul f)))"

lemma filled_rtpmap:
  assumes "filled m" "pjmedia_sdp_media_find_attr2 m ''rtpmap'' f = Some a"
  shows "snd (pjmedia_sdp_attr_get_rtpmap a) = Some (snd (rtpmap_parse (attr_value a)))"
proof -
  have "a \<in> set (m_attr m)" "attr_name a = ''rtpmap''"
    using assms(2) by (auto simp: find_attr2_find find_Some_iff names_attr_def)
  then show ?thesis using assms(1) by (auto simp: filled_def pjmedia_sdp_attr_get_rtpmap_def)
qed

lemma filled_fmt_rtpmap: "filled m \<Longrightarrow> \<exists>r. fmt_rtpmap m f = Some r"
  by (auto simp: fmt_rtpmap_def filled_rtpmap split: option.split)

lemma filled_find_dynamic: "filled m \<Longrightarrow> \<exists>r. find_dynamic P m fs = Some r"
proof (induction fs)
  case (Cons f fs)
  then show ?case using filled_fmt_rtpmap[of m f] by (auto split: option.split)
qed simp

lemma filled_find_dynamic_hit:
  assumes "filled m" "g \<in> set fs" "fmt_rtpmap m g = Some (Some x)" "P x"
  shows "\<exists>g'. find_dynamic P m fs = Some (Some g')"
proof -
  obtain r where r: "find_dynamic P m fs = Some r" using filled_find_dynamic[OF assms(1)] by blast
  have "r \<noteq> None" using find_dynamic_None[of P m fs g x] r assms(2-4) by auto
  then show ?thesis using r by auto
qed

lemma filled_subset: "filled m \<Longrightarrow> set (m_attr m') \<subseteq> set (m_attr m) \<Longrightarrow> filled m'"
  by (auto simp: filled_def)

lemma set_update_direction: "a \<in> set (m_attr (update_media_direction r m)) \<Longrightarrow> a \<in> set (m_attr m) \<or> attr_name a \<in> set dir_names"
  by (auto simp: update_media_direction_def Let_def dir_attr_def pjmedia_sdp_attr_create_def pjmedia_sdp_media_add_attr_def
      pjmedia_sdp_attr_add_def remove_all_directions_attr dir_names_def split: pjmedia_dir.splits if_splits)

lemma filled_update_direction [intro]: "filled m \<Longrightarrow> filled (update_media_direction r m)"
  using set_update_direction[of _ r m] by (fastforce simp: filled_def dir_names_def)

lemma filled_reject: "filled m \<Longrightarrow> filled (reject_media m)"
  by (auto simp: filled_def reject_media_def pjmedia_sdp_media_add_attr_def pjmedia_sdp_attr_add_def pjmedia_sdp_attr_create_def
      remove_all_directions_attr split: if_splits)

subsection \<open>The answer keeps the rtpmap of its formats\<close>

lemma set_foldl_remove: "set (m_attr (foldl remove_fmt_attrs m fs)) \<subseteq> set (m_attr m)"
  by (induction fs arbitrary: m) (auto dest: subsetD[OF set_remove_fmt_attrs])

lemma find_rtpmap_foldl:
  "\<forall>f \<in> set fs. pj_strtoul f \<noteq> pj_strtoul g \<Longrightarrow>
   pjmedia_sdp_media_find_attr2 (foldl remove_fmt_attrs m fs) ''rtpmap'' (Some g) = pjmedia_sdp_media_find_attr2 m ''rtpmap'' (Some g)"
  by (induction fs arbitrary: m) (auto simp: find_rtpmap_remove_fmt)

lemma find_attr2_frame [simp]:
  "pjmedia_sdp_media_find_attr2 (m\<lparr>fmt := x\<rparr>) n f = pjmedia_sdp_media_find_attr2 m n f"
  "pjmedia_sdp_media_find_attr2 (m\<lparr>port := y\<rparr>) n f = pjmedia_sdp_media_find_attr2 m n f"
  by (simp_all add: find_attr2_find)

lemma build_answer_rtpmap:
  assumes "build_answer offer loc pts = Some am" "distinct (map pj_strtoul (fmt loc))" "filled loc"
  shows "filled am" "g \<in> set (fmt am) \<Longrightarrow> fmt_rtpmap am g = fmt_rtpmap loc g"
proof -
  obtain fs where fs: "place_fmts pts 0 (fmt loc) = Some fs"
    and am: "am = update_media_direction offer
       (let a = (foldl remove_fmt_attrs loc (drop (length pts) fs))\<lparr>fmt := take (length pts) fs\<rparr>
        in if port offer = 0 then a\<lparr>port := 0\<rparr> else a)"
    using assms(1) by (auto simp: build_answer_def Let_def split: option.splits)
  let ?m = "foldl remove_fmt_attrs loc (drop (length pts) fs)"
  have "filled ?m" using filled_subset[OF assms(3) set_foldl_remove] .
  then show "filled am" unfolding am by (intro filled_update_direction) (auto simp: Let_def filled_def)
  assume g: "g \<in> set (fmt am)"
  have "mset fs = mset (fmt loc)" "take (length pts) fs = pts" using place_fmts_Some[OF fs] by auto
  then have d: "distinct (map pj_strtoul fs)"
    using assms(2) by (metis mset_map mset_eq_imp_distinct_iff)
  have gt: "g \<in> set (take (length pts) fs)" using g build_answer_fmts(1)[OF assms(1)] \<open>take (length pts) fs = pts\<close> by simp
  have "distinct (map pj_strtoul (take (length pts) fs) @ map pj_strtoul (drop (length pts) fs))"
    using d by (simp flip: map_append)
  then have "\<forall>f \<in> set (drop (length pts) fs). pj_strtoul f \<noteq> pj_strtoul g" using gt by fastforce
  then have "pjmedia_sdp_media_find_attr2 am ''rtpmap'' (Some g) = pjmedia_sdp_media_find_attr2 loc ''rtpmap'' (Some g)"
    unfolding am by (subst find_attr2_update_direction) (auto simp: dir_names_def Let_def find_rtpmap_foldl)
  then show "fmt_rtpmap am g = fmt_rtpmap loc g" by (simp add: fmt_rtpmap_def)
qed

subsection \<open>The offerer keeps the formats that were answered\<close>

definition kept :: "sdp_media \<Rightarrow> sdp_media \<Rightarrow> string \<Rightarrow> bool" where
  "kept offer answer f \<longleftrightarrow> answer_has offer answer f = Some (Inr True)"

lemma answer_has_cong:
  "pjmedia_sdp_media_find_attr2 m ''rtpmap'' (Some f) = pjmedia_sdp_media_find_attr2 m' ''rtpmap'' (Some f) \<Longrightarrow>
   answer_has m answer f = answer_has m' answer f"
  by (simp add: answer_has_def)

lemma answer_has_total:
  assumes "filled offer" "filled answer" "96 \<le> pj_strtoul f \<longrightarrow> pjmedia_sdp_media_find_attr2 offer ''rtpmap'' (Some f) \<noteq> None"
  shows "answer_has offer answer f = Some (Inr (kept offer answer f))"
proof (cases "pj_strtoul f < 96")
  case False
  then obtain a where a: "pjmedia_sdp_media_find_attr2 offer ''rtpmap'' (Some f) = Some a" using assms(3) by auto
  obtain r where "find_dynamic (answer_match (snd (rtpmap_parse (attr_value a)))) answer (fmt answer) = Some r"
    using filled_find_dynamic[OF assms(2)] by blast
  then show ?thesis using a False filled_rtpmap[OF assms(1) a] by (auto simp: answer_has_def kept_def)
qed (simp add: answer_has_def kept_def)

lemma drop_erase: "i < length xs \<Longrightarrow> drop i (pj_array_erase xs i) = drop (Suc i) xs" "i < length xs \<Longrightarrow> take i (pj_array_erase xs i) = take i xs"
  by (simp_all add: pj_array_erase_def)

lemma prune_fmts_total:
  assumes "filled offer" "filled answer" "distinct (map pj_strtoul (fmt offer))"
    "\<forall>f \<in> set (fmt offer). 96 \<le> pj_strtoul f \<longrightarrow> pjmedia_sdp_media_find_attr2 offer ''rtpmap'' (Some f) \<noteq> None"
  shows "\<exists>m. prune_fmts offer answer i = Some (Inr m) \<and> port m = port offer \<and>
     fmt m = take i (fmt offer) @ filter (kept offer answer) (drop i (fmt offer))"
  using assms
proof (induction offer answer i rule: prune_fmts.induct)
  case (1 offer answer i)
  let ?fs = "fmt offer"
  show ?case
  proof (cases "i < length ?fs")
    case True
    let ?f = "?fs ! i"
    have d: "drop i ?fs = ?f # drop (Suc i) ?fs" and t: "take (Suc i) ?fs = take i ?fs @ [?f]"
      using True by (simp_all add: Cons_nth_drop_Suc take_Suc_conv_app_nth)
    have h: "answer_has offer answer ?f = Some (Inr (kept offer answer ?f))"
      using answer_has_total[OF 1(3,4)] 1(6) True by simp
    show ?thesis
    proof (cases "kept offer answer ?f")
      case k: True
      have "prune_fmts offer answer i = prune_fmts offer answer (i + 1)"
        using True h k by (subst prune_fmts.simps) simp
      then show ?thesis using 1(1)[OF True h[unfolded k] refl] 1(3-6) k d t by simp
    next
      case k: False
      let ?m = "(remove_fmt_attrs offer ?f)\<lparr>fmt := pj_array_erase ?fs i\<rparr>"
      have step: "prune_fmts offer answer i = prune_fmts ?m answer i"
        using True h k by (subst prune_fmts.simps) (simp add: Let_def)
      have sub: "set (pj_array_erase ?fs i) \<subseteq> set ?fs" by (auto simp: pj_array_erase_def dest: in_set_takeD in_set_dropD)
      have dd: "distinct (map pj_strtoul (take i ?fs @ ?f # drop (Suc i) ?fs))"
        using 1(5) True by (simp only: id_take_nth_drop[symmetric])
      have neq: "pj_strtoul ?f \<noteq> pj_strtoul g" if "g \<in> set (pj_array_erase ?fs i)" for g
        using dd that by (auto simp: pj_array_erase_def)
      have same: "pjmedia_sdp_media_find_attr2 ?m ''rtpmap'' (Some g) = pjmedia_sdp_media_find_attr2 offer ''rtpmap'' (Some g)"
        if "g \<in> set (pj_array_erase ?fs i)" for g
        using find_rtpmap_remove_fmt[OF neq[OF that]] by simp
      have "filled ?m" using filled_subset[OF 1(3), of ?m] set_remove_fmt_attrs[of offer ?f] by simp
      moreover have "distinct (map pj_strtoul (fmt ?m))" using dd by (simp add: pj_array_erase_def)
      moreover have "\<forall>g \<in> set (fmt ?m). 96 \<le> pj_strtoul g \<longrightarrow> pjmedia_sdp_media_find_attr2 ?m ''rtpmap'' (Some g) \<noteq> None"
        using 1(6) sub same by auto
      ultimately obtain m where m: "prune_fmts ?m answer i = Some (Inr m)" "port m = port ?m"
          "fmt m = take i (fmt ?m) @ filter (kept ?m answer) (drop i (fmt ?m))"
        using 1(2)[OF True h[unfolded eq_False[THEN iffD2, OF k]] refl refl] 1(4) by auto
      have "filter (kept ?m answer) (drop (Suc i) ?fs) = filter (kept offer answer) (drop (Suc i) ?fs)"
      proof (rule filter_cong[OF refl])
        fix g assume "g \<in> set (drop (Suc i) ?fs)"
        then have "g \<in> set (pj_array_erase ?fs i)" by (simp add: pj_array_erase_def)
        then show "kept ?m answer g = kept offer answer g" unfolding kept_def using answer_has_cong[OF same] by metis
      qed
      then show ?thesis using step m k d True by (simp add: drop_erase)
    qed
  next
    case False
    then show ?thesis by (subst prune_fmts.simps) simp
  qed
qed

lemma process_m_answer_total:
  assumes "proper_media om" "filled am" "media am = media om" "transport am = transport om"
  shows "\<exists>m. process_m_answer om am False = Some (Inr m) \<and> port m = (if port am = 0 then 0 else port om) \<and>
     set (fmt m) = {f \<in> set (fmt om). kept om am f}"
proof -
  define o2 where "o2 = update_media_direction am (if port am = 0 then om\<lparr>port := 0\<rparr> else om)"
  have rt: "pjmedia_sdp_media_find_attr2 o2 ''rtpmap'' f = pjmedia_sdp_media_find_attr2 om ''rtpmap'' f" for f
    unfolding o2_def by (subst find_attr2_update_direction) (auto simp: dir_names_def)
  have "filled o2" unfolding o2_def by (intro filled_update_direction) (use assms(1) in \<open>auto simp: proper_media_def filled_def\<close>)
  moreover have f: "fmt o2 = fmt om" by (simp add: o2_def)
  ultimately obtain m where m: "prune_fmts o2 am 0 = Some (Inr m)" "port m = port o2" "fmt m = filter (kept o2 am) (fmt om)"
    using prune_fmts_total[of o2 am 0] assms(1,2) rt by (auto simp: proper_media_def)
  have k: "kept o2 am = kept om am" by (rule ext) (simp add: kept_def answer_has_cong[OF rt])
  have "set (arrange_fmts (fmt am) 0 (fmt m)) = set (fmt m)" by (metis mset_arrange_fmts set_mset_mset)
  then show ?thesis using assms(3,4) m k o2_def by (simp add: process_m_answer_def Let_def)
qed

text \<open>
  The parameter \<open>1\<close> is the channel count that an offer may state and an answer may leave out, which the two
  sides do not treat alike.
\<close>

definition no_mono_param :: "sdp_media \<Rightarrow> bool" where
  "no_mono_param m \<longleftrightarrow> (\<forall>f \<in> set (fmt m). \<forall>r. fmt_rtpmap m f = Some (Some r) \<longrightarrow> rm_param r \<noteq> ''1'')"

lemma kept_answered:
  assumes "proper_media om" "no_mono_param om" "proper_media loc" "filled am"
    and "f \<in> set (fmt om)" "codec_fmt om f" "g \<in> set (fmt am)" "g \<in> set (fmt loc)" "fmt_answers om loc f g"
    and "fmt_rtpmap am g = fmt_rtpmap loc g"
  shows "kept om am f"
proof (cases "pj_strtoul f < 96")
  case True
  have "fmt_isdigit f" using assms(6) by (simp add: codec_fmt_def)
  then have "fmt_isdigit g" "pj_strtoul g = pj_strtoul f" using True assms(9) by (auto simp: fmt_answers_def)
  then have "f = g" using assms(1,3,5,8) \<open>fmt_isdigit f\<close> by (metis proper_media_def)
  then show ?thesis using True assms(7) by (auto simp: kept_def answer_has_def list_ex_iff)
next
  case False
  have "fmt_isdigit f" using assms(6) by (simp add: codec_fmt_def)
  then obtain ofr lr where o: "fmt_rtpmap om f = Some (Some ofr)" and l: "fmt_rtpmap loc g = Some (Some lr)" and "offer_match ofr lr"
    using False assms(9) by (auto simp: fmt_answers_def)
  moreover have "rm_param ofr \<noteq> ''1''" using assms(2,5) o by (auto simp: no_mono_param_def)
  ultimately have "answer_match ofr lr" by (auto simp: offer_match_def answer_match_def)
  then obtain g' where "find_dynamic (answer_match ofr) am (fmt am) = Some (Some g')"
    using filled_find_dynamic_hit[OF assms(4,7)] assms(10) l by force
  then show ?thesis using o False by (auto simp: kept_def answer_has_def fmt_rtpmap_def split: option.splits)
qed

lemma answered_by_accepted:
  assumes "answered_by True initial om (Some j) am" "proper_media (initial ! j)" "proper_media om" "no_mono_param om"
    and "\<exists>f \<in> set (fmt om). codec_fmt om f"
  shows "\<exists>f \<in> set (fmt om). kept om am f \<and> codec_fmt om f \<and> (\<exists>g \<in> set (fmt am). fmt_answers om am f g)"
proof -
  let ?im = "initial ! j"
  have "match_offer om ?im ?im = Some (Inr am)" using assms(1) by simp
  then obtain st :: match_state where inv: "match_inv om ?im (fmt om) st" and found: "offer_has_codec st \<longrightarrow> found_matching_codec st"
    and b: "build_answer om ?im (pt_answer st) = Some am" by (rule match_offer_Some)
  have fm: "fmt am = pt_answer st" by (rule build_answer_fmts(1)[OF b])
  have "found_matching_codec st" using inv found assms(5) unfolding match_inv_def by blast
  then obtain g where g: "g \<in> set (pt_answer st)" "first_answered om ?im (fmt om) g" using inv unfolding match_inv_def by auto
  then obtain f where f: "f \<in> set (fmt om)" "codec_fmt om f" "fmt_answers om ?im f g"
    unfolding first_answered_def by (metis in_set_conv_decomp)
  have gl: "g \<in> set (fmt ?im)" using inv g(1) unfolding match_inv_def by blast
  have p: "distinct (map pj_strtoul (fmt ?im))" "filled ?im" using assms(2) by (auto simp: proper_media_def)
  have rt: "fmt_rtpmap am g = fmt_rtpmap ?im g" by (rule build_answer_rtpmap(2)[OF b p]) (use g fm in simp)
  have "kept om am f"
    by (rule kept_answered[OF assms(3,4,2) build_answer_rtpmap(1)[OF b p] f(1,2) _ gl f(3) rt]) (use g fm in simp)
  moreover have "fmt_answers om am f g" using f(3) unfolding fmt_answers_def rt .
  ultimately show ?thesis using f g fm by auto
qed

lemma answered_by_filled:
  assumes "answered_by p initial om r am" "proper_media om" "list_all proper_media initial"
  shows "filled am"
proof (cases r)
  case None
  then show ?thesis using assms by (simp add: filled_reject proper_media_def)
next
  case (Some j)
  obtain pre of' where m: "match_offer of' pre (initial ! j) = Some (Inr am)" using assms(1) Some by (auto split: if_splits)
  obtain st :: match_state where "build_answer of' (initial ! j) (pt_answer st) = Some am"
    by (rule match_offer_Some[OF m]) (rule that)
  then show ?thesis using build_answer_rtpmap(1) assms(1,3) Some by (auto simp: list_all_length proper_media_def)
qed

lemma answered_by_port: "answered_by True initial om r am \<Longrightarrow> port am \<noteq> 0 \<Longrightarrow> port om \<noteq> 0"
proof (cases r)
  case (Some j)
  assume a: "answered_by True initial om r am" "port am \<noteq> 0"
  have m: "match_offer om (initial ! j) (initial ! j) = Some (Inr am)" using a(1) Some by simp
  obtain st :: match_state where "build_answer om (initial ! j) (pt_answer st) = Some am"
    by (rule match_offer_Some[OF m]) (rule that)
  then show ?thesis using build_answer_fmts(5) a(2) by fastforce
qed simp

lemma process_medias_all:
  "length oms = length ams \<Longrightarrow> length ms = length oms \<Longrightarrow>
   (\<And>i. i < length oms \<Longrightarrow> process_m_answer (oms ! i) (ams ! i) b = Some (Inr (ms ! i))) \<Longrightarrow>
   process_medias oms ams b = Some (Inr ms)"
proof (induction oms ams b arbitrary: ms rule: process_medias.induct)
  case (1 om oms am ams b)
  obtain x xs where ms: "ms = x # xs" using 1(3) by (cases ms) auto
  have hd: "process_m_answer om am b = Some (Inr x)" using 1(4)[of 0] ms by simp
  have "process_medias oms ams b = Some (Inr xs)"
    by (rule 1(1)[OF hd refl]) (use 1(2,3) 1(4)[of "Suc _"] ms in auto)
  then show ?case using hd ms by simp
qed auto

text \<open>
  C9. Offer and answer fit together: when the called side, which follows the order of the offer, has created an answer, the
  offering side accepts it. Its result is the offer with one updated media for each, or \<^verbatim>\<open>PJMEDIA_SDPNEG_ENOMEDIA\<close> when the
  answer rejects them all; a media is open on one side exactly if it is on the other, and if it is open and
  the offer had a codec, the offering side is left with a codec that a format of the answer answers. Both
  descriptions are proper, and the offer does not state the channel count 1.
\<close>

theorem offer_answer_agree:
  assumes ans: "create_answer True loc offer = Some (Inr ans)" and size: "length (s_media loc) \<le> PJMEDIA_MAX_SDP_MEDIA"
    and lp: "list_all proper_media (s_media loc)" and op: "list_all proper_media (s_media offer)"
    and mono: "list_all no_mono_param (s_media offer)"
  shows "\<exists>ms. length ms = length (s_media offer) \<and>
     process_answer offer ans False = Some (if list_ex (\<lambda>m. port m \<noteq> 0) (s_media ans) then Inr (offer\<lparr>s_media := ms\<rparr>)
       else Inl PJMEDIA_SDPNEG_ENOMEDIA) \<and>
     (\<forall>i < length ms. let om = s_media offer ! i; am = s_media ans ! i; m = ms ! i in
        (port m \<noteq> 0 \<longleftrightarrow> port am \<noteq> 0) \<and>
        (port am \<noteq> 0 \<and> (\<exists>f \<in> set (fmt om). codec_fmt om f) \<longrightarrow>
         (\<exists>f \<in> set (fmt m). codec_fmt om f \<and> (\<exists>g \<in> set (fmt am). fmt_answers om am f g))))"
proof (rule create_answer_plan[OF ans size])
  fix js
  let ?oms = "s_media offer" and ?ams = "s_media ans" and ?ini = "s_media loc"
  assume js: "length js = length ?oms" "length ?ams = length ?oms" "distinct (chosen js)" "ans = loc\<lparr>s_media := ?ams\<rparr>"
    and ab: "\<And>i. i < length ?oms \<Longrightarrow> answered_by True ?ini (?oms ! i) (js ! i) (?ams ! i)"
  have pr: "proper_media (?oms ! i)" "no_mono_param (?oms ! i)" if "i < length ?oms" for i
    using that op mono by (auto simp: list_all_length)
  have fa: "filled (?ams ! i)" if "i < length ?oms" for i
    using answered_by_filled[OF ab[OF that] pr(1)[OF that] lp] .
  define M where "M i = projr (the (process_m_answer (?oms ! i) (?ams ! i) False))" for i
  have M: "process_m_answer (?oms ! i) (?ams ! i) False = Some (Inr (M i)) \<and>
      port (M i) = (if port (?ams ! i) = 0 then 0 else port (?oms ! i)) \<and>
      set (fmt (M i)) = {f \<in> set (fmt (?oms ! i)). kept (?oms ! i) (?ams ! i) f}" if i: "i < length ?oms" for i
  proof -
    have t: "media (?ams ! i) = media (?oms ! i)" "transport (?ams ! i) = transport (?oms ! i)"
      using answered_by_types[OF ab[OF i]] by auto
    obtain m where "process_m_answer (?oms ! i) (?ams ! i) False = Some (Inr m)"
      "port m = (if port (?ams ! i) = 0 then 0 else port (?oms ! i))" "set (fmt m) = {f \<in> set (fmt (?oms ! i)). kept (?oms ! i) (?ams ! i) f}"
      using process_m_answer_total[OF pr(1)[OF i] fa[OF i] t] by blast
    then show ?thesis unfolding M_def by simp
  qed
  let ?ms = "map M [0..<length ?oms]"
  have port: "port (M i) \<noteq> 0 \<longleftrightarrow> port (?ams ! i) \<noteq> 0" if "i < length ?oms" for i
    using M[OF that] answered_by_port[OF ab[OF that]] by auto
  have pm: "process_medias ?oms ?ams False = Some (Inr ?ms)"
    by (rule process_medias_all) (use js(2) M in auto)
  have "list_ex (\<lambda>m. port m \<noteq> 0) ?ms \<longleftrightarrow> list_ex (\<lambda>m. port m \<noteq> 0) ?ams"
    using port js(2) by (auto simp: list_ex_length)
  then have pa: "process_answer offer ans False = Some (if list_ex (\<lambda>m. port m \<noteq> 0) ?ams then Inr (offer\<lparr>s_media := ?ms\<rparr>)
       else Inl PJMEDIA_SDPNEG_ENOMEDIA)"
    using pm js(2) by (simp add: process_answer_def)
  have codec: "\<exists>f \<in> set (fmt (M i)). codec_fmt (?oms ! i) f \<and> (\<exists>g \<in> set (fmt (?ams ! i)). fmt_answers (?oms ! i) (?ams ! i) f g)"
    if i: "i < length ?oms" and "port (?ams ! i) \<noteq> 0" "\<exists>f \<in> set (fmt (?oms ! i)). codec_fmt (?oms ! i) f" for i
  proof (cases "js ! i")
    case (Some j)
    then have a: "answered_by True ?ini (?oms ! i) (Some j) (?ams ! i)" using ab[OF i] by (simp only:)
    then have "proper_media (?ini ! j)" using lp by (simp add: list_all_length)
    from answered_by_accepted[OF a this pr[OF i] that(3)] show ?thesis using M[OF i] by blast
  qed (use ab[OF i] that(2) in simp)
  show ?thesis by (intro exI[of _ ?ms] conjI) (use pa port codec in \<open>auto simp: Let_def\<close>)
qed

section \<open>Examples\<close>

definition rtpmap :: "string \<Rightarrow> sdp_attr" where
  "rtpmap v = \<lparr>attr_name = ''rtpmap'', attr_value = v\<rparr>"

definition audio :: "16 word \<Rightarrow> string list \<Rightarrow> string list \<Rightarrow> sdp_media" where
  "audio p fs maps = \<lparr>media = ''audio'', port = p, port_count = 0, transport = ''RTP/AVP'', fmt = fs, m_conn = None,
     m_attr = map rtpmap maps\<rparr>"

definition session_of :: "sdp_media list \<Rightarrow> sdp_session" where
  "session_of ms = \<lparr>origin = \<lparr>o_user = ''-'', o_id = 1, o_version = 7, o_net_type = ''IN'', o_addr_type = ''IP4'',
       o_addr = ''10.0.0.1''\<rparr>, s_name = ''pjmedia'',
     s_conn = Some \<lparr>net_type = ''IN'', addr_type = ''IP4'', addr = ''10.0.0.1''\<rparr>,
     time_start = 0, time_stop = 0, s_attr = [], s_media = ms\<rparr>"

definition caller_media :: sdp_media where
  "caller_media = audio 4000 [''97'', ''8'', ''101''] [''97 speex/8000'', ''101 telephone-event/8000'']"

definition callee_media :: sdp_media where
  "callee_media = audio 5000 [''0'', ''104'', ''96''] [''104 speex/8000'', ''96 telephone-event/8000'']"

lemma sample_match: "match_offer caller_media callee_media callee_media =
   Some (Inr (audio 5000 [''104'', ''96''] [''104 speex/8000'', ''96 telephone-event/8000'']))"
  by code_simp

lemma sample_valid: "pjmedia_sdp_validate (session_of [caller_media]) = Inr ()"
  by code_simp

definition video_media :: sdp_media where
  "video_media = (audio 6000 [''34''] [])\<lparr>media := ''video''\<rparr>"

abbreviation caller :: sdp_session where "caller \<equiv> session_of [caller_media, video_media]"
abbreviation callee :: sdp_session where "callee \<equiv> session_of [callee_media]"

definition sample_answer :: sdp_session where
  "sample_answer = session_of [audio 5000 [''104'', ''96''] [''104 speex/8000'', ''96 telephone-event/8000''], reject_media video_media]"

lemma sample_create: "create_answer True callee caller = Some (Inr sample_answer)"
  by code_simp

theorem answer_formats_witness:
  "\<exists>am. match_offer caller_media callee_media callee_media = Some (Inr am) \<and> mset (fmt am) \<subseteq># mset (fmt callee_media) \<and>
     (\<exists>g \<in> set (fmt am). first_answered caller_media callee_media (fmt caller_media) g)"
proof -
  have "fmt_isdigit ''8''" "pj_strtoul ''8'' < 96" by code_simp+
  then have "''8'' \<in> set (fmt caller_media)" "codec_fmt caller_media ''8''"
    by (simp_all add: caller_media_def audio_def codec_fmt_def)
  then show ?thesis using answer_formats[OF sample_match] sample_match by blast
qed

theorem answer_mirrors_offer_witness:
  "\<exists>js :: nat option list. length js = 2 \<and> length (s_media sample_answer) = 2 \<and> distinct (chosen js)"
proof -
  have len: "length (s_media callee) \<le> PJMEDIA_MAX_SDP_MEDIA" and two: "length (s_media caller) = 2"
    by (simp_all add: session_of_def max_sdp_defs)
  obtain js :: "nat option list" where "length js = length (s_media caller)" "length (s_media sample_answer) = length (s_media caller)" "distinct (chosen js)"
    using answer_mirrors_offer[OF sample_create len] by blast
  then show ?thesis using two by (intro exI[of _ js]) simp
qed

lemma no_mono_iff [code]: "no_mono_param m \<longleftrightarrow>
   list_all (\<lambda>f. case fmt_rtpmap m f of Some (Some r) \<Rightarrow> rm_param r \<noteq> ''1'' | _ \<Rightarrow> True) (fmt m)"
  by (auto simp: no_mono_param_def list_all_iff split: option.splits)

lemma sample_proper: "list_all proper_media (s_media callee)" "list_all proper_media (s_media caller)"
  "list_all no_mono_param (s_media caller)"
  by code_simp+

theorem offer_answer_agree_witness:
  "\<exists>ms. length ms = 2 \<and> process_answer caller sample_answer False = Some (Inr (caller\<lparr>s_media := ms\<rparr>)) \<and>
     port (ms ! 0) \<noteq> 0 \<and> port (ms ! 1) = 0"
proof -
  have len: "length (s_media callee) \<le> PJMEDIA_MAX_SDP_MEDIA" by (simp add: session_of_def max_sdp_defs)
  have act: "list_ex (\<lambda>m. port m \<noteq> 0) (s_media sample_answer)" "port (s_media sample_answer ! 0) \<noteq> 0" "port (s_media sample_answer ! 1) = 0"
    by code_simp+
  have two: "length (s_media caller) = 2" by (simp add: session_of_def)
  obtain ms where ms: "length ms = length (s_media caller)"
    "process_answer caller sample_answer False = Some (if list_ex (\<lambda>m. port m \<noteq> 0) (s_media sample_answer)
       then Inr (caller\<lparr>s_media := ms\<rparr>) else Inl PJMEDIA_SDPNEG_ENOMEDIA)"
    "\<forall>i < length ms. (port (ms ! i) \<noteq> 0 \<longleftrightarrow> port (s_media sample_answer ! i) \<noteq> 0)"
    using offer_answer_agree[OF sample_create len sample_proper] by (auto simp: Let_def)
  then show ?thesis using act two by (intro exI[of _ ms]) auto
qed

end
