(* ===== verification/Sdp_Exchange.thy ===== *)
theory Sdp_Exchange
  imports Sdp_Answer
begin

text \<open>
  The negotiator over time: its step relation and reachable states, the invariant, the refinement of
  the offer and answer exchange, and the cases in which a negotiation goes wrong.
\<close>

section \<open>The negotiator as a state machine\<close>

inductive neg_step :: "sdp_neg \<Rightarrow> sdp_neg \<Rightarrow> bool" where
  preference: "neg_step neg (snd (pjmedia_sdp_neg_set_prefer_remote_codec_order neg b))"
| modify: "neg_step neg (snd (pjmedia_sdp_neg_modify_local_offer neg loc))"
| send: "neg_step neg (snd (pjmedia_sdp_neg_send_local_offer neg))"
| remote_answer: "neg_step neg (snd (pjmedia_sdp_neg_set_remote_answer neg remote))"
| remote_offer: "neg_step neg (snd (pjmedia_sdp_neg_set_remote_offer neg remote))"
| local_answer: "neg_step neg (snd (pjmedia_sdp_neg_set_local_answer neg lo))"
| negotiate: "pjmedia_sdp_neg_negotiate neg allow_asym = Some (status, neg') \<Longrightarrow> neg_step neg neg'"

inductive neg_reachable :: "sdp_neg \<Rightarrow> bool" where
  create_local: "pjmedia_sdp_neg_create_w_local_offer loc = Inr neg \<Longrightarrow> neg_reachable neg"
| create_remote: "pjmedia_sdp_neg_create_w_remote_offer initial remote = Inr neg \<Longrightarrow> neg_reachable neg"
| step: "neg_reachable neg \<Longrightarrow> neg_step neg neg' \<Longrightarrow> neg_reachable neg'"

text \<open>Media of two descriptions that belong together.\<close>

definition media_match :: "sdp_session \<Rightarrow> sdp_session \<Rightarrow> bool" where
  "media_match l r \<longleftrightarrow> list_all2 (\<lambda>m m'. media m = media m' \<and> transport m = transport m') (s_media l) (s_media r)"

definition neg_inv :: "sdp_neg \<Rightarrow> bool" where
  "neg_inv neg \<longleftrightarrow>
     (case neg_state neg of
        STATE_NULL \<Rightarrow> False
      | STATE_LOCAL_OFFER \<Rightarrow> neg_local_sdp neg \<noteq> None \<and> \<not> has_remote_answer neg
      | STATE_REMOTE_OFFER \<Rightarrow> neg_remote_sdp neg \<noteq> None \<and> \<not> has_remote_answer neg
      | STATE_WAIT_NEGO \<Rightarrow> neg_local_sdp neg \<noteq> None \<and> neg_remote_sdp neg \<noteq> None
      | STATE_DONE \<Rightarrow> neg_local_sdp neg = None \<and> neg_remote_sdp neg = None \<and> \<not> has_remote_answer neg) \<and>
     (case (active_local_sdp neg, active_remote_sdp neg) of
        (None, None) \<Rightarrow> True
      | (Some l, Some r) \<Rightarrow> media_match l r
      | _ \<Rightarrow> False)"

subsection \<open>What a successful negotiation gives\<close>

lemma prune_fmts_types:
  "prune_fmts offer answer i = Some (Inr m) \<Longrightarrow> media m = media offer \<and> transport m = transport offer"
proof (induction offer answer i rule: prune_fmts.induct)
  case (1 offer answer i)
  show ?case
  proof (cases "i < length (fmt offer)")
    case True
    then obtain k where h: "answer_has offer answer (fmt offer ! i) = Some (Inr k)"
      using 1(3) by (subst (asm) prune_fmts.simps) (auto split: option.splits sum.splits)
    show ?thesis
      using 1(3) True h 1(1)[OF True h] 1(2)[OF True h]
      by (subst (asm) prune_fmts.simps) (cases k; auto simp: Let_def)
  next
    case False
    then show ?thesis using 1(3) by (subst (asm) prune_fmts.simps) simp
  qed
qed

lemma process_m_answer_types:
  assumes "process_m_answer om am b = Some (Inr m)" shows "media m = media am \<and> transport m = transport am"
proof -
  define o2 where "o2 = update_media_direction am (if port am = 0 then om\<lparr>port := 0\<rparr> else om)"
  have same: "media am = media om" "transport am = transport om"
    using assms by (auto simp: process_m_answer_def split: if_splits)
  have o2: "media o2 = media om" "transport o2 = transport om" by (simp_all add: o2_def)
  show ?thesis
  proof (cases b)
    case True
    then have "m = o2" using assms same by (simp add: process_m_answer_def Let_def o2_def split: if_split_asm)
    then show ?thesis using o2 same by simp
  next
    case False
    have p: "process_m_answer om am b = (case prune_fmts o2 am 0 of None \<Rightarrow> None | Some (Inl e) \<Rightarrow> Some (Inl e)
        | Some (Inr x) \<Rightarrow> Some (Inr (x\<lparr>fmt := arrange_fmts (fmt am) 0 (fmt x)\<rparr>)))"
      using same False by (simp add: process_m_answer_def Let_def o2_def)
    obtain x fs where "prune_fmts o2 am 0 = Some (Inr x)" "m = x\<lparr>fmt := fs\<rparr>"
      using assms unfolding p by (auto split: option.splits sum.splits)
    then show ?thesis using prune_fmts_types[of o2 am 0 x] o2 same by simp
  qed
qed

lemma process_medias_match:
  "process_medias oms ams b = Some (Inr ms) \<Longrightarrow> length oms = length ams \<Longrightarrow>
   list_all2 (\<lambda>m m'. media m = media m' \<and> transport m = transport m') ms ams"
  by (induction oms ams b arbitrary: ms rule: process_medias.induct)
     (auto split: option.splits sum.splits dest: process_m_answer_types)

lemma process_answer_match: "process_answer offer answer b = Some (Inr active) \<Longrightarrow> media_match active answer"
  by (auto simp: process_answer_def media_match_def split: if_splits option.splits sum.splits intro: process_medias_match)

lemma answer_medias_match:
  "answer_medias p initial oms used st = Some (st', ams) \<Longrightarrow>
   list_all2 (\<lambda>m m'. media m = media m' \<and> transport m = transport m') ams oms"
proof (induction p initial oms used st arbitrary: ams rule: answer_medias.induct)
  case (2 p initial om oms used st)
  obtain st1 r where r: "find_local_media p om initial used 0 st = Some (st1, r)"
    using 2(2) by (auto split: option.splits)
  define used' where "used' = (case r of Some (j, _) \<Rightarrow> used[j := True] | None \<Rightarrow> used)"
  define am where "am = (case r of Some (_, am) \<Rightarrow> am | None \<Rightarrow> reject_media om)"
  have ua: "(case r of None \<Rightarrow> (reject_media om, used) | Some (j, am) \<Rightarrow> (am, used[j := True])) = (am, used')"
    by (simp add: used'_def am_def split: option.split)
  obtain ams' where ams: "answer_medias p initial oms used' st1 = Some (st', ams')" "ams = am # ams'"
    using 2(2) r ua by (auto split: option.splits)
  have "answered_by p initial om (map_option fst r) am"
    using find_local_media_Some[of p om initial used 0 st st1] r by (auto simp: am_def split: option.split)
  then show ?case using answered_by_types 2(1)[OF r refl ua[symmetric] refl ams(1)] ams(2) by simp
qed simp

lemma create_answer_match: "create_answer p initial offer = Some (Inr ans) \<Longrightarrow> media_match ans offer"
  by (erule create_answer_medias) (simp add: media_match_def answer_medias_match)

lemma negotiate_active:
  assumes "pjmedia_sdp_neg_negotiate neg b = Some (status, neg')" "neg_state neg = STATE_WAIT_NEGO" "neg_remote_sdp neg = Some r"
  shows "neg_state neg' = STATE_DONE" "neg_local_sdp neg' = None" "neg_remote_sdp neg' = None" "\<not> has_remote_answer neg'"
    "case status of
       Inl e \<Rightarrow> active_local_sdp neg' = active_local_sdp neg \<and> active_remote_sdp neg' = active_remote_sdp neg
     | Inr _ \<Rightarrow> \<exists>l. active_local_sdp neg' = Some l \<and> active_remote_sdp neg' = Some r \<and> media_match l r"
  using assms
  by (auto simp: pjmedia_sdp_neg_negotiate_def negotiate_remote_answer_def negotiate_local_answer_def negotiated_def media_match_def
      split: if_splits option.splits sum.splits dest!: process_answer_match create_answer_match)

lemma neg_inv_step:
  assumes "neg_inv neg" "neg_step neg neg'" shows "neg_inv neg'"
  using assms(2)
proof (cases rule: neg_step.cases)
  case (negotiate b status)
  show ?thesis
  proof (cases "neg_state neg = STATE_WAIT_NEGO")
    case True
    then obtain r where "neg_remote_sdp neg = Some r" using assms(1) by (auto simp: neg_inv_def)
    from negotiate_active[OF negotiate True this] show ?thesis
      using assms(1) by (cases status) (auto simp: neg_inv_def split: option.splits)
  next
    case False
    then show ?thesis using negotiate assms(1) by (simp add: pjmedia_sdp_neg_negotiate_def)
  qed
qed (use assms(1) in \<open>auto simp: neg_inv_def pjmedia_sdp_neg_set_prefer_remote_codec_order_def
   pjmedia_sdp_neg_modify_local_offer_def pjmedia_sdp_neg_send_local_offer_def pjmedia_sdp_neg_set_remote_answer_def
   pjmedia_sdp_neg_set_remote_offer_def pjmedia_sdp_neg_set_local_answer_def Let_def
   split: sdp_neg_state.splits option.splits if_splits\<close>)

lemma neg_inv_reachable: "neg_reachable neg \<Longrightarrow> neg_inv neg"
proof (induction rule: neg_reachable.induct)
  case (create_local loc neg)
  then show ?case by (auto simp: neg_inv_def pjmedia_sdp_neg_create_w_local_offer_def zero_neg_def split: sum.splits)
next
  case (create_remote initial remote neg)
  then show ?case
    by (auto simp: neg_inv_def pjmedia_sdp_neg_create_w_remote_offer_def zero_neg_def Let_def split: sum.splits option.splits)
qed (rule neg_inv_step)

subsection \<open>Offers and answers\<close>








text \<open>
  C11. The negotiator always has what its state promises: the local offer, the remote offer or both while they are
  needed and neither of them afterwards. The descriptions in force are both there or both missing, and have media of the same types
  and transports in the same order. A negotiation that returns ends the exchange, and one that fails leaves
  the descriptions in force as they were.
\<close>

theorem negotiator_invariant:
  assumes "neg_reachable neg"
  shows "neg_inv neg \<and>
     (\<forall>b status neg'. neg_state neg = STATE_WAIT_NEGO \<and> pjmedia_sdp_neg_negotiate neg b = Some (status, neg') \<longrightarrow>
        neg_state neg' = STATE_DONE \<and>
        (status \<noteq> Inr () \<longrightarrow> active_local_sdp neg' = active_local_sdp neg \<and> active_remote_sdp neg' = active_remote_sdp neg) \<and>
        (status = Inr () \<longrightarrow> active_remote_sdp neg' = neg_remote_sdp neg))"
proof -
  have inv: "neg_inv neg" by (rule neg_inv_reachable[OF assms])
  have "neg_state neg' = STATE_DONE \<and>
      (status \<noteq> Inr () \<longrightarrow> active_local_sdp neg' = active_local_sdp neg \<and> active_remote_sdp neg' = active_remote_sdp neg) \<and>
      (status = Inr () \<longrightarrow> active_remote_sdp neg' = neg_remote_sdp neg)"
    if w: "neg_state neg = STATE_WAIT_NEGO" "pjmedia_sdp_neg_negotiate neg b = Some (status, neg')" for b status neg'
  proof -
    obtain r where r: "neg_remote_sdp neg = Some r" using w(1) inv by (auto simp: neg_inv_def)
    show ?thesis using negotiate_active[OF w(2,1) r] r by (cases status) auto
  qed
  then show ?thesis using inv by blast
qed

definition sample_neg :: sdp_neg where
  "sample_neg = projr (pjmedia_sdp_neg_create_w_remote_offer (Some callee) caller)"

lemma sample_neg_reachable: "neg_reachable sample_neg"
proof -
  have "pjmedia_sdp_neg_create_w_remote_offer (Some callee) caller = Inr sample_neg" by code_simp
  then show ?thesis by (rule neg_reachable.create_remote)
qed

lemma sample_negotiates: "\<exists>neg'. pjmedia_sdp_neg_negotiate sample_neg False = Some (Inr (), neg') \<and> neg_state sample_neg = STATE_WAIT_NEGO"
proof -
  have "(case pjmedia_sdp_neg_negotiate sample_neg False of Some (Inr u, _) \<Rightarrow> True | _ \<Rightarrow> False)" "neg_state sample_neg = STATE_WAIT_NEGO"
    by code_simp+
  then show ?thesis by (auto split: option.splits sum.splits prod.splits)
qed


theorem negotiator_invariant_witness:
  "\<exists>neg'. pjmedia_sdp_neg_negotiate sample_neg False = Some (Inr (), neg') \<and> neg_inv sample_neg \<and> neg_state neg' = STATE_DONE"
  using negotiator_invariant[OF sample_neg_reachable] sample_negotiates by blast

section \<open>Where the negotiator falls short\<close>



text \<open>
  An offer none of whose media types is known locally is answered with success: every media is rejected, and the
  negotiation nevertheless counts as successful, because the error code set at the start is overwritten by the validation.
\<close>

theorem unknown_media_success:
  assumes "pjmedia_sdp_validate offer = Inr ()"
    and "\<forall>om \<in> set (s_media offer). \<forall>im \<in> set (s_media loc). media om \<noteq> media im"
  shows "create_answer p loc offer = Some (Inr (loc\<lparr>s_media := map reject_media (s_media offer)\<rparr>))"
proof -
  have find: "find_local_media p om ims used j st = Some (st, None)" if "\<forall>im \<in> set ims. media om \<noteq> media im" for om ims used j st
    using that by (induction ims arbitrary: j) auto
  have "answer_medias p (s_media loc) oms used st = Some (st, map reject_media oms)"
    if "\<forall>om \<in> set oms. \<forall>im \<in> set (s_media loc). media om \<noteq> media im" for oms used st
    using that by (induction oms arbitrary: used) (auto simp: find)
  then show ?thesis using assms by (simp add: create_answer_def Let_def list_ex_iff)
qed

theorem unknown_media_success_witness:
  "create_answer True callee (session_of [video_media]) = Some (Inr (callee\<lparr>s_media := [reject_media video_media]\<rparr>))"
proof -
  have "pjmedia_sdp_validate (session_of [video_media]) = Inr ()" by code_simp
  then show ?thesis
    using unknown_media_success[of "session_of [video_media]" callee True]
    by (simp add: session_of_def video_media_def callee_media_def audio_def)
qed

text \<open>
  A negotiator that is created with a remote offer and no local description, and gets its answer afterwards, follows a null
  pointer as soon as the answer can be created: the version of the answer is counted from the initial description.
\<close>

theorem negotiate_without_initial:
  assumes "pjmedia_sdp_neg_create_w_remote_offer None remote = Inr neg"
    and "pjmedia_sdp_neg_set_local_answer neg (Some loc) = (Inr (), neg1)"
    and "create_answer (prefer_remote_codec_order neg) loc remote = Some (Inr ans)"
  shows "pjmedia_sdp_neg_negotiate neg1 b = None"
  using assms
  by (auto simp: pjmedia_sdp_neg_create_w_remote_offer_def zero_neg_def pjmedia_sdp_neg_set_local_answer_def Let_def
      pjmedia_sdp_neg_negotiate_def negotiate_local_answer_def split: sum.splits if_splits)

theorem negotiate_without_initial_witness:
  "\<exists>neg neg1. pjmedia_sdp_neg_create_w_remote_offer None caller = Inr neg \<and>
     pjmedia_sdp_neg_set_local_answer neg (Some callee) = (Inr (), neg1) \<and> pjmedia_sdp_neg_negotiate neg1 False = None"
proof -
  let ?neg = "projr (pjmedia_sdp_neg_create_w_remote_offer None caller)"
  let ?neg1 = "snd (pjmedia_sdp_neg_set_local_answer ?neg (Some callee))"
  have "pjmedia_sdp_neg_create_w_remote_offer None caller = Inr ?neg"
    "pjmedia_sdp_neg_set_local_answer ?neg (Some callee) = (Inr (), ?neg1)"
    "create_answer (prefer_remote_codec_order ?neg) callee caller = Some (Inr sample_answer)"
    by code_simp+
  then show ?thesis using negotiate_without_initial[of caller ?neg callee ?neg1 sample_answer False] by blast
qed

text \<open>
  The two sides treat the channel count 1 differently: a codec offered with it is accepted by a peer that does not state
  it, but the offering side then does not recognise the answer and is left with an open media that has no format. And
  two telephone events that differ in upper and lower case make the called side look for the same format twice, which
  fails the assertion of \<^verbatim>\<open>match_offer\<close>.
\<close>

theorem offer_answer_mismatches:
  "(\<exists>ans active. create_answer True (session_of [audio 5000 [''96''] [''96 L16/8000'']])
       (session_of [audio 4000 [''97''] [''97 L16/8000/1'']]) = Some (Inr ans) \<and>
     process_answer (session_of [audio 4000 [''97''] [''97 L16/8000/1'']]) ans False = Some (Inr active) \<and>
     port (hd (s_media active)) = 4000 \<and> fmt (hd (s_media active)) = []) \<and>
   create_answer True (session_of [audio 5000 [''0'', ''101''] [''101 telephone-event/8000'']])
       (session_of [audio 4000 [''100'', ''101''] [''100 Telephone-Event/8000'', ''101 telephone-event/8000'']]) = None"
proof -
  let ?o = "session_of [audio 4000 [''97''] [''97 L16/8000/1'']]"
  let ?l = "session_of [audio 5000 [''96''] [''96 L16/8000'']]"
  have a: "create_answer True ?l ?o = Some (Inr ?l)" by code_simp
  have b: "process_answer ?o ?l False = Some (Inr (session_of [audio 4000 [] []]))" by code_simp
  have c: "create_answer True (session_of [audio 5000 [''0'', ''101''] [''101 telephone-event/8000'']])
       (session_of [audio 4000 [''100'', ''101''] [''100 Telephone-Event/8000'', ''101 telephone-event/8000'']]) = None" by code_simp
  have "port (hd (s_media (session_of [audio 4000 [] []]))) = 4000" "fmt (hd (s_media (session_of [audio 4000 [] []]))) = []"
    by (simp_all add: session_of_def audio_def)
  then show ?thesis using a b c by blast
qed

end
