(* ===== verification/Sdp_Compare.thy ===== *)
theory Sdp_Compare
  imports Sdp_Session
begin

text \<open>
  Comparison of session descriptions, \<^verbatim>\<open>pjmedia/src/pjmedia/sdp_cmp.c\<close>: the comparison of connections, attribute
  lists, media and sessions with the status that names the first difference; what the comparison decides, and what
  it forgets.
\<close>

section \<open>Operations\<close>

datatype cmp_error =
    PJMEDIA_SDP_EORIGINNOTEQUAL | PJMEDIA_SDP_ENAMENOTEQUAL | PJMEDIA_SDP_ECONNNOTEQUAL
  | PJMEDIA_SDP_ETIMENOTEQUAL | PJMEDIA_SDP_EMEDIANOTEQUAL | PJMEDIA_SDP_EPORTNOTEQUAL
  | PJMEDIA_SDP_ETPORTNOTEQUAL | PJMEDIA_SDP_EFORMATNOTEQUAL | PJMEDIA_SDP_EDIRNOTEQUAL
  | PJMEDIA_SDP_EFMTPNOTEQUAL | PJMEDIA_SDP_ERTPMAPNOTEQUAL | CMP_EINVAL

type_synonym cmp_status = "cmp_error + unit"

abbreviation (input) EQUAL :: cmp_status where "EQUAL \<equiv> Inr ()"

definition compare_conn :: "sdp_conn \<Rightarrow> sdp_conn \<Rightarrow> cmp_status" where
  "compare_conn c1 c2 =
     (if pj_strcmp (net_type c1) (net_type c2) \<noteq> 0 then Inl PJMEDIA_SDP_ECONNNOTEQUAL
      else if pj_strcmp (addr_type c1) (addr_type c2) \<noteq> 0 then Inl PJMEDIA_SDP_ECONNNOTEQUAL
      else if pj_strcmp (addr c1) (addr c2) \<noteq> 0 then Inl PJMEDIA_SDP_ECONNNOTEQUAL
      else EQUAL)"

text \<open>The three kinds of attributes that are compared, each a branch of the loop of \<^verbatim>\<open>compare_attr_imp\<close>.\<close>

definition compare_direction :: "sdp_attr \<Rightarrow> sdp_attr list \<Rightarrow> cmp_status" where
  "compare_direction a1 attr2 =
     (case pjmedia_sdp_attr_find attr2 (attr_name a1) None of
        None \<Rightarrow> Inl PJMEDIA_SDP_EDIRNOTEQUAL
      | Some _ \<Rightarrow> EQUAL)"

definition compare_fmtp :: "sdp_attr \<Rightarrow> sdp_attr list \<Rightarrow> cmp_status" where
  "compare_fmtp a1 attr2 =
     (case pjmedia_sdp_attr_get_fmtp a1 of
        Inl _ \<Rightarrow> Inl PJMEDIA_SDP_EFMTPNOTEQUAL
      | Inr fmtp1 \<Rightarrow> (case pjmedia_sdp_attr_find attr2 (attr_name a1) (Some (fmtp_fmt fmtp1)) of
          None \<Rightarrow> Inl PJMEDIA_SDP_EFMTPNOTEQUAL
        | Some j \<Rightarrow> (case pjmedia_sdp_attr_get_fmtp (attr2 ! j) of
            Inl _ \<Rightarrow> Inl PJMEDIA_SDP_EFMTPNOTEQUAL
          | Inr fmtp2 \<Rightarrow> if pj_strcmp (fmt_param fmtp1) (fmt_param fmtp2) \<noteq> 0
              then Inl PJMEDIA_SDP_EFMTPNOTEQUAL else EQUAL)))"

text \<open>A successful \<^verbatim>\<open>pjmedia_sdp_attr_get_rtpmap\<close> has filled its out parameter.\<close>

definition got_rtpmap :: "sdp_attr \<Rightarrow> sdp_rtpmap option" where
  "got_rtpmap a = (case pjmedia_sdp_attr_get_rtpmap a of (Inr _, r) \<Rightarrow> r | (Inl _, _) \<Rightarrow> None)"

definition compare_rtpmap :: "sdp_attr \<Rightarrow> sdp_attr list \<Rightarrow> cmp_status" where
  "compare_rtpmap a1 attr2 =
     (case got_rtpmap a1 of
        None \<Rightarrow> Inl PJMEDIA_SDP_ERTPMAPNOTEQUAL
      | Some r1 \<Rightarrow> (case pjmedia_sdp_attr_find attr2 (attr_name a1) (Some (rm_pt r1)) of
          None \<Rightarrow> Inl PJMEDIA_SDP_ERTPMAPNOTEQUAL
        | Some j \<Rightarrow> (case got_rtpmap (attr2 ! j) of
            None \<Rightarrow> Inl PJMEDIA_SDP_ERTPMAPNOTEQUAL
          | Some r2 \<Rightarrow>
              if pj_strcmp (rm_pt r1) (rm_pt r2) \<noteq> 0 then Inl PJMEDIA_SDP_ERTPMAPNOTEQUAL
              else if pj_strcmp (enc_name r1) (enc_name r2) \<noteq> 0 then Inl PJMEDIA_SDP_ERTPMAPNOTEQUAL
              else if clock_rate r1 \<noteq> clock_rate r2 then Inl PJMEDIA_SDP_ERTPMAPNOTEQUAL
              else if pj_strcmp (rm_param r1) (rm_param r2) \<noteq> 0 then Inl PJMEDIA_SDP_ERTPMAPNOTEQUAL
              else EQUAL)))"

definition is_direction :: "string \<Rightarrow> bool" where
  "is_direction name \<longleftrightarrow>
     pj_strcmp name ''inactive'' = 0 \<or> pj_strcmp name ''sendrecv'' = 0 \<or>
     pj_strcmp name ''sendonly'' = 0 \<or> pj_strcmp name ''recvonly'' = 0"

primrec compare_attr_imp :: "sdp_attr list \<Rightarrow> sdp_attr list \<Rightarrow> cmp_status" where
  "compare_attr_imp [] attr2 = EQUAL"
| "compare_attr_imp (a1 # as) attr2 =
     (let status =
            (if is_direction (attr_name a1) then compare_direction a1 attr2
             else if pj_strcmp (attr_name a1) ''fmtp'' = 0 then compare_fmtp a1 attr2
             else if pj_strcmp (attr_name a1) ''rtpmap'' = 0 then compare_rtpmap a1 attr2
             else EQUAL)
      in if status \<noteq> EQUAL then status else compare_attr_imp as attr2)"

definition compare_attr :: "sdp_attr list \<Rightarrow> sdp_attr list \<Rightarrow> cmp_status" where
  "compare_attr attr1 attr2 =
     (let status = compare_attr_imp attr1 attr2
      in if status \<noteq> EQUAL then status
         else let status = compare_attr_imp attr2 attr1
              in if status \<noteq> EQUAL then status else EQUAL)"

text \<open>The loop over the formats, which the code enters with two lists of the same length.\<close>

fun compare_fmts :: "string list \<Rightarrow> string list \<Rightarrow> cmp_status" where
  "compare_fmts (f1 # fs1) (f2 # fs2) =
     (if pj_strcmp f1 f2 \<noteq> 0 then Inl PJMEDIA_SDP_EFORMATNOTEQUAL else compare_fmts fs1 fs2)"
| "compare_fmts _ _ = EQUAL"

text \<open>
  The result of comparing the two connections of a media is stored in \<^verbatim>\<open>status\<close> and overwritten by the
  comparison of the attributes, so it appears here only as a value that is not used.
\<close>

definition pjmedia_sdp_media_cmp :: "sdp_media \<Rightarrow> sdp_media \<Rightarrow> 32 word \<Rightarrow> cmp_status" where
  "pjmedia_sdp_media_cmp sd1 sd2 option =
     (if option \<noteq> 0 then Inl CMP_EINVAL
      else if pj_strcmp (media sd1) (media sd2) \<noteq> 0 then Inl PJMEDIA_SDP_EMEDIANOTEQUAL
      else if port sd1 \<noteq> port sd2 then Inl PJMEDIA_SDP_EPORTNOTEQUAL
      else if port_count sd1 \<noteq> port_count sd2 then Inl PJMEDIA_SDP_EPORTNOTEQUAL
      else if pj_strcmp (transport sd1) (transport sd2) \<noteq> 0 then Inl PJMEDIA_SDP_ETPORTNOTEQUAL
      else if length (fmt sd1) \<noteq> length (fmt sd2) then Inl PJMEDIA_SDP_EFORMATNOTEQUAL
      else if compare_fmts (fmt sd1) (fmt sd2) \<noteq> EQUAL then compare_fmts (fmt sd1) (fmt sd2)
      else case (m_conn sd1, m_conn sd2) of
          (Some _, None) \<Rightarrow> Inl PJMEDIA_SDP_EMEDIANOTEQUAL
        | (None, Some _) \<Rightarrow> Inl PJMEDIA_SDP_EMEDIANOTEQUAL
        | (Some c1, Some c2) \<Rightarrow> (let status = compare_conn c1 c2; status = compare_attr (m_attr sd1) (m_attr sd2) in status)
        | (None, None) \<Rightarrow> compare_attr (m_attr sd1) (m_attr sd2))"

fun compare_medias :: "sdp_media list \<Rightarrow> sdp_media list \<Rightarrow> cmp_status" where
  "compare_medias (m1 # ms1) (m2 # ms2) =
     (let status = pjmedia_sdp_media_cmp m1 m2 0
      in if status \<noteq> EQUAL then status else compare_medias ms1 ms2)"
| "compare_medias _ _ = EQUAL"

definition compare_origin :: "sdp_origin \<Rightarrow> sdp_origin \<Rightarrow> cmp_status" where
  "compare_origin o1 o2 =
     (if pj_strcmp (o_user o1) (o_user o2) \<noteq> 0 then Inl PJMEDIA_SDP_EORIGINNOTEQUAL
      else if o_id o1 \<noteq> o_id o2 then Inl PJMEDIA_SDP_EORIGINNOTEQUAL
      else if o_version o1 \<noteq> o_version o2 then Inl PJMEDIA_SDP_EORIGINNOTEQUAL
      else if pj_strcmp (o_net_type o1) (o_net_type o2) \<noteq> 0 then Inl PJMEDIA_SDP_EORIGINNOTEQUAL
      else if pj_strcmp (o_addr_type o1) (o_addr_type o2) \<noteq> 0 then Inl PJMEDIA_SDP_EORIGINNOTEQUAL
      else if pj_strcmp (o_addr o1) (o_addr o2) \<noteq> 0 then Inl PJMEDIA_SDP_EORIGINNOTEQUAL
      else EQUAL)"

definition pjmedia_sdp_session_cmp :: "sdp_session \<Rightarrow> sdp_session \<Rightarrow> 32 word \<Rightarrow> cmp_status" where
  "pjmedia_sdp_session_cmp sd1 sd2 option =
     (if option \<noteq> 0 then Inl CMP_EINVAL
      else if compare_origin (origin sd1) (origin sd2) \<noteq> EQUAL then compare_origin (origin sd1) (origin sd2)
      else if pj_strcmp (s_name sd1) (s_name sd2) \<noteq> 0 then Inl PJMEDIA_SDP_ENAMENOTEQUAL
      else let status = (case (s_conn sd1, s_conn sd2) of
                 (Some _, None) \<Rightarrow> Inl PJMEDIA_SDP_ECONNNOTEQUAL
               | (None, Some _) \<Rightarrow> Inl PJMEDIA_SDP_ECONNNOTEQUAL
               | (Some c1, Some c2) \<Rightarrow> compare_conn c1 c2
               | (None, None) \<Rightarrow> EQUAL)
      in if status \<noteq> EQUAL then status
      else if time_start sd1 \<noteq> time_start sd2 then Inl PJMEDIA_SDP_ETIMENOTEQUAL
      else if time_stop sd1 \<noteq> time_stop sd2 then Inl PJMEDIA_SDP_ETIMENOTEQUAL
      else if compare_attr (s_attr sd1) (s_attr sd2) \<noteq> EQUAL then compare_attr (s_attr sd1) (s_attr sd2)
      else if length (s_media sd1) \<noteq> length (s_media sd2) then Inl PJMEDIA_SDP_EMEDIANOTEQUAL
      else compare_medias (s_media sd1) (s_media sd2))"

section \<open>What the search of an attribute finds\<close>

text \<open>The payload number by which an \<^verbatim>\<open>rtpmap\<close> or \<^verbatim>\<open>fmtp\<close> attribute is found.\<close>

definition attr_num :: "sdp_attr \<Rightarrow> 32 word" where
  "attr_num a = pj_strtoul2 (attr_value a) 10"

definition attr_hit :: "string \<Rightarrow> string option \<Rightarrow> sdp_attr \<Rightarrow> bool" where
  "attr_hit name c_fmt a \<longleftrightarrow>
     attr_name a = name \<and> (case c_fmt of None \<Rightarrow> True | Some f \<Rightarrow> attr_num a = pj_strtoul f)"

lemma attr_find_from_iff:
  "case attr_find_from as name (map_option pj_strtoul c_fmt) i of
     None \<Rightarrow> filter (attr_hit name c_fmt) as = []
   | Some j \<Rightarrow> i \<le> j \<and> j < i + length as \<and> attr_hit name c_fmt (as ! (j - i))"
proof (induction as arbitrary: i)
  case (Cons a as)
  show ?case
  proof (cases "attr_hit name c_fmt a")
    case True
    then show ?thesis by (simp add: attr_hit_def attr_num_def split: option.splits)
  next
    case False
    then have "attr_find_from (a # as) name (map_option pj_strtoul c_fmt) i =
        attr_find_from as name (map_option pj_strtoul c_fmt) (i + 1)"
      by (auto simp: attr_hit_def attr_num_def split: option.splits)
    then show ?thesis using Cons[of "i + 1"] False
      by (cases "attr_find_from as name (map_option pj_strtoul c_fmt) (i + 1)") (auto simp: nth_Cons')
  qed
qed simp

lemma attr_find_None:
  "pjmedia_sdp_attr_find as name c_fmt = None \<longleftrightarrow> (\<forall>a \<in> set as. \<not> attr_hit name c_fmt a)"
  using attr_find_from_iff[where as = as and name = name and c_fmt = c_fmt and i = 0]
  by (auto simp: pjmedia_sdp_attr_find_def filter_empty_conv dest: nth_mem split: option.splits)

lemma attr_find_Some:
  "pjmedia_sdp_attr_find as name c_fmt = Some j \<Longrightarrow> as ! j \<in> set as \<and> attr_hit name c_fmt (as ! j)"
  using attr_find_from_iff[where as = as and name = name and c_fmt = c_fmt and i = 0]
  by (auto simp: pjmedia_sdp_attr_find_def split: option.splits)

text \<open>The number read by the search is the number of the leading digits.\<close>

lemma digit_val_less: "digit_val c < 10 \<longleftrightarrow> pj_isdigit c"
proof -
  have c: "(of_char c :: int) = int (of_char c)" by (simp only: of_nat_of_char)
  show ?thesis
  proof (cases "pj_isdigit c")
    case True
    define n where "n = of_char c - (48::nat)"
    have n: "n < 10" "of_char c = 48 + n" using True by (auto simp: pj_isdigit_def n_def)
    have "c = char_of (48 + n)" using n(2) by (metis char_of_char)
    then have "digit_val c = of_nat n" using n(1) digit_val_digit by simp
    then have "unat (digit_val c) = n" using n(1) by (simp add: unat_of_nat take_bit_nat_eq_self)
    then show ?thesis using True n(1) by (simp add: word_less_nat_alt)
  next
    case False
    have "uint (digit_val c) = (schar c - 48) mod 2 ^ 32" unfolding digit_val_def uint_word_of_int by simp
    moreover have "10 \<le> (schar c - 48) mod 2 ^ 32"
    proof (cases "schar c < 48")
      case True
      have "- 128 \<le> schar c" by (simp add: schar_def c)
      then have "(schar c - 48 + 2 ^ 32) mod 2 ^ 32 = schar c - 48 + 2 ^ 32"
        using True by (intro mod_pos_pos_trivial) auto
      then have "(schar c - 48) mod 2 ^ 32 = schar c - 48 + 2 ^ 32" by (simp only: mod_add_self2)
      then show ?thesis using \<open>- 128 \<le> schar c\<close> by simp
    next
      case False
      then have "58 \<le> schar c" "schar c \<le> 127"
        using \<open>\<not> pj_isdigit c\<close> nat_of_char_less_256[of c] unfolding schar_def c pj_isdigit_def atLeastAtMost_iff by presburger+
      then show ?thesis by simp
    qed
    ultimately show ?thesis using False by (simp add: word_less_def)
  qed
qed

lemma strtoul2_loop_digits: "strtoul2_loop 10 v s = strtoul_loop v (takeWhile pj_isdigit s)"
proof (induction s arbitrary: v)
  case (Cons c s)
  then show ?case using digit_val_less[of c] by (simp add: not_less[symmetric])
qed simp

lemma get_fmtp_num:
  "pjmedia_sdp_attr_get_fmtp a = Inr f \<Longrightarrow> pj_strtoul (fmtp_fmt f) = attr_num a"
  by (auto simp: pjmedia_sdp_attr_get_fmtp_def attr_num_def pj_strtoul_def pj_strtoul2_def strtoul2_loop_digits
      Let_def split: if_splits)

section \<open>What the comparison decides\<close>

text \<open>
  The contents of an attribute list that matter: the directions, the rtpmap entries and, by payload number, the
  parameters of the formats.
\<close>

definition directions :: "sdp_attr list \<Rightarrow> string set" where
  "directions as = {d. is_direction d \<and> (\<exists>a \<in> set as. attr_name a = d)}"

definition rtpmaps :: "sdp_attr list \<Rightarrow> sdp_rtpmap set" where
  "rtpmaps as = {r. \<exists>a \<in> set as. attr_name a = ''rtpmap'' \<and> got_rtpmap a = Some r}"

definition fmtps :: "sdp_attr list \<Rightarrow> (32 word \<times> string) set" where
  "fmtps as = {(n, p). \<exists>a \<in> set as. attr_name a = ''fmtp'' \<and> attr_num a = n \<and>
     (\<exists>f. pjmedia_sdp_attr_get_fmtp a = Inr f \<and> fmt_param f = p)}"

text \<open>
  A list is clear when its \<^verbatim>\<open>rtpmap\<close> and \<^verbatim>\<open>fmtp\<close> attributes can be read and there is at most one of each kind
  for a payload number.
\<close>

definition attr_clear :: "sdp_attr \<Rightarrow> bool" where
  "attr_clear a \<longleftrightarrow>
     (attr_name a = ''rtpmap'' \<longrightarrow> (case got_rtpmap a of None \<Rightarrow> False | Some r \<Rightarrow> pj_strtoul (rm_pt r) = attr_num a)) \<and>
     (attr_name a = ''fmtp'' \<longrightarrow> (case pjmedia_sdp_attr_get_fmtp a of Inl _ \<Rightarrow> False | Inr _ \<Rightarrow> True))"

definition attrs_clear :: "sdp_attr list \<Rightarrow> bool" where
  "attrs_clear as \<longleftrightarrow> list_all attr_clear as \<and>
     distinct (map attr_num (filter (\<lambda>a. attr_name a = ''rtpmap'') as)) \<and>
     distinct (map attr_num (filter (\<lambda>a. attr_name a = ''fmtp'') as))"

lemma clear_unique:
  assumes "attrs_clear as" "a \<in> set as" "b \<in> set as" "attr_num a = attr_num b"
    "attr_name a = name" "attr_name b = name" "name = ''rtpmap'' \<or> name = ''fmtp''"
  shows "a = b"
  using assms inj_onD[of attr_num "set (filter (\<lambda>a. attr_name a = name) as)" a b]
  by (auto simp: attrs_clear_def distinct_map)

lemma clear_rtpmap:
  assumes "attrs_clear as" "a \<in> set as" "attr_name a = ''rtpmap''"
  obtains r where "got_rtpmap a = Some r" "pj_strtoul (rm_pt r) = attr_num a"
  using assms by (cases "got_rtpmap a") (auto simp: attrs_clear_def list_all_iff attr_clear_def)

lemma clear_rtpmap_num:
  assumes "attrs_clear as" "a \<in> set as" "attr_name a = ''rtpmap''" "got_rtpmap a = Some r"
  shows "attr_num a = pj_strtoul (rm_pt r)"
  using clear_rtpmap[OF assms(1-3)] assms(4) by (metis option.inject)

lemma clear_fmtp:
  assumes "attrs_clear as" "a \<in> set as" "attr_name a = ''fmtp''"
  obtains f where "pjmedia_sdp_attr_get_fmtp a = Inr f"
  using assms by (cases "pjmedia_sdp_attr_get_fmtp a") (auto simp: attrs_clear_def list_all_iff attr_clear_def)

lemma compare_direction_iff:
  "compare_direction a as = EQUAL \<longleftrightarrow> (\<exists>b \<in> set as. attr_name b = attr_name a)"
  using attr_find_None[of as "attr_name a" None]
  by (auto simp: compare_direction_def attr_hit_def split: option.splits)

lemma compare_rtpmap_iff:
  assumes "attrs_clear as" "attr_name a = ''rtpmap''" "got_rtpmap a = Some r"
  shows "compare_rtpmap a as = EQUAL \<longleftrightarrow> r \<in> rtpmaps as"
proof (cases "pjmedia_sdp_attr_find as (attr_name a) (Some (rm_pt r))")
  case None
  have "r \<notin> rtpmaps as"
  proof
    assume "r \<in> rtpmaps as"
    then obtain b :: sdp_attr where b: "b \<in> set as" "attr_name b = ''rtpmap''" "got_rtpmap b = Some r"
      by (auto simp: rtpmaps_def)
    then have "attr_num b = pj_strtoul (rm_pt r)" by (rule clear_rtpmap_num[OF assms(1)])
    then show False using None b assms(2) by (auto simp: attr_find_None attr_hit_def)
  qed
  then show ?thesis using None assms by (simp add: compare_rtpmap_def)
next
  case (Some j)
  let ?b = "as ! j"
  have b: "?b \<in> set as" "attr_name ?b = ''rtpmap''" "attr_num ?b = pj_strtoul (rm_pt r)"
    using attr_find_Some[OF Some] assms(2) by (auto simp: attr_hit_def)
  obtain r2 where r2: "got_rtpmap ?b = Some r2" using clear_rtpmap[OF assms(1) b(1,2)] by metis
  have "compare_rtpmap a as = EQUAL \<longleftrightarrow> r = r2"
    using Some assms r2 by (auto simp: compare_rtpmap_def intro: sdp_rtpmap.equality)
  also have "\<dots> \<longleftrightarrow> r \<in> rtpmaps as"
  proof
    assume "r \<in> rtpmaps as"
    then obtain c :: sdp_attr where c: "c \<in> set as" "attr_name c = ''rtpmap''" "got_rtpmap c = Some r"
      by (auto simp: rtpmaps_def)
    have "attr_num c = attr_num ?b" using clear_rtpmap_num[OF assms(1) c] b(3) by simp
    then have "c = ?b" by (rule clear_unique[OF assms(1) c(1) b(1) _ c(2) b(2)]) simp
    then show "r = r2" using c(3) r2 by simp
  qed (use b r2 in \<open>auto simp: rtpmaps_def\<close>)
  finally show ?thesis .
qed

lemma compare_fmtp_iff:
  assumes "attrs_clear as" "attr_name a = ''fmtp''" "pjmedia_sdp_attr_get_fmtp a = Inr f"
  shows "compare_fmtp a as = EQUAL \<longleftrightarrow> (attr_num a, fmt_param f) \<in> fmtps as"
proof (cases "pjmedia_sdp_attr_find as (attr_name a) (Some (fmtp_fmt f))")
  case None
  then have "(attr_num a, fmt_param f) \<notin> fmtps as"
    using assms get_fmtp_num[OF assms(3)] by (auto simp: attr_find_None attr_hit_def fmtps_def)
  then show ?thesis using None assms by (simp add: compare_fmtp_def)
next
  case (Some j)
  let ?b = "as ! j"
  have b: "?b \<in> set as" "attr_name ?b = ''fmtp''" "attr_num ?b = attr_num a"
    using attr_find_Some[OF Some] assms(2) get_fmtp_num[OF assms(3)] by (auto simp: attr_hit_def)
  obtain f2 where f2: "pjmedia_sdp_attr_get_fmtp ?b = Inr f2" using clear_fmtp[OF assms(1) b(1,2)] by metis
  have "compare_fmtp a as = EQUAL \<longleftrightarrow> fmt_param f = fmt_param f2"
    using Some assms f2 by (auto simp: compare_fmtp_def)
  also have "\<dots> \<longleftrightarrow> (attr_num a, fmt_param f) \<in> fmtps as"
  proof
    assume "(attr_num a, fmt_param f) \<in> fmtps as"
    then obtain c :: sdp_attr and g :: sdp_fmtp where c: "c \<in> set as" "attr_name c = ''fmtp''" "pjmedia_sdp_attr_get_fmtp c = Inr g"
        "attr_num c = attr_num a" "fmt_param g = fmt_param f"
      by (auto simp: fmtps_def)
    have "c = ?b" by (rule clear_unique[OF assms(1) c(1) b(1) _ c(2) b(2)]) (simp_all add: c(4) b(3))
    then show "fmt_param f = fmt_param f2" using c f2 by simp
  qed (use b f2 in \<open>auto simp: fmtps_def\<close>)
  finally show ?thesis .
qed

lemma compare_attr_imp_iff:
  assumes "attrs_clear as2" "list_all attr_clear as1"
  shows "compare_attr_imp as1 as2 = EQUAL \<longleftrightarrow>
    directions as1 \<subseteq> directions as2 \<and> rtpmaps as1 \<subseteq> rtpmaps as2 \<and> fmtps as1 \<subseteq> fmtps as2"
  using assms(2)
proof (induction as1)
  case Nil
  then show ?case by (simp add: directions_def rtpmaps_def fmtps_def)
next
  case (Cons a as1)
  have dir: "\<not> is_direction ''fmtp''" "\<not> is_direction ''rtpmap''" by (simp_all add: is_direction_def)
  have split: "directions (a # as1) = (if is_direction (attr_name a) then {attr_name a} else {}) \<union> directions as1"
    "rtpmaps (a # as1) = (if attr_name a = ''rtpmap'' then set_option (got_rtpmap a) else {}) \<union> rtpmaps as1"
    "fmtps (a # as1) = (if attr_name a = ''fmtp'' then
       (case pjmedia_sdp_attr_get_fmtp a of Inr f \<Rightarrow> {(attr_num a, fmt_param f)} | Inl _ \<Rightarrow> {}) else {}) \<union> fmtps as1"
    by (auto simp: directions_def rtpmaps_def fmtps_def split: sum.splits)
  have IH: "compare_attr_imp as1 as2 = EQUAL \<longleftrightarrow>
      directions as1 \<subseteq> directions as2 \<and> rtpmaps as1 \<subseteq> rtpmaps as2 \<and> fmtps as1 \<subseteq> fmtps as2"
    using Cons by simp
  consider "is_direction (attr_name a)" | "attr_name a = ''fmtp''" | "attr_name a = ''rtpmap''"
    | "\<not> is_direction (attr_name a)" "attr_name a \<noteq> ''fmtp''" "attr_name a \<noteq> ''rtpmap''" by blast
  then show ?case
  proof cases
    case 1
    then have n: "attr_name a \<noteq> ''fmtp''" "attr_name a \<noteq> ''rtpmap''" using dir by auto
    have "compare_direction a as2 = EQUAL \<longleftrightarrow> attr_name a \<in> directions as2"
      using 1 by (auto simp: compare_direction_iff directions_def)
    then show ?thesis using 1 n IH by (simp add: split Let_def)
  next
    case 2
    obtain f where f: "pjmedia_sdp_attr_get_fmtp a = Inr f"
      using Cons.prems 2 by (auto simp: attr_clear_def split: sum.splits)
    then show ?thesis using 2 IH compare_fmtp_iff[OF assms(1) 2 f] dir by (simp add: split Let_def)
  next
    case 3
    obtain r where r: "got_rtpmap a = Some r"
      using Cons.prems 3 by (auto simp: attr_clear_def split: option.splits)
    then show ?thesis using 3 IH compare_rtpmap_iff[OF assms(1) 3 r] dir by (simp add: split Let_def)
  next
    case 4
    then show ?thesis using IH by (simp add: split Let_def)
  qed
qed

definition same_attrs :: "sdp_attr list \<Rightarrow> sdp_attr list \<Rightarrow> bool" where
  "same_attrs as1 as2 \<longleftrightarrow>
     directions as1 = directions as2 \<and> rtpmaps as1 = rtpmaps as2 \<and> fmtps as1 = fmtps as2"

definition same_media :: "sdp_media \<Rightarrow> sdp_media \<Rightarrow> bool" where
  "same_media m1 m2 \<longleftrightarrow> media m1 = media m2 \<and> port m1 = port m2 \<and> port_count m1 = port_count m2 \<and>
     transport m1 = transport m2 \<and> fmt m1 = fmt m2 \<and> (m_conn m1 = None \<longleftrightarrow> m_conn m2 = None) \<and>
     same_attrs (m_attr m1) (m_attr m2)"

definition same_session :: "sdp_session \<Rightarrow> sdp_session \<Rightarrow> bool" where
  "same_session s1 s2 \<longleftrightarrow> origin s1 = origin s2 \<and> s_name s1 = s_name s2 \<and> s_conn s1 = s_conn s2 \<and>
     time_start s1 = time_start s2 \<and> time_stop s1 = time_stop s2 \<and> same_attrs (s_attr s1) (s_attr s2) \<and>
     list_all2 same_media (s_media s1) (s_media s2)"

definition session_clear :: "sdp_session \<Rightarrow> bool" where
  "session_clear s \<longleftrightarrow> attrs_clear (s_attr s) \<and> list_all (\<lambda>m. attrs_clear (m_attr m)) (s_media s)"

lemma compare_attr_iff:
  "attrs_clear as1 \<Longrightarrow> attrs_clear as2 \<Longrightarrow> compare_attr as1 as2 = EQUAL \<longleftrightarrow> same_attrs as1 as2"
  using compare_attr_imp_iff[of as2 as1] compare_attr_imp_iff[of as1 as2]
  unfolding compare_attr_def Let_def same_attrs_def set_eq_subset
  by (simp add: attrs_clear_def) blast

lemma compare_conn_iff: "compare_conn c1 c2 = EQUAL \<longleftrightarrow> c1 = c2"
  by (cases c1; cases c2) (simp add: compare_conn_def)

lemma compare_fmts_iff: "length fs1 = length fs2 \<Longrightarrow> compare_fmts fs1 fs2 = EQUAL \<longleftrightarrow> fs1 = fs2"
  by (induction fs1 fs2 rule: list_induct2) simp_all

lemma compare_origin_iff: "compare_origin o1 o2 = EQUAL \<longleftrightarrow> o1 = o2"
  by (cases o1; cases o2) (simp add: compare_origin_def)

lemma media_cmp_iff:
  assumes "attrs_clear (m_attr m1)" "attrs_clear (m_attr m2)"
  shows "pjmedia_sdp_media_cmp m1 m2 0 = EQUAL \<longleftrightarrow> same_media m1 m2"
proof (cases "length (fmt m1) = length (fmt m2)")
  case True
  then show ?thesis
    using compare_attr_iff[OF assms] compare_fmts_iff[OF True]
    by (simp add: pjmedia_sdp_media_cmp_def same_media_def Let_def split: option.split)
next
  case False
  then have "fmt m1 \<noteq> fmt m2" by metis
  then show ?thesis using False by (simp add: pjmedia_sdp_media_cmp_def same_media_def)
qed

lemma compare_medias_iff:
  "length ms1 = length ms2 \<Longrightarrow> list_all (\<lambda>m. attrs_clear (m_attr m)) ms1 \<Longrightarrow>
   list_all (\<lambda>m. attrs_clear (m_attr m)) ms2 \<Longrightarrow> compare_medias ms1 ms2 = EQUAL \<longleftrightarrow> list_all2 same_media ms1 ms2"
  by (induction ms1 ms2 rule: list_induct2) (simp_all add: media_cmp_iff Let_def)

lemma sdp_cmp_iff:
  assumes "session_clear s1" "session_clear s2"
  shows "pjmedia_sdp_session_cmp s1 s2 0 = EQUAL \<longleftrightarrow> same_session s1 s2"
proof (cases "length (s_media s1) = length (s_media s2)")
  case True
  have a: "compare_attr (s_attr s1) (s_attr s2) = EQUAL \<longleftrightarrow> same_attrs (s_attr s1) (s_attr s2)"
    using assms by (simp add: session_clear_def compare_attr_iff)
  have m: "compare_medias (s_media s1) (s_media s2) = EQUAL \<longleftrightarrow> list_all2 same_media (s_media s1) (s_media s2)"
    using assms True by (simp add: session_clear_def compare_medias_iff)
  show ?thesis using True a m
    by (simp add: pjmedia_sdp_session_cmp_def same_session_def Let_def compare_origin_iff compare_conn_iff
        split: option.split)
next
  case False
  then have "\<not> list_all2 same_media (s_media s1) (s_media s2)" using list_all2_lengthD by blast
  then show ?thesis using False by (simp add: pjmedia_sdp_session_cmp_def same_session_def Let_def)
qed

text \<open>
  C37. The comparison decides what it looks at. For two descriptions whose \<^verbatim>\<open>rtpmap\<close> and \<^verbatim>\<open>fmtp\<close> attributes can be
  read, with one of each kind for a payload number, it reports equality exactly if they have the same origin,
  name, connection and times and the same media in the same order: type, port, number of ports, transport and formats
  are equal, both or neither have a connection, and the attribute lists, of the session and of each media, agree up
  to order and repetition in their directions, rtpmap entries and format parameters.
\<close>

theorem sdp_cmp_decides:
  assumes "session_clear s1" "session_clear s2"
  shows "pjmedia_sdp_session_cmp s1 s2 0 = EQUAL \<longleftrightarrow> same_session s1 s2"
  using assms by (rule sdp_cmp_iff)

definition sample_media :: sdp_media where
  "sample_media = \<lparr>media = ''audio'', port = 4000, port_count = 1, transport = ''RTP/AVP'', fmt = [''0'', ''101''],
     m_conn = Some \<lparr>net_type = ''IN'', addr_type = ''IP4'', addr = ''10.0.0.1''\<rparr>,
     m_attr = [\<lparr>attr_name = ''rtpmap'', attr_value = ''0 PCMU/8000''\<rparr>,
       \<lparr>attr_name = ''rtpmap'', attr_value = ''101 telephone-event/8000''\<rparr>,
       \<lparr>attr_name = ''fmtp'', attr_value = ''101 0-15''\<rparr>, \<lparr>attr_name = ''sendrecv'', attr_value = []\<rparr>]\<rparr>"

definition sample_session :: sdp_session where
  "sample_session = \<lparr>origin = \<lparr>o_user = ''-'', o_id = 1, o_version = 1, o_net_type = ''IN'', o_addr_type = ''IP4'',
       o_addr = ''10.0.0.1''\<rparr>, s_name = ''call'', s_conn = None, time_start = 0, time_stop = 0, s_attr = [],
     s_media = [sample_media]\<rparr>"

definition sample_reordered :: sdp_session where
  "sample_reordered = sample_session\<lparr>s_media := [sample_media\<lparr>m_attr := rev (m_attr sample_media)\<rparr>]\<rparr>"

definition sample_shortened :: sdp_session where
  "sample_shortened = sample_session\<lparr>s_media := [sample_media\<lparr>m_attr := tl (m_attr sample_media)\<rparr>]\<rparr>"

theorem sdp_cmp_decides_witness:
  "same_session sample_session sample_reordered \<and> \<not> same_session sample_session sample_shortened"
proof -
  have c: "session_clear sample_session" "session_clear sample_reordered" "session_clear sample_shortened"
    by code_simp+
  have "pjmedia_sdp_session_cmp sample_session sample_reordered 0 = EQUAL"
    "pjmedia_sdp_session_cmp sample_session sample_shortened 0 \<noteq> EQUAL"
    by code_simp+
  then show ?thesis using sdp_cmp_decides[OF c(1,2)] sdp_cmp_decides[OF c(1,3)] by blast
qed

text \<open>
  The addresses of the media are not compared: whatever the connection of a media is replaced with, the
  comparison still reports that nothing has changed, although \<open>compare_conn\<close> is called for the two connections and
  tells them apart.
\<close>

theorem media_connection_ignored:
  assumes "session_clear s" "i < length (s_media s)" "m_conn (s_media s ! i) = Some c" "c' \<noteq> c"
  shows "compare_conn c c' = Inl PJMEDIA_SDP_ECONNNOTEQUAL \<and>
    pjmedia_sdp_session_cmp s (s\<lparr>s_media := (s_media s)[i := (s_media s ! i)\<lparr>m_conn := Some c'\<rparr>]\<rparr>) 0 = EQUAL"
    (is "_ \<and> pjmedia_sdp_session_cmp s ?s 0 = EQUAL")
proof
  show "compare_conn c c' = Inl PJMEDIA_SDP_ECONNNOTEQUAL"
    using compare_conn_iff[of c c'] assms(4) by (auto simp: compare_conn_def split: if_splits)
  have "session_clear ?s" using assms(1,2) by (auto simp: session_clear_def list_all_length nth_list_update)
  moreover have "same_session s ?s"
    using assms(2,3) by (auto simp: same_session_def same_attrs_def same_media_def list_all2_conv_all_nth nth_list_update)
  ultimately show "pjmedia_sdp_session_cmp s ?s 0 = EQUAL" using sdp_cmp_iff assms(1) by simp
qed

theorem media_connection_ignored_witness:
  "pjmedia_sdp_session_cmp sample_session (sample_session\<lparr>s_media := [sample_media\<lparr>m_conn :=
     Some \<lparr>net_type = ''IN'', addr_type = ''IP4'', addr = ''0.0.0.0''\<rparr>\<rparr>]\<rparr>) 0 = EQUAL"
proof -
  have "session_clear sample_session" by code_simp
  then show ?thesis
    using media_connection_ignored[of sample_session 0 _ "\<lparr>net_type = ''IN'', addr_type = ''IP4'', addr = ''0.0.0.0''\<rparr>"]
    by (simp add: sample_session_def sample_media_def)
qed

end
