(* ===== verification/Rtp_Session.thy ===== *)
theory Rtp_Session
  imports Pj_Prelude "HOL-Library.Word"
begin

text \<open>
  The RTP session of the media stream (\<^verbatim>\<open>pjmedia/src/pjmedia/rtp.c\<close>, \<^verbatim>\<open>rtp.h\<close>): the headers of
  outgoing packets, the decoding of incoming ones, and the sequence number control of RFC 3550
  that RTCP shares. Fields keep their width as words. The header fields hold the values in host
  order, which is what the code reads and writes through \<^verbatim>\<open>pj_ntohs\<close> and \<^verbatim>\<open>pj_htons\<close>; the byte layout
  of the packed struct is \<open>hdr_bytes\<close>. The values of \<^verbatim>\<open>pj_rand\<close> are arguments.
\<close>

section \<open>Data\<close>

record pjmedia_rtp_hdr =
  hdr_v :: "2 word"
  hdr_p :: "1 word"
  hdr_x :: "1 word"
  hdr_cc :: "4 word"
  hdr_m :: "1 word"
  hdr_pt :: "7 word"
  hdr_seq :: "16 word"
  hdr_ts :: "32 word"
  hdr_ssrc :: "32 word"

record pjmedia_rtp_seq_session =
  max_seq :: "16 word"
  cycles :: "32 word"
  base_seq :: "32 word"
  bad_seq :: "32 word"
  probation :: "32 word"

record pjmedia_rtp_session =
  out_hdr :: pjmedia_rtp_hdr
  seq_ctrl :: pjmedia_rtp_seq_session
  out_pt :: "16 word"
  out_extseq :: "32 word"
  peer_ssrc :: "32 word"
  received :: "32 word"

record rtp_flags =
  fl_bad :: bool
  fl_badpt :: bool
  fl_badssrc :: bool
  fl_dup :: bool
  fl_outorder :: bool
  fl_probation :: bool
  fl_restart :: bool

record pjmedia_rtp_status =
  st_flag :: rtp_flags
  st_diff :: "16 word"

datatype rtp_error = PJMEDIA_RTP_EINVER | PJMEDIA_RTP_EINLEN

definition RTP_VERSION :: "2 word" where "RTP_VERSION = 2"
definition RTP_SEQ_MOD :: nat where "RTP_SEQ_MOD = 65536"
definition MAX_DROPOUT :: nat where "MAX_DROPOUT = 3000"
definition MAX_MISORDER :: nat where "MAX_MISORDER = 100"
definition MIN_SEQUENTIAL :: nat where "MIN_SEQUENTIAL = 2"

definition no_flags :: rtp_flags where
  "no_flags = \<lparr>fl_bad = False, fl_badpt = False, fl_badssrc = False, fl_dup = False,
     fl_outorder = False, fl_probation = False, fl_restart = False\<rparr>"

section \<open>Sequence number control\<close>

definition pjmedia_rtp_seq_restart :: "pjmedia_rtp_seq_session \<Rightarrow> 16 word \<Rightarrow> pjmedia_rtp_seq_session" where
  "pjmedia_rtp_seq_restart sess seq =
     sess\<lparr>base_seq := ucast seq, max_seq := seq, bad_seq := of_nat (RTP_SEQ_MOD + 1), cycles := 0\<rparr>"

definition pjmedia_rtp_seq_init :: "pjmedia_rtp_seq_session \<Rightarrow> 16 word \<Rightarrow> pjmedia_rtp_seq_session" where
  "pjmedia_rtp_seq_init sess seq =
     (pjmedia_rtp_seq_restart sess seq)\<lparr>max_seq := seq - 1, probation := of_nat MIN_SEQUENTIAL\<rparr>"

text \<open>
  The comparisons are made on promoted integers: \<open>max_seq + 1\<close> does not wrap.
\<close>

definition pjmedia_rtp_seq_update ::
    "pjmedia_rtp_seq_session \<Rightarrow> 16 word \<Rightarrow> pjmedia_rtp_seq_session \<times> pjmedia_rtp_status" where
  "pjmedia_rtp_seq_update sess seq =
     (let udelta = seq - max_seq sess
      in if probation sess \<noteq> 0 then
           if unat seq = unat (max_seq sess) + 1 then
             let sess = sess\<lparr>probation := probation sess - 1, max_seq := seq\<rparr>
             in (sess, \<lparr>st_flag = no_flags\<lparr>fl_probation := (probation sess \<noteq> 0)\<rparr>, st_diff = 1\<rparr>)
           else
             (sess\<lparr>probation := of_nat (MIN_SEQUENTIAL - 1), max_seq := seq\<rparr>,
              \<lparr>st_flag = (if seq = max_seq sess
                          then no_flags\<lparr>fl_probation := True, fl_bad := True, fl_dup := True\<rparr>
                          else no_flags\<lparr>fl_probation := True, fl_bad := True, fl_outorder := True\<rparr>),
               st_diff = 0\<rparr>)
         else if udelta = 0 then (sess, \<lparr>st_flag = no_flags\<lparr>fl_dup := True\<rparr>, st_diff = 0\<rparr>)
         else if unat udelta < MAX_DROPOUT then
           (let sess = (if seq < max_seq sess then sess\<lparr>cycles := cycles sess + of_nat RTP_SEQ_MOD\<rparr> else sess)
            in sess\<lparr>max_seq := seq\<rparr>,
            \<lparr>st_flag = no_flags, st_diff = udelta\<rparr>)
         else if unat udelta \<le> RTP_SEQ_MOD - MAX_MISORDER then
           if ucast seq = bad_seq sess then
             (pjmedia_rtp_seq_restart sess seq,
              \<lparr>st_flag = no_flags\<lparr>fl_restart := True, fl_probation := True\<rparr>, st_diff = 1\<rparr>)
           else
             (sess\<lparr>bad_seq := ucast (seq + 1)\<rparr>,
              \<lparr>st_flag = no_flags\<lparr>fl_bad := True, fl_outorder := True\<rparr>, st_diff = 0\<rparr>)
         else (sess, \<lparr>st_flag = no_flags\<lparr>fl_outorder := True\<rparr>, st_diff = 0\<rparr>))"

section \<open>Session\<close>

definition pjmedia_rtp_session_init ::
    "int \<Rightarrow> 32 word \<Rightarrow> 32 word \<Rightarrow> 32 word \<Rightarrow> pjmedia_rtp_session" where
  "pjmedia_rtp_session_init default_pt sender_ssrc rand_ssrc rand_seq =
     \<lparr>out_hdr = \<lparr>hdr_v = RTP_VERSION, hdr_p = 0, hdr_x = 0, hdr_cc = 0, hdr_m = 0,
        hdr_pt = of_int default_pt, hdr_seq = ucast rand_seq, hdr_ts = 0,
        hdr_ssrc = (if sender_ssrc = 0 \<or> sender_ssrc = -1 then rand_ssrc else sender_ssrc)\<rparr>,
      seq_ctrl = \<lparr>max_seq = 0, cycles = 0, base_seq = 0, bad_seq = 0, probation = 0\<rparr>,
      out_pt = of_int default_pt, out_extseq = rand_seq, peer_ssrc = 0, received = 0\<rparr>"

text \<open>The header is returned only when there is a payload; otherwise it is a clock frame.\<close>

definition pjmedia_rtp_encode_rtp ::
    "pjmedia_rtp_session \<Rightarrow> int \<Rightarrow> int \<Rightarrow> int \<Rightarrow> int \<Rightarrow> pjmedia_rtp_session \<times> pjmedia_rtp_hdr option" where
  "pjmedia_rtp_encode_rtp ses pt m payload_len ts_len =
     (let ses = ses\<lparr>out_hdr := (out_hdr ses)\<lparr>hdr_ts := hdr_ts (out_hdr ses) + of_int ts_len\<rparr>\<rparr>
      in if payload_len = 0 then (ses, None)
         else
           let ses = ses\<lparr>out_extseq := out_extseq ses + 1\<rparr>;
               hdr = (out_hdr ses)\<lparr>hdr_pt := (if pt = -1 then ucast (out_pt ses) else of_int pt),
                                   hdr_m := of_int m, hdr_seq := ucast (out_extseq ses)\<rparr>
           in (ses\<lparr>out_hdr := hdr\<rparr>, Some hdr))"

text \<open>The packed struct \<^verbatim>\<open>pjmedia_rtp_hdr\<close> in memory: twelve bytes, integers in network order.\<close>

definition be16 :: "16 word \<Rightarrow> 8 word list" where
  "be16 w = [of_nat (unat w div 256), of_nat (unat w mod 256)]"

definition be32 :: "32 word \<Rightarrow> 8 word list" where
  "be32 w = [of_nat (unat w div 16777216), of_nat (unat w div 65536 mod 256),
             of_nat (unat w div 256 mod 256), of_nat (unat w mod 256)]"

definition hdr_bytes :: "pjmedia_rtp_hdr \<Rightarrow> 8 word list" where
  "hdr_bytes h =
     [of_nat (unat (hdr_v h) * 64 + unat (hdr_p h) * 32 + unat (hdr_x h) * 16 + unat (hdr_cc h)),
      of_nat (unat (hdr_m h) * 128 + unat (hdr_pt h))] @
     be16 (hdr_seq h) @ be32 (hdr_ts h) @ be32 (hdr_ssrc h)"

definition rd16 :: "8 word list \<Rightarrow> nat \<Rightarrow> 16 word" where
  "rd16 b i = of_nat (unat (b ! i) * 256 + unat (b ! (i + 1)))"

definition rd32 :: "8 word list \<Rightarrow> nat \<Rightarrow> 32 word" where
  "rd32 b i = of_nat (unat (b ! i) * 16777216 + unat (b ! (i + 1)) * 65536 +
                      unat (b ! (i + 2)) * 256 + unat (b ! (i + 3)))"

definition hdr_of_bytes :: "8 word list \<Rightarrow> pjmedia_rtp_hdr" where
  "hdr_of_bytes b =
     \<lparr>hdr_v = of_nat (unat (b ! 0) div 64), hdr_p = of_nat (unat (b ! 0) div 32),
      hdr_x = of_nat (unat (b ! 0) div 16), hdr_cc = of_nat (unat (b ! 0)),
      hdr_m = of_nat (unat (b ! 1) div 128), hdr_pt = of_nat (unat (b ! 1)),
      hdr_seq = rd16 b 2, hdr_ts = rd32 b 4, hdr_ssrc = rd32 b 8\<rparr>"

text \<open>
  Decoding reads the header, and the extension header, wherever they lie in the receive buffer;
  the packet is the first \<open>pkt_len\<close> bytes of the buffer. \<open>None\<close> is a read outside of the buffer.
  The payload is given by its offset and length.
\<close>

definition pjmedia_rtp_decode_rtp ::
    "8 word list \<Rightarrow> int \<Rightarrow> (rtp_error + pjmedia_rtp_hdr \<times> nat \<times> nat) option" where
  "pjmedia_rtp_decode_rtp pkt pkt_len =
     (if length pkt < 12 then None
      else
        let hdr = hdr_of_bytes pkt
        in if hdr_v hdr \<noteq> RTP_VERSION then Some (Inl PJMEDIA_RTP_EINVER)
           else
             let offset = 12 + unat (hdr_cc hdr) * 4
             in if hdr_x hdr \<noteq> 0 \<and> length pkt < offset + 4 then None
                else
                  let offset = (if hdr_x hdr \<noteq> 0 then offset + unat (rd16 pkt (offset + 2)) * 4 else offset)
                  in if int offset \<ge> pkt_len then Some (Inl PJMEDIA_RTP_EINLEN)
                     else Some (Inr (hdr, offset, nat (pkt_len - int offset))))"

definition pjmedia_rtp_session_update ::
    "pjmedia_rtp_session \<Rightarrow> pjmedia_rtp_hdr \<Rightarrow> pjmedia_rtp_status \<Rightarrow>
     pjmedia_rtp_session \<times> pjmedia_rtp_status" where
  "pjmedia_rtp_session_update ses hdr p_seq_st =
     (let ses = (if peer_ssrc ses = 0 then ses\<lparr>peer_ssrc := hdr_ssrc hdr\<rparr> else ses);
          badssrc = (hdr_ssrc hdr \<noteq> peer_ssrc ses);
          seq_st = \<lparr>st_flag = no_flags\<lparr>fl_badssrc := badssrc\<rparr>, st_diff = 0\<rparr>;
          ses = (if badssrc then ses\<lparr>peer_ssrc := hdr_ssrc hdr\<rparr> else ses)
      in if ucast (hdr_pt hdr) \<noteq> out_pt ses then
           (ses, p_seq_st\<lparr>st_flag := (st_flag seq_st)\<lparr>fl_bad := True, fl_badpt := True\<rparr>\<rparr>)
         else
           let ses = (if received ses = 0
                      then ses\<lparr>seq_ctrl := pjmedia_rtp_seq_init (seq_ctrl ses) (hdr_seq hdr)\<rparr> else ses);
               (sc, seq_st) = pjmedia_rtp_seq_update (seq_ctrl ses) (hdr_seq hdr);
               ses = ses\<lparr>seq_ctrl := sc\<rparr>;
               ses = (if fl_restart (st_flag seq_st) then ses\<lparr>received := received ses + 1\<rparr>
                      else if \<not> fl_bad (st_flag seq_st) then ses\<lparr>received := received ses + 1\<rparr>
                      else ses)
           in (ses, seq_st))"

section \<open>Extended sequence numbers\<close>

text \<open>The receiver's view of the sender's sequence number, extended by the counted cycles.\<close>

definition ext_seq :: "pjmedia_rtp_seq_session \<Rightarrow> 32 word" where
  "ext_seq s = cycles s + ucast (max_seq s)"

lemma unat16_less: "unat (w :: 16 word) < 65536"
  using unsigned_less[of w] by simp

lemma unat_ucast_16_32 [simp]: "unat (ucast (w :: 16 word) :: 32 word) = unat w"
proof -
  have "unat w < 2 ^ 32" using unat16_less[of w] by simp
  then show ?thesis by (simp add: unsigned_ucast_eq take_bit_nat_eq_self)
qed

lemma unat_sub16:
  "unat (a - b :: 16 word) = (if unat b \<le> unat a then unat a - unat b else unat a + 65536 - unat b)"
  using unat_sub_if'[of a b] by (simp add: word_le_nat_alt)

lemma ucast_sub_16_32:
  fixes a b :: "16 word"
  shows "(ucast (a - b) :: 32 word) = (if b \<le> a then ucast a - ucast b else ucast a + 65536 - ucast b)"
proof -
  have "(ucast (a - b) :: 32 word) =
      of_nat (if unat b \<le> unat a then unat a - unat b else unat a + 65536 - unat b)"
    by (simp flip: unat_sub16)
  also have "\<dots> = (if b \<le> a then ucast a - ucast b else ucast a + 65536 - ucast b)"
    using of_nat_diff[of "unat b" "unat a + 65536", where 'a = "32 word"] unat16_less[of b]
    by (auto simp: word_le_nat_alt of_nat_diff)
  finally show ?thesis .
qed

lemma seq_update_in_order:
  assumes "probation s = 0" "seq \<noteq> max_seq s" "unat (seq - max_seq s) < MAX_DROPOUT"
  shows "fst (pjmedia_rtp_seq_update s seq) =
      (if seq < max_seq s then s\<lparr>cycles := cycles s + 65536, max_seq := seq\<rparr> else s\<lparr>max_seq := seq\<rparr>)"
    "snd (pjmedia_rtp_seq_update s seq) = \<lparr>st_flag = no_flags, st_diff = seq - max_seq s\<rparr>"
    "ext_seq (fst (pjmedia_rtp_seq_update s seq)) = ext_seq s + ucast (seq - max_seq s)"
proof -
  show f: "fst (pjmedia_rtp_seq_update s seq) =
      (if seq < max_seq s then s\<lparr>cycles := cycles s + 65536, max_seq := seq\<rparr> else s\<lparr>max_seq := seq\<rparr>)"
    using assms by (simp add: pjmedia_rtp_seq_update_def RTP_SEQ_MOD_def)
  show "snd (pjmedia_rtp_seq_update s seq) = \<lparr>st_flag = no_flags, st_diff = seq - max_seq s\<rparr>"
    using assms by (simp add: pjmedia_rtp_seq_update_def)
  show "ext_seq (fst (pjmedia_rtp_seq_update s seq)) = ext_seq s + ucast (seq - max_seq s)"
    unfolding f by (auto simp: ext_seq_def ucast_sub_16_32)
qed

text \<open>Feeding a list of sequence numbers, collecting the statuses.\<close>

fun seq_updates :: "pjmedia_rtp_seq_session \<Rightarrow> 16 word list \<Rightarrow> pjmedia_rtp_seq_session \<times> pjmedia_rtp_status list" where
  "seq_updates s [] = (s, [])"
| "seq_updates s (q # qs) =
     (let (s, st) = pjmedia_rtp_seq_update s q; (s, sts) = seq_updates s qs in (s, st # sts))"

definition clean_status :: "16 word \<Rightarrow> pjmedia_rtp_status" where
  "clean_status d = \<lparr>st_flag = no_flags, st_diff = d\<rparr>"

lemma ucast_one_16_32 [simp]: "(ucast (1 :: 16 word) :: 32 word) = 1"
  by simp

lemma seq_update_next:
  assumes "probation s = 0"
  shows "snd (pjmedia_rtp_seq_update s (max_seq s + 1)) = clean_status 1"
    "ext_seq (fst (pjmedia_rtp_seq_update s (max_seq s + 1))) = ext_seq s + 1"
    "max_seq (fst (pjmedia_rtp_seq_update s (max_seq s + 1))) = max_seq s + 1"
    "probation (fst (pjmedia_rtp_seq_update s (max_seq s + 1))) = 0"
  using seq_update_in_order[OF assms, of "max_seq s + 1"] assms
  by (simp_all add: MAX_DROPOUT_def clean_status_def)

section \<open>Properties of the sequence number control\<close>

text \<open>
  A valid source: any number of consecutive packets, across the wrap-around of the 16-bit
  number, is reported without flags and with a difference of one, and the extended sequence number
  advances by exactly the number of packets.
\<close>

theorem rtp_consecutive_packets:
  assumes "probation s = 0"
  shows "snd (seq_updates s (map (\<lambda>i. max_seq s + 1 + of_nat i) [0..<n])) = replicate n (clean_status 1) \<and>
    ext_seq (fst (seq_updates s (map (\<lambda>i. max_seq s + 1 + of_nat i) [0..<n]))) = ext_seq s + of_nat n"
  using assms
proof (induction n arbitrary: s)
  case (Suc n)
  let ?s = "fst (pjmedia_rtp_seq_update s (max_seq s + 1))"
  have l: "map (\<lambda>i. max_seq s + 1 + of_nat i) [0..<Suc n] =
      (max_seq s + 1) # map (\<lambda>i. max_seq ?s + 1 + of_nat i) [0..<n]"
    by (simp add: seq_update_next(3)[OF Suc.prems] upt_conv_Cons flip: map_Suc_upt del: upt_Suc)
  show ?case unfolding l
    using Suc.IH[OF seq_update_next(4)[OF Suc.prems]] seq_update_next(1,2)[OF Suc.prems]
    by (simp add: case_prod_beta Let_def)
qed simp

theorem rtp_consecutive_packets_witness:
  "ext_seq (fst (seq_updates \<lparr>max_seq = 65530, cycles = 0, base_seq = 0, bad_seq = 0, probation = 0\<rparr>
     (map (\<lambda>i. 65531 + of_nat i) [0..<20]))) = 65550"
  using rtp_consecutive_packets[of "\<lparr>max_seq = 65530, cycles = 0, base_seq = 0, bad_seq = 0, probation = 0\<rparr>" 20]
  by (simp add: ext_seq_def)

text \<open>
  A packet that is at most 2999 ahead of the highest one is accepted: the difference is the
  number of packets it is ahead, and the extended sequence number grows by it, counting a cycle
  when the 16-bit number wraps.
\<close>

theorem rtp_gap_accepted:
  assumes "probation s = 0" "0 < d" "d < 3000"
  shows "snd (pjmedia_rtp_seq_update s (max_seq s + of_nat d)) = clean_status (of_nat d) \<and>
    ext_seq (fst (pjmedia_rtp_seq_update s (max_seq s + of_nat d))) = ext_seq s + of_nat d \<and>
    max_seq (fst (pjmedia_rtp_seq_update s (max_seq s + of_nat d))) = max_seq s + of_nat d"
proof -
  have u: "unat (of_nat d :: 16 word) = d" using assms by (simp add: unat_of_nat take_bit_nat_eq_self)
  then have "(of_nat d :: 16 word) \<noteq> 0" using assms(2) by auto
  moreover have "(ucast (of_nat d :: 16 word) :: 32 word) = of_nat d"
    using u by (metis of_nat_unat)
  ultimately show ?thesis
    using seq_update_in_order[OF assms(1), of "max_seq s + of_nat d"] assms u
    by (simp add: MAX_DROPOUT_def clean_status_def)
qed

theorem rtp_gap_accepted_witness:
  "snd (pjmedia_rtp_seq_update \<lparr>max_seq = 65535, cycles = 0, base_seq = 0, bad_seq = 0, probation = 0\<rparr> (65535 + 5)) =
   clean_status 5"
  using rtp_gap_accepted[of "\<lparr>max_seq = 65535, cycles = 0, base_seq = 0, bad_seq = 0, probation = 0\<rparr>" 5]
  by simp

text \<open>
  A duplicate, or a packet at most 99 behind, never changes the sequence state and is not
  marked bad; it is marked as duplicate or out of order and its difference is zero.
\<close>

theorem rtp_late_packet_harmless:
  assumes "probation s = 0" "d < 100"
  shows "fst (pjmedia_rtp_seq_update s (max_seq s - of_nat d)) = s \<and>
    (let st = snd (pjmedia_rtp_seq_update s (max_seq s - of_nat d))
     in \<not> fl_bad (st_flag st) \<and> st_diff st = 0 \<and> (fl_dup (st_flag st) \<longleftrightarrow> d = 0) \<and>
        (fl_outorder (st_flag st) \<longleftrightarrow> d \<noteq> 0))"
proof (cases "d = 0")
  case True
  then show ?thesis using assms by (simp add: pjmedia_rtp_seq_update_def no_flags_def)
next
  case False
  have u: "unat (of_nat d :: 16 word) = d" using assms by (simp add: unat_of_nat take_bit_nat_eq_self)
  have "unat (0 - (of_nat d :: 16 word)) = 65536 - d"
    using unat_sub16[of 0 "of_nat d"] u False by simp
  then have m: "unat (- (of_nat d :: 16 word)) = 65536 - d" by simp
  then have "- (of_nat d :: 16 word) \<noteq> 0" using assms(2) by auto
  then show ?thesis using assms False m
    by (simp add: pjmedia_rtp_seq_update_def no_flags_def Let_def MAX_DROPOUT_def MAX_MISORDER_def RTP_SEQ_MOD_def)
qed

theorem rtp_late_packet_harmless_witness:
  "fst (pjmedia_rtp_seq_update \<lparr>max_seq = 3, cycles = 65536, base_seq = 0, bad_seq = 0, probation = 0\<rparr> (- 6)) =
   \<lparr>max_seq = 3, cycles = 65536, base_seq = 0, bad_seq = 0, probation = 0\<rparr>"
  using rtp_late_packet_harmless[of "\<lparr>max_seq = 3, cycles = 65536, base_seq = 0, bad_seq = 0, probation = 0\<rparr>" 9]
  by simp

text \<open>
  After a jump beyond the permissible gap the first packet is marked bad and leaves the
  extended sequence number alone; if the next packet follows it directly and is itself a jump, the
  receiver restarts at that packet, otherwise than on a single stray packet.
\<close>

theorem rtp_restart_after_two:
  assumes "probation s = 0" "3000 \<le> unat (seq - max_seq s)" "unat (seq - max_seq s) < 65436"
    "bad_seq s \<noteq> ucast seq"
  shows "let (s1, st1) = pjmedia_rtp_seq_update s seq; (s2, st2) = pjmedia_rtp_seq_update s1 (seq + 1)
     in ext_seq s1 = ext_seq s \<and> fl_bad (st_flag st1) \<and> \<not> fl_restart (st_flag st1) \<and>
        ext_seq s2 = ucast (seq + 1) \<and> base_seq s2 = ucast (seq + 1) \<and> fl_restart (st_flag st2) \<and>
        \<not> fl_bad (st_flag st2) \<and> st_diff st2 = 1"
proof -
  have ne: "seq \<noteq> max_seq s" using assms(2) by auto
  have u1: "unat (seq + 1 - max_seq s) = unat (seq - max_seq s) + 1"
  proof -
    have "unat (seq - max_seq s + 1) = unat (seq - max_seq s) + 1"
      using assms(3) by (intro unat_word_ariths(1)[THEN trans]) simp
    then show ?thesis by (simp add: algebra_simps)
  qed
  have ne1: "seq + 1 \<noteq> max_seq s" using u1 by auto
  have s1: "pjmedia_rtp_seq_update s seq =
      (s\<lparr>bad_seq := ucast (seq + 1)\<rparr>, \<lparr>st_flag = no_flags\<lparr>fl_bad := True, fl_outorder := True\<rparr>, st_diff = 0\<rparr>)"
    using assms ne
    by (auto simp: pjmedia_rtp_seq_update_def MAX_DROPOUT_def MAX_MISORDER_def RTP_SEQ_MOD_def Let_def)
  have s2: "pjmedia_rtp_seq_update (s\<lparr>bad_seq := ucast (seq + 1)\<rparr>) (seq + 1) =
      (pjmedia_rtp_seq_restart (s\<lparr>bad_seq := ucast (seq + 1)\<rparr>) (seq + 1),
       \<lparr>st_flag = no_flags\<lparr>fl_restart := True, fl_probation := True\<rparr>, st_diff = 1\<rparr>)"
    using assms ne1 u1
    by (auto simp: pjmedia_rtp_seq_update_def MAX_DROPOUT_def MAX_MISORDER_def RTP_SEQ_MOD_def Let_def)
  show ?thesis unfolding s1 s2 Let_def prod.case
    by (simp add: s2 ext_seq_def pjmedia_rtp_seq_restart_def no_flags_def)
qed

theorem rtp_restart_after_two_witness:
  "fl_restart (st_flag (snd (pjmedia_rtp_seq_update
     (fst (pjmedia_rtp_seq_update \<lparr>max_seq = 3, cycles = 0, base_seq = 0, bad_seq = 0, probation = 0\<rparr> 40000)) 40001)))"
  using rtp_restart_after_two[of "\<lparr>max_seq = 3, cycles = 0, base_seq = 0, bad_seq = 0, probation = 0\<rparr>" 40000]
  by (simp add: case_prod_beta Let_def)

text \<open>
  The probation of a new source: two packets with consecutive numbers make it valid, the first
  one still marked as probation.
\<close>

theorem rtp_probation_two_packets:
  assumes "seq \<noteq> 0" "seq \<noteq> - 1"
  shows "let (s1, st1) = pjmedia_rtp_seq_update (pjmedia_rtp_seq_init s seq) seq;
             (s2, st2) = pjmedia_rtp_seq_update s1 (seq + 1)
     in \<not> fl_bad (st_flag st1) \<and> fl_probation (st_flag st1) \<and> st2 = clean_status 1 \<and>
        probation s2 = 0 \<and> ext_seq s2 = ucast (seq + 1) \<and> base_seq s2 = ucast seq"
proof -
  have u: "unat seq = unat (seq - 1) + 1" using assms(1) by (simp add: unat_minus_one unat_gt_0)
  have v: "unat (seq + 1) = unat seq + 1" 
    using assms(2) unatSuc[of seq] by (metis Suc_eq_plus1 add.commute eq_neg_iff_add_eq_0)
  show ?thesis using u v
    by (simp add: pjmedia_rtp_seq_init_def pjmedia_rtp_seq_restart_def pjmedia_rtp_seq_update_def Let_def
        MIN_SEQUENTIAL_def clean_status_def no_flags_def ext_seq_def)
qed

theorem rtp_probation_two_packets_witness:
  "probation (fst (pjmedia_rtp_seq_update (fst (pjmedia_rtp_seq_update (pjmedia_rtp_seq_init
     \<lparr>max_seq = 0, cycles = 0, base_seq = 0, bad_seq = 0, probation = 0\<rparr> 7) 7)) 8)) = 0"
  using rtp_probation_two_packets[of 7 "\<lparr>max_seq = 0, cycles = 0, base_seq = 0, bad_seq = 0, probation = 0\<rparr>"]
  by (simp add: case_prod_beta Let_def)

text \<open>
  A source whose first packet has the sequence number zero: the initialisation sets the
  highest number to 65535, the comparison with \<open>max_seq + 1\<close> is made on promoted integers, and the
  very packet that initialised the control is marked bad and out of order.
\<close>

theorem rtp_first_packet_zero_bad:
  "let st = snd (pjmedia_rtp_seq_update (pjmedia_rtp_seq_init s 0) 0)
   in fl_bad (st_flag st) \<and> fl_outorder (st_flag st) \<and> st_diff st = 0"
  by (simp add: pjmedia_rtp_seq_init_def pjmedia_rtp_seq_restart_def pjmedia_rtp_seq_update_def Let_def
        MIN_SEQUENTIAL_def no_flags_def)

section \<open>Headers on the wire\<close>

lemma unat_of_nat_small: "n < 2 ^ LENGTH('a) \<Longrightarrow> unat (of_nat n :: 'a::len word) = n"
  by (simp add: unat_of_nat take_bit_nat_eq_self)

lemma unat_bounds:
  "unat (v :: 2 word) < 4" "unat (b :: 1 word) < 2" "unat (c :: 4 word) < 16" "unat (t :: 7 word) < 128"
  "unat (q :: 16 word) < 65536" "unat (d :: 32 word) < 4294967296" "unat (y :: 8 word) < 256"
  using unsigned_less[where 'a = nat, of v] unsigned_less[where 'a = nat, of b]
    unsigned_less[where 'a = nat, of c] unsigned_less[where 'a = nat, of t]
    unsigned_less[where 'a = nat, of q] unsigned_less[where 'a = nat, of d]
    unsigned_less[where 'a = nat, of y] by simp_all

lemma of_nat_mod_unat: "n mod 2 ^ LENGTH('a) = unat w \<Longrightarrow> of_nat n = (w :: 'a::len word)"
  by (metis take_bit_eq_mod unat_of_nat word_unat_eq_iff)

lemma rd16_be16: "rd16 (be16 w @ bs) 0 = w"
proof -
  have "unat w div 256 < 2 ^ LENGTH(8)" "unat w mod 256 < 2 ^ LENGTH(8)"
    using unat_bounds(5)[of w] by (auto simp: div_less_iff_less_mult)
  then show ?thesis
    unfolding rd16_def be16_def by (simp add: unat_of_nat_small del: of_nat_add of_nat_mult)
qed

lemma rd32_be32: "rd32 (be32 w @ bs) 0 = w"
proof -
  let ?n = "unat w"
  have n: "?n < 4294967296" by (rule unat_bounds)
  have b: "?n div 16777216 < 2 ^ LENGTH(8)" "?n div 65536 mod 256 < 2 ^ LENGTH(8)"
    "?n div 256 mod 256 < 2 ^ LENGTH(8)" "?n mod 256 < 2 ^ LENGTH(8)"
    using n by (auto simp: div_less_iff_less_mult)
  have "?n = ?n div 16777216 * 16777216 + ?n div 65536 mod 256 * 65536 + ?n div 256 mod 256 * 256 + ?n mod 256"
  proof -
    have "?n div 65536 = ?n div 256 div 256" "?n div 16777216 = ?n div 65536 div 256"
      by (simp_all flip: div_mult2_eq)
    then show ?thesis
      using div_mult_mod_eq[of ?n 256] div_mult_mod_eq[of "?n div 256" 256]
        div_mult_mod_eq[of "?n div 65536" 256] by linarith
  qed
  then have "of_nat (?n div 16777216 * 16777216 + ?n div 65536 mod 256 * 65536 +
      ?n div 256 mod 256 * 256 + ?n mod 256) = w" by (metis of_nat_unat ucast_id)
  then show ?thesis unfolding rd32_def be32_def
    by (simp only: append.simps nth_Cons_0 add_0 nth_Cons_Suc numeral_eq_Suc[of "num.One"]
        One_nat_def unat_of_nat_small[OF b(1)] unat_of_nat_small[OF b(2)]
        unat_of_nat_small[OF b(3)] unat_of_nat_small[OF b(4)] numeral_2_eq_2 numeral_3_eq_3)
qed

lemma rd_drop: "i \<le> length b \<Longrightarrow> i + 1 < length b \<Longrightarrow> rd16 b i = rd16 (drop i b) 0"
  "i + 3 < length b \<Longrightarrow> rd32 b i = rd32 (drop i b) 0"
  by (simp_all add: rd16_def rd32_def)

lemma length_be [simp]: "length (be16 s) = 2" "length (be32 t) = 4"
  by (simp_all add: be16_def be32_def)

lemma length_hdr_bytes [simp]: "length (hdr_bytes h) = 12"
  by (simp add: hdr_bytes_def)

lemma div_mult_add: "r < k \<Longrightarrow> (q * k + r) div k = q" for q k r :: nat
  by simp

lemma first_byte:
  fixes v :: "2 word" and p x :: "1 word" and c :: "4 word"
  defines "n \<equiv> unat v * 64 + unat p * 32 + unat x * 16 + unat c"
  shows "unat (of_nat n :: 8 word) = n" "of_nat (n div 64) = v" "of_nat (n div 32) = p"
    "of_nat (n div 16) = x" "of_nat n = c"
proof -
  note b = unat_bounds(1)[of v] unat_bounds(2)[of p] unat_bounds(2)[of x] unat_bounds(3)[of c]
  show "unat (of_nat n :: 8 word) = n" using b by (intro unat_of_nat_small) (simp add: n_def)
  have d64: "n div 64 = unat v"
    using b div_mult_add[of "unat p * 32 + unat x * 16 + unat c" 64 "unat v"] by (simp add: n_def)
  have d32: "n div 32 = unat v * 2 + unat p"
    using b div_mult_add[of "unat x * 16 + unat c" 32 "unat v * 2 + unat p"] by (simp add: n_def)
  have d16: "n div 16 = (unat v * 2 + unat p) * 2 + unat x"
    using b div_mult_add[of "unat c" 16 "(unat v * 2 + unat p) * 2 + unat x"] by (simp add: n_def)
  have m16: "n mod 16 = unat c"
    using b mod_mult_self3[of "(unat v * 2 + unat p) * 2 + unat x" 16 "unat c"]
    by (simp add: n_def mult.commute)
  have m2: "n div 64 mod 4 = unat v" "n div 32 mod 2 = unat p" "n div 16 mod 2 = unat x"
    unfolding d64 d32 d16 using b by (simp_all only: mod_mult_self3 mod_less)
  show "of_nat (n div 64) = v" "of_nat (n div 32) = p" "of_nat (n div 16) = x" "of_nat n = c"
    by (rule of_nat_mod_unat, use m2 m16 in simp)+
qed

lemma second_byte:
  fixes m :: "1 word" and t :: "7 word"
  defines "n \<equiv> unat m * 128 + unat t"
  shows "unat (of_nat n :: 8 word) = n" "of_nat (n div 128) = m" "of_nat n = t"
proof -
  note b = unat_bounds(2)[of m] unat_bounds(4)[of t]
  show "unat (of_nat n :: 8 word) = n" using b by (intro unat_of_nat_small) (simp add: n_def)
  have "n div 128 = unat m" "n mod 128 = unat t" using b by (simp_all add: n_def)
  then show "of_nat (n div 128) = m" "of_nat n = t"
    by (auto intro!: of_nat_mod_unat simp: b)
qed

lemma hdr_of_hdr_bytes: "hdr_of_bytes (hdr_bytes h @ bs) = h"
proof -
  let ?b = "hdr_bytes h @ bs"
  obtain x y where xy: "hdr_bytes h = x # y # be16 (hdr_seq h) @ be32 (hdr_ts h) @ be32 (hdr_ssrc h)"
    "x = of_nat (unat (hdr_v h) * 64 + unat (hdr_p h) * 32 + unat (hdr_x h) * 16 + unat (hdr_cc h))"
    "y = of_nat (unat (hdr_m h) * 128 + unat (hdr_pt h))"
    unfolding hdr_bytes_def append.simps by blast
  have d: "drop 2 ?b = be16 (hdr_seq h) @ be32 (hdr_ts h) @ be32 (hdr_ssrc h) @ bs"
    "drop 4 ?b = be32 (hdr_ts h) @ be32 (hdr_ssrc h) @ bs" "drop 8 ?b = be32 (hdr_ssrc h) @ bs"
    by (simp_all add: xy(1))
  have r: "rd16 ?b 2 = hdr_seq h" "rd32 ?b 4 = hdr_ts h" "rd32 ?b 8 = hdr_ssrc h"
    using rd_drop(1)[of 2 ?b] rd_drop(2)[of 4 ?b] rd_drop(2)[of 8 ?b]
    by (simp_all only: d rd16_be16 rd32_be32 length_append length_hdr_bytes)
  have z: "?b ! 0 = x" "?b ! 1 = y" by (simp_all add: xy(1))
  show ?thesis unfolding hdr_of_bytes_def r z xy(2,3) first_byte second_byte by simp
qed

section \<open>Properties of packets and sessions\<close>

text \<open>
  C31. Encoding and decoding agree: a packet made of the bytes of a header with version 2, no
  contributing sources and no extension, as the session builds it, and a payload that is not empty
  decodes to that header and exactly that payload.
\<close>

theorem rtp_decode_encoded:
  assumes "hdr_v h = RTP_VERSION" "hdr_cc h = 0" "hdr_x h = 0" "payload \<noteq> []"
  shows "pjmedia_rtp_decode_rtp (hdr_bytes h @ payload) (int (length (hdr_bytes h @ payload))) =
           Some (Inr (h, 12, length payload)) \<and>
         drop 12 (hdr_bytes h @ payload) = payload"
  using assms by (simp add: pjmedia_rtp_decode_rtp_def hdr_of_hdr_bytes Let_def)

theorem rtp_decode_encoded_witness:
  "pjmedia_rtp_decode_rtp (hdr_bytes (out_hdr (pjmedia_rtp_session_init 8 5 0 100)) @ [1, 2, 3]) 15 =
     Some (Inr (out_hdr (pjmedia_rtp_session_init 8 5 0 100), 12, 3))"
  using rtp_decode_encoded[of "out_hdr (pjmedia_rtp_session_init 8 5 0 100)" "[1, 2, 3]"]
  by (simp add: pjmedia_rtp_session_init_def)

text \<open>
  Decoding never reads beyond a receive buffer of at least 76 bytes (the largest fixed header,
  contributing sources and extension header), and a payload it reports is not empty and lies
  inside the packet.
\<close>

theorem rtp_decode_in_bounds:
  assumes "76 \<le> length pkt"
  shows "\<exists>r. pjmedia_rtp_decode_rtp pkt pkt_len = Some r \<and>
     (\<forall>hdr off len. r = Inr (hdr, off, len) \<longrightarrow>
        hdr = hdr_of_bytes pkt \<and> 12 \<le> off \<and> 0 < len \<and> int (off + len) = pkt_len)"
proof -
  have "unat (hdr_cc (hdr_of_bytes pkt)) < 16" by (rule unat_bounds)
  then show ?thesis using assms by (auto simp: pjmedia_rtp_decode_rtp_def Let_def)
qed

theorem rtp_decode_in_bounds_witness:
  "\<exists>r. pjmedia_rtp_decode_rtp (replicate 76 144) 20 = Some r"
  using rtp_decode_in_bounds[of "replicate 76 144" 20] by auto

text \<open>
  With a header extension of length \<open>n\<close> the payload is reported to start \<open>n\<close> words after the
  contributing sources: the four bytes of the extension header itself, which precede those words,
  are not skipped, so that the payload begins with bytes of the extension.
\<close>

theorem rtp_extension_header_not_skipped:
  assumes "12 \<le> length pkt" "hdr_of_bytes pkt = h" "hdr_v h = RTP_VERSION" "hdr_x h \<noteq> 0"
    "off = 12 + unat (hdr_cc h) * 4" "off + 4 \<le> length pkt" "unat (rd16 pkt (off + 2)) = n"
    "int (off + n * 4) < pkt_len"
  shows "pjmedia_rtp_decode_rtp pkt pkt_len = Some (Inr (h, off + n * 4, nat (pkt_len - int (off + n * 4))))"
  using assms by (auto simp: pjmedia_rtp_decode_rtp_def Let_def)

theorem rtp_extension_header_not_skipped_witness:
  "pjmedia_rtp_decode_rtp (replicate 16 144) 100000000 =
     Some (Inr (hdr_of_bytes (replicate 16 144), 12 + 37008 * 4, nat (100000000 - int (12 + 37008 * 4))))"
proof -
  have r: "replicate 16 (144 :: 8 word) ! i = 144" if "i < 16" for i using that by simp
  have h: "hdr_v (hdr_of_bytes (replicate 16 144)) = RTP_VERSION" "hdr_x (hdr_of_bytes (replicate 16 144)) \<noteq> 0"
    "hdr_cc (hdr_of_bytes (replicate 16 144)) = 0"
    by (simp_all add: hdr_of_bytes_def r RTP_VERSION_def)
  have "unat (rd16 (replicate 16 144) (12 + 2)) = 37008" by (simp add: rd16_def r)
  from rtp_extension_header_not_skipped[OF _ refl h(1,2) _ _ this, of 100000000] h(3) show ?thesis by simp
qed

text \<open>A sequence of packets sent, and received.\<close>

fun send_all :: "pjmedia_rtp_session \<Rightarrow> int list \<Rightarrow> pjmedia_rtp_session \<times> pjmedia_rtp_hdr list" where
  "send_all ses [] = (ses, [])"
| "send_all ses (t # ts) =
     (case pjmedia_rtp_encode_rtp ses (-1) 0 160 t of
        (ses, None) \<Rightarrow> send_all ses ts
      | (ses, Some h) \<Rightarrow> let (ses, hs) = send_all ses ts in (ses, h # hs))"

fun receive_all ::
    "pjmedia_rtp_session \<Rightarrow> pjmedia_rtp_hdr list \<Rightarrow> pjmedia_rtp_session \<times> pjmedia_rtp_status list" where
  "receive_all ses [] = (ses, [])"
| "receive_all ses (h # hs) =
     (let (ses, st) = pjmedia_rtp_session_update ses h (clean_status 0); (ses, sts) = receive_all ses hs
      in (ses, st # sts))"

definition in_sync :: "pjmedia_rtp_session \<Rightarrow> pjmedia_rtp_session \<Rightarrow> bool" where
  "in_sync snd_ses rcv \<longleftrightarrow>
     hdr_ssrc (out_hdr snd_ses) = peer_ssrc rcv \<and> peer_ssrc rcv \<noteq> 0 \<and>
     out_pt rcv = out_pt snd_ses \<and> unat (out_pt snd_ses) < 128 \<and> probation (seq_ctrl rcv) = 0 \<and>
     max_seq (seq_ctrl rcv) = ucast (out_extseq snd_ses)"

lemma ucast_plus_one: "ucast (w + 1 :: 32 word) = (ucast w + 1 :: 16 word)"
proof (transfer, simp add: take_bit_eq_mod mod_mod_cancel)
  fix w :: int
  show "(w + 1) mod 65536 = (w mod 4294967296 + 1) mod 65536"
    using mod_add_left_eq[of "w mod 4294967296" 65536 1] mod_add_left_eq[of w 65536 1]
    by (simp add: mod_mod_cancel)
qed

lemma ucast_pt: "unat (w :: 16 word) < 128 \<Longrightarrow> ucast (ucast w :: 7 word) = w"
  by (simp add: word_unat_eq_iff unsigned_ucast_eq unsigned_take_bit_eq take_bit_nat_eq_self)

lemma encode_packet:
  assumes "payload_len \<noteq> 0"
  shows "\<exists>ses' h. pjmedia_rtp_encode_rtp ses (-1) 0 payload_len t = (ses', Some h) \<and> out_hdr ses' = h \<and>
     out_extseq ses' = out_extseq ses + 1 \<and> out_pt ses' = out_pt ses \<and>
     hdr_seq h = ucast (out_extseq ses') \<and> hdr_ssrc h = hdr_ssrc (out_hdr ses) \<and>
     hdr_ts h = hdr_ts (out_hdr ses) + of_int t \<and> hdr_pt h = ucast (out_pt ses)"
  using assms by (simp add: pjmedia_rtp_encode_rtp_def Let_def)

lemma receive_next:
  assumes "peer_ssrc rcv \<noteq> 0" "hdr_ssrc h = peer_ssrc rcv" "ucast (hdr_pt h) = out_pt rcv" "received rcv \<noteq> 0"
    "probation (seq_ctrl rcv) = 0" "hdr_seq h = max_seq (seq_ctrl rcv) + 1"
  shows "\<exists>rcv'. pjmedia_rtp_session_update rcv h st = (rcv', clean_status 1) \<and> peer_ssrc rcv' = peer_ssrc rcv \<and>
     out_pt rcv' = out_pt rcv \<and> received rcv' = received rcv + 1 \<and>
     probation (seq_ctrl rcv') = 0 \<and> max_seq (seq_ctrl rcv') = hdr_seq h \<and>
     ext_seq (seq_ctrl rcv') = ext_seq (seq_ctrl rcv) + 1"
  using assms seq_update_next[OF assms(5)]
  by (auto simp: pjmedia_rtp_session_update_def Let_def case_prod_beta clean_status_def no_flags_def prod_eq_iff)

text \<open>
  C30. The packets of a sender reach a receiver in order: for any list of payload durations, a
  receiver that is synchronised with the sender (same payload type, same source, highest sequence
  number equal to the last one sent) reports every packet the session encodes without flags and
  with difference one, and stays synchronised.
\<close>

theorem rtp_sender_receiver_in_sync:
  assumes "in_sync s r" "unat (received r) + length ts < 2 ^ 32" "received r \<noteq> 0"
  shows "snd (receive_all r (snd (send_all s ts))) = replicate (length ts) (clean_status 1) \<and>
     in_sync (fst (send_all s ts)) (fst (receive_all r (snd (send_all s ts)))) \<and>
     received (fst (receive_all r (snd (send_all s ts)))) = received r + of_nat (length ts)"
  using assms
proof (induction ts arbitrary: s r)
  case (Cons t ts)
  obtain s' h where e: "pjmedia_rtp_encode_rtp s (-1) 0 160 t = (s', Some h)" "out_hdr s' = h"
    "out_extseq s' = out_extseq s + 1" "out_pt s' = out_pt s" "hdr_seq h = ucast (out_extseq s')"
    "hdr_ssrc h = hdr_ssrc (out_hdr s)" "hdr_pt h = ucast (out_pt s)"
    using encode_packet[of 160 s t] by auto
  have q: "hdr_seq h = max_seq (seq_ctrl r) + 1"
    using Cons.prems(1) e(3,5) by (simp add: in_sync_def ucast_plus_one)
  obtain r' where r: "pjmedia_rtp_session_update r h (clean_status 0) = (r', clean_status 1)"
    "peer_ssrc r' = peer_ssrc r" "out_pt r' = out_pt r" "received r' = received r + 1"
    "probation (seq_ctrl r') = 0" "max_seq (seq_ctrl r') = hdr_seq h"
    "ext_seq (seq_ctrl r') = ext_seq (seq_ctrl r) + 1"
    using receive_next[of r h "clean_status 0"] Cons.prems q e by (auto simp: in_sync_def ucast_pt)
  have sync: "in_sync s' r'" using Cons.prems(1) e r by (simp add: in_sync_def)
  have u: "unat (received r + 1) = unat (received r) + 1"
    using Cons.prems(2) by (simp add: unat_word_ariths)
  have "snd (send_all s (t # ts)) = h # snd (send_all s' ts)" "fst (send_all s (t # ts)) = fst (send_all s' ts)"
    by (simp_all add: e case_prod_beta Let_def)
  moreover have "received r' \<noteq> 0" using r(4) u by auto
  ultimately show ?case
    using Cons.IH[OF sync] Cons.prems(2) r u by (simp add: case_prod_beta Let_def)
qed simp

theorem rtp_sender_receiver_in_sync_witness:
  "snd (receive_all
     ((pjmedia_rtp_session_init 8 9 0 0)\<lparr>peer_ssrc := 5, received := 3,
        seq_ctrl := \<lparr>max_seq = 65535, cycles = 0, base_seq = 65000, bad_seq = 0, probation = 0\<rparr>\<rparr>)
     (snd (send_all (pjmedia_rtp_session_init 8 5 0 65535) [160, 160]))) = [clean_status 1, clean_status 1]"
proof -
  let ?s = "pjmedia_rtp_session_init 8 5 0 65535"
  let ?r = "(pjmedia_rtp_session_init 8 9 0 0)\<lparr>peer_ssrc := 5, received := 3,
        seq_ctrl := \<lparr>max_seq = 65535, cycles = 0, base_seq = 65000, bad_seq = 0, probation = 0\<rparr>\<rparr>"
  have "in_sync ?s ?r" by (simp add: in_sync_def pjmedia_rtp_session_init_def)
  from rtp_sender_receiver_in_sync[OF this, of "[160, 160]"]
  have "snd (receive_all ?r (snd (send_all ?s [160, 160]))) = replicate (length [160, 160 :: int]) (clean_status 1)"
    by (simp del: send_all.simps receive_all.simps)
  also have "\<dots> = [clean_status 1, clean_status 1]" by simp
  finally show ?thesis .
qed

text \<open>
  A change of the synchronisation source: it is recorded, but the flag \<open>badssrc\<close> is set only
  when the payload type is wrong too; for a packet with the expected payload type the status of the
  sequence number control replaces it.
\<close>

theorem rtp_badssrc_lost:
  "fl_badssrc (st_flag (snd (pjmedia_rtp_session_update ses hdr st))) \<longleftrightarrow>
     peer_ssrc ses \<noteq> 0 \<and> hdr_ssrc hdr \<noteq> peer_ssrc ses \<and> ucast (hdr_pt hdr) \<noteq> out_pt ses"
proof -
  have "\<not> fl_badssrc (st_flag (snd (pjmedia_rtp_seq_update s q)))" for s q
    by (simp add: pjmedia_rtp_seq_update_def Let_def no_flags_def)
  then show ?thesis
    by (auto simp: pjmedia_rtp_session_update_def Let_def case_prod_beta no_flags_def)
qed

end
