(* ===== verification/Rtcp_Session.thy ===== *)
theory Rtcp_Session
  imports Complex_Main Rtp_Session Pj_Time "HOL-Library.Monad_Syntax"
begin

unbundle bit_operations_syntax

text \<open>
  The RTCP session of a media stream, \<^verbatim>\<open>pjmedia/src/pjmedia/rtcp.c\<close> with \<^verbatim>\<open>rtcp.h\<close>: statistics of received and
  sent packets, sender and receiver reports, the NTP clock and the round trip time. Integers keep their widths; the
  signed differences of the jitter computation wrap like the unsigned ones. The values of \<^verbatim>\<open>pj_get_timestamp\<close> and
  \<^verbatim>\<open>pj_gettimeofday\<close> are arguments, one for each call. The average jitter is a \<^verbatim>\<open>double\<close>: the exact result of each
  operation is rounded by the argument \<open>rnd\<close>. \<open>None\<close> is a division by zero or a read outside of the receive buffer.
  The packet is kept with its fields in host order; \<open>rtcp_pkt_bytes\<close> is its layout. The correction for the
  performance counter of Windows is not part of the model.
\<close>

section \<open>Data\<close>

record stat_history =
  h_count :: "32 word"
  h_min :: "32 word"
  h_avg :: "32 word"
  h_max :: "32 word"
  h_last :: "32 word"

record rtcp_stream_stat =
  ss_update :: pj_time_val
  ss_update_cnt :: "32 word"
  ss_pkt :: "32 word"
  ss_bytes :: "32 word"
  ss_discard :: "32 word"
  ss_loss :: "32 word"
  ss_reorder :: "32 word"
  ss_dup :: "32 word"
  ss_loss_period :: stat_history
  ss_jitter :: stat_history

record rtcp_stat =
  stat_start :: pj_time_val
  stat_tx :: rtcp_stream_stat
  stat_rx :: rtcp_stream_stat
  rtt_min :: "32 word"
  rtt_avg :: "32 word"
  rtt_max :: "32 word"
  rtt_last :: "32 word"
  rtt_update_cnt :: "32 word"

record rtcp_pkt =
  pk_version :: "2 word"
  pk_p :: "1 word"
  pk_count :: "5 word"
  pk_pt :: "8 word"
  pk_length :: "16 word"
  sr_ssrc :: "32 word"
  sr_ntp_sec :: "32 word"
  sr_ntp_frac :: "32 word"
  sr_rtp_ts :: "32 word"
  sr_sender_pcount :: "32 word"
  sr_sender_bcount :: "32 word"
  rr_ssrc :: "32 word"
  rr_fract_lost :: "8 word"
  rr_total_lost_2 :: "8 word"
  rr_total_lost_1 :: "8 word"
  rr_total_lost_0 :: "8 word"
  rr_last_seq :: "32 word"
  rr_jitter :: "32 word"
  rr_lsr :: "32 word"
  rr_dlsr :: "32 word"

record rtcp_session =
  rc_pkt :: rtcp_pkt
  rc_seq_ctrl :: pjmedia_rtp_seq_session
  rc_rtp_last_ts :: "32 word"
  rc_clock_rate :: "32 word"
  rc_pkt_size :: "32 word"
  rc_received :: "32 word"
  rc_exp_prior :: "32 word"
  rc_rx_prior :: "32 word"
  rc_transit :: "32 word"
  rc_jitter :: "32 word"
  rc_tv_base :: pj_time_val
  rc_ts_base :: "64 word"
  rc_ts_freq :: "64 word"
  rc_rx_lsr :: "32 word"
  rc_rx_lsr_time :: "64 word"
  rc_peer_ssrc :: "32 word"
  rc_stat :: rtcp_stat
  rc_avg_jitter :: rat

definition RTCP_SR :: "8 word" where "RTCP_SR = 200"
definition RTCP_RR :: "8 word" where "RTCP_RR = 201"
definition JAN_1970 :: "32 word" where "JAN_1970 = 2208988800"
definition PJMEDIA_RTCP_IGNORE_FIRST_PACKETS :: "32 word" where "PJMEDIA_RTCP_IGNORE_FIRST_PACKETS = 25"

definition udiv :: "'a::len word \<Rightarrow> 'a word \<Rightarrow> 'a word option" where
  "udiv a b = (if b = 0 then None else Some (a div b))"

text \<open>Updates of the two directions of the statistics, and of their histories.\<close>

abbreviation upd_rx :: "(rtcp_stream_stat \<Rightarrow> rtcp_stream_stat) \<Rightarrow> rtcp_session \<Rightarrow> rtcp_session" where
  "upd_rx f sess \<equiv> sess\<lparr>rc_stat := (rc_stat sess)\<lparr>stat_rx := f (stat_rx (rc_stat sess))\<rparr>\<rparr>"

abbreviation upd_tx :: "(rtcp_stream_stat \<Rightarrow> rtcp_stream_stat) \<Rightarrow> rtcp_session \<Rightarrow> rtcp_session" where
  "upd_tx f sess \<equiv> sess\<lparr>rc_stat := (rc_stat sess)\<lparr>stat_tx := f (stat_tx (rc_stat sess))\<rparr>\<rparr>"

abbreviation rx :: "rtcp_session \<Rightarrow> rtcp_stream_stat" where "rx sess \<equiv> stat_rx (rc_stat sess)"
abbreviation tx :: "rtcp_session \<Rightarrow> rtcp_stream_stat" where "tx sess \<equiv> stat_tx (rc_stat sess)"

section \<open>Clock and creation\<close>

definition pjmedia_rtcp_get_ntp_time :: "rtcp_session \<Rightarrow> 64 word \<Rightarrow> (32 word \<times> 32 word) option" where
  "pjmedia_rtcp_get_ntp_time sess ts = do {
     secs \<leftarrow> udiv (ts - rc_ts_base sess) (rc_ts_freq sess);
     let hi = ucast secs + of_int (sec (rc_tv_base sess)) + JAN_1970;
     frac \<leftarrow> udiv (push_bit 32 (ts mod rc_ts_freq sess)) (rc_ts_freq sess);
     Some (hi, ucast frac)
   }"

definition zero_history :: stat_history where
  "zero_history = \<lparr>h_count = 0, h_min = 0, h_avg = 0, h_max = 0, h_last = 0\<rparr>"

definition zero_stream_stat :: rtcp_stream_stat where
  "zero_stream_stat = \<lparr>ss_update = TimeVal 0 0, ss_update_cnt = 0, ss_pkt = 0, ss_bytes = 0, ss_discard = 0,
     ss_loss = 0, ss_reorder = 0, ss_dup = 0, ss_loss_period = zero_history, ss_jitter = zero_history\<rparr>"

definition pjmedia_rtcp_init ::
    "32 word \<Rightarrow> 32 word \<Rightarrow> 32 word \<Rightarrow> pj_time_val \<Rightarrow> 64 word \<Rightarrow> 64 word \<Rightarrow> rtcp_session" where
  "pjmedia_rtcp_init clock_rate samples_per_frame ssrc now ts freq =
     \<lparr>rc_pkt = \<lparr>pk_version = 2, pk_p = 0, pk_count = 1, pk_pt = RTCP_SR, pk_length = 12, sr_ssrc = ssrc,
        sr_ntp_sec = 0, sr_ntp_frac = 0, sr_rtp_ts = 0, sr_sender_pcount = 0, sr_sender_bcount = 0, rr_ssrc = 0,
        rr_fract_lost = 0, rr_total_lost_2 = 0, rr_total_lost_1 = 0, rr_total_lost_0 = 0, rr_last_seq = 0,
        rr_jitter = 0, rr_lsr = 0, rr_dlsr = 0\<rparr>,
      rc_seq_ctrl = \<lparr>max_seq = 0, cycles = 0, base_seq = 0, bad_seq = 0, probation = 0\<rparr>,
      rc_rtp_last_ts = - 1, rc_clock_rate = clock_rate, rc_pkt_size = samples_per_frame, rc_received = 0,
      rc_exp_prior = 0, rc_rx_prior = 0, rc_transit = 0, rc_jitter = 0, rc_tv_base = now, rc_ts_base = ts,
      rc_ts_freq = freq, rc_rx_lsr = 0, rc_rx_lsr_time = 0, rc_peer_ssrc = 0,
      rc_stat = \<lparr>stat_start = now, stat_tx = zero_stream_stat, stat_rx = zero_stream_stat, rtt_min = 0, rtt_avg = 0,
        rtt_max = 0, rtt_last = 0, rtt_update_cnt = 0\<rparr>,
      rc_avg_jitter = 0\<rparr>"

section \<open>Received and sent RTP packets\<close>

definition rtcp_init_seq :: "rtcp_session \<Rightarrow> rtcp_session" where
  "rtcp_init_seq sess =
     sess\<lparr>rc_received := 0, rc_exp_prior := 0, rc_rx_prior := 0, rc_transit := 0, rc_jitter := 0\<rparr>"

text \<open>The loss of \<open>diff - 1\<close> packets before the one that arrived.\<close>

definition rx_loss_history :: "stat_history \<Rightarrow> 32 word \<Rightarrow> stat_history option" where
  "rx_loss_history h period = do {
     let h = (if h_count h = 0 \<or> period < h_min h then h\<lparr>h_min := period\<rparr> else h);
     let h = (if period > h_max h then h\<lparr>h_max := period\<rparr> else h);
     avg \<leftarrow> udiv (h_avg h * h_count h + period) (h_count h + 1);
     Some (h\<lparr>h_avg := avg, h_last := period, h_count := h_count h + 1\<rparr>)
   }"

definition rx_loss_period :: "rtcp_session \<Rightarrow> 16 word \<Rightarrow> rtcp_session option" where
  "rx_loss_period sess diff = do {
     let count = ucast diff - 1;
     period \<leftarrow> udiv (count * rc_pkt_size sess * 1000) (rc_clock_rate sess);
     let period = period * 1000;
     let sess = upd_rx (\<lambda>s. s\<lparr>ss_loss := ss_loss s + (ucast diff - 1)\<rparr>) sess;
     h \<leftarrow> rx_loss_history (ss_loss_period (rx sess)) period;
     Some (upd_rx (\<lambda>s. s\<lparr>ss_loss_period := h\<rparr>) sess)
   }"

text \<open>A difference in samples, converted to microseconds; \<open>small\<close> tells which product does not overflow.\<close>

definition jitter_usec :: "bool \<Rightarrow> 32 word \<Rightarrow> 32 word \<Rightarrow> 32 word option" where
  "jitter_usec small d rate =
     (if small then udiv (d * 1000000) rate
      else map_option (\<lambda>j. j * 1000) (udiv (d * 1000) rate))"

definition rx_jitter_history :: "stat_history \<Rightarrow> 32 word \<Rightarrow> rat \<Rightarrow> stat_history" where
  "rx_jitter_history h jitter avg =
     (let h = h\<lparr>h_avg := of_int \<lfloor>avg\<rfloor>, h_count := h_count h + 1\<rparr>;
          h = (if jitter < h_min h then h\<lparr>h_min := jitter\<rparr> else h);
          h = (if jitter > h_max h then h\<lparr>h_max := jitter\<rparr> else h)
      in h\<lparr>h_last := jitter\<rparr>)"

definition rx_jitter :: "(rat \<Rightarrow> rat) \<Rightarrow> rtcp_session \<Rightarrow> 32 word \<Rightarrow> 64 word \<Rightarrow> rtcp_session option" where
  "rx_jitter rnd sess rtp_ts ts = do {
     samples \<leftarrow> udiv (ts * ucast (rc_clock_rate sess)) (rc_ts_freq sess);
     let arrival = (ucast samples :: 32 word);
     let transit = arrival - rtp_ts;
     if rc_transit sess = 0 \<or> rc_received sess < PJMEDIA_RTCP_IGNORE_FIRST_PACKETS then
       Some (upd_rx (\<lambda>s. s\<lparr>ss_jitter := (ss_jitter s)\<lparr>h_min := 2000\<rparr>\<rparr>) (sess\<lparr>rc_transit := transit\<rparr>))
     else do {
       let d = transit - rc_transit sess;
       let d = (if d <s 0 then - d else d);
       let sess = sess\<lparr>rc_transit := transit, rc_jitter := rc_jitter sess + (d - drop_bit 4 (rc_jitter sess + 8))\<rparr>;
       jitter \<leftarrow> jitter_usec (d <s 4294) d (rc_clock_rate sess);
       let h = ss_jitter (rx sess);
       let avg = rnd (rnd (of_nat (unat jitter) + rnd (rc_avg_jitter sess * of_nat (unat (h_count h)))) /
                      of_nat (unat (h_count h + 1)));
       Some (upd_rx (\<lambda>s. s\<lparr>ss_jitter := rx_jitter_history h jitter avg\<rparr>) (sess\<lparr>rc_avg_jitter := avg\<rparr>))
     }
   }"

definition pjmedia_rtcp_rx_rtp ::
    "(rat \<Rightarrow> rat) \<Rightarrow> rtcp_session \<Rightarrow> 32 word \<Rightarrow> 32 word \<Rightarrow> 32 word \<Rightarrow> 64 word \<Rightarrow> rtcp_session option" where
  "pjmedia_rtcp_rx_rtp rnd sess seq rtp_ts payload ts =
     (let sess = (if ss_pkt (rx sess) = 0
                  then sess\<lparr>rc_seq_ctrl := pjmedia_rtp_seq_init (rc_seq_ctrl sess) (ucast seq)\<rparr> else sess);
          sess = upd_rx (\<lambda>s. s\<lparr>ss_pkt := ss_pkt s + 1, ss_bytes := ss_bytes s + payload\<rparr>) sess;
          (sc, seq_st) = pjmedia_rtp_seq_update (rc_seq_ctrl sess) (ucast seq);
          sess = sess\<lparr>rc_seq_ctrl := sc\<rparr>;
          sess = (if fl_restart (st_flag seq_st) then rtcp_init_seq sess else sess);
          sess = (if fl_dup (st_flag seq_st) then upd_rx (\<lambda>s. s\<lparr>ss_dup := ss_dup s + 1\<rparr>) sess else sess);
          sess = (if fl_outorder (st_flag seq_st) \<and> \<not> fl_probation (st_flag seq_st)
                  then upd_rx (\<lambda>s. s\<lparr>ss_reorder := ss_reorder s + 1\<rparr>) sess else sess)
      in if fl_bad (st_flag seq_st) then Some (upd_rx (\<lambda>s. s\<lparr>ss_discard := ss_discard s + 1\<rparr>) sess)
         else do {
           let sess = sess\<lparr>rc_received := rc_received sess + 1\<rparr>;
           sess \<leftarrow> (if st_diff seq_st > 1 then rx_loss_period sess (st_diff seq_st) else Some sess);
           sess \<leftarrow> (if st_diff seq_st = 1 \<and> rtp_ts \<noteq> rc_rtp_last_ts sess then rx_jitter rnd sess rtp_ts ts
                    else Some sess);
           Some (sess\<lparr>rc_rtp_last_ts := rtp_ts\<rparr>)
         })"

definition pjmedia_rtcp_tx_rtp :: "rtcp_session \<Rightarrow> 32 word \<Rightarrow> rtcp_session" where
  "pjmedia_rtcp_tx_rtp sess bytes_payload_size =
     upd_tx (\<lambda>s. s\<lparr>ss_pkt := ss_pkt s + 1, ss_bytes := ss_bytes s + bytes_payload_size\<rparr>) sess"

section \<open>Received reports\<close>

definition rx_lsr_of :: "32 word \<Rightarrow> 32 word \<Rightarrow> 32 word" where
  "rx_lsr_of ntp_sec ntp_frac = push_bit 16 (ntp_sec AND 0x0000FFFF) OR (drop_bit 16 ntp_frac AND 0xFFFF)"

definition tx_loss_history :: "stat_history \<Rightarrow> 32 word \<Rightarrow> 32 word \<Rightarrow> stat_history option" where
  "tx_loss_history h update_cnt period = do {
     let h = (if update_cnt = 0 \<or> h_min h = 0 then h\<lparr>h_min := period\<rparr> else h);
     let h = (if period < h_min h then h\<lparr>h_min := period\<rparr> else h);
     let h = (if period > h_max h then h\<lparr>h_max := period\<rparr> else h);
     avg \<leftarrow> udiv (h_avg h * update_cnt + period) (update_cnt + 1);
     Some (h\<lparr>h_avg := avg, h_last := period\<rparr>)
   }"

definition rx_tx_loss :: "rtcp_session \<Rightarrow> 32 word \<Rightarrow> rtcp_session option" where
  "rx_tx_loss sess new_loss = (
     let last_loss = ss_loss (tx sess);
         sess = upd_tx (\<lambda>s. s\<lparr>ss_loss := new_loss\<rparr>) sess
     in if ss_loss (tx sess) > last_loss then do {
          period \<leftarrow> udiv ((ss_loss (tx sess) - last_loss) * rc_pkt_size sess * 1000) (rc_clock_rate sess);
          let period = period * 1000;
          h \<leftarrow> tx_loss_history (ss_loss_period (tx sess)) (ss_update_cnt (tx sess)) period;
          Some (upd_tx (\<lambda>s. s\<lparr>ss_loss_period := h\<rparr>) sess)
        }
        else Some sess)"

definition tx_jitter_history :: "stat_history \<Rightarrow> 32 word \<Rightarrow> stat_history option" where
  "tx_jitter_history h jitter = do {
     let h = (if h_count h = 0 then h\<lparr>h_min := jitter\<rparr> else h);
     let h = (if jitter < h_min h \<and> jitter \<noteq> 0 then h\<lparr>h_min := jitter\<rparr> else h);
     let h = (if jitter > h_max h then h\<lparr>h_max := jitter\<rparr> else h);
     avg \<leftarrow> udiv (h_avg h * h_count h + jitter) (h_count h + 1);
     Some (h\<lparr>h_avg := avg, h_count := h_count h + 1, h_last := jitter\<rparr>)
   }"

definition rx_tx_jitter :: "rtcp_session \<Rightarrow> 32 word \<Rightarrow> rtcp_session option" where
  "rx_tx_jitter sess jitter_samp = do {
     jitter \<leftarrow> jitter_usec (jitter_samp \<le> 4294) jitter_samp (rc_clock_rate sess);
     h \<leftarrow> tx_jitter_history (ss_jitter (tx sess)) jitter;
     Some (upd_tx (\<lambda>s. s\<lparr>ss_jitter := h\<rparr>) sess)
   }"

definition eedelay_usec :: "64 word \<Rightarrow> 64 word" where
  "eedelay_usec eedelay =
     (if eedelay < 4294 then drop_bit 16 (eedelay * 1000000) else drop_bit 16 (eedelay * 1000) * 1000)"

text \<open>The middle 32 bits of the NTP time: seconds in units of 1/65536.\<close>

definition ntp_middle :: "32 word \<Rightarrow> 32 word \<Rightarrow> 32 word" where
  "ntp_middle hi lo = push_bit 16 (hi AND 0xFFFF) + drop_bit 16 lo"

definition update_rtt :: "rtcp_stat \<Rightarrow> 32 word \<Rightarrow> rtcp_stat option" where
  "update_rtt st rtt = do {
     let st = (if rtt_update_cnt st = 0 then st\<lparr>rtt_min := rtt\<rparr> else st);
     let rtt = (if rtt > rtt_avg st * 3 \<and> rtt_update_cnt st \<noteq> 0 then rtt_avg st * 3 else rtt);
     let st = (if rtt < rtt_min st \<and> rtt \<noteq> 0 then st\<lparr>rtt_min := rtt\<rparr> else st);
     let st = (if rtt > rtt_max st then st\<lparr>rtt_max := rtt\<rparr> else st);
     avg \<leftarrow> udiv (rtt_avg st * rtt_update_cnt st + rtt) (rtt_update_cnt st + 1);
     Some (st\<lparr>rtt_avg := avg, rtt_last := rtt, rtt_update_cnt := rtt_update_cnt st + 1\<rparr>)
   }"

definition rx_rtt :: "rtcp_session \<Rightarrow> 32 word \<Rightarrow> 32 word \<Rightarrow> 64 word \<Rightarrow> rtcp_session option" where
  "rx_rtt sess lsr dlsr ts =
     (if lsr \<noteq> 0 \<and> dlsr \<noteq> 0 then do {
        (hi, lo) \<leftarrow> pjmedia_rtcp_get_ntp_time sess ts;
        let now = ntp_middle hi lo;
        let eedelay = eedelay_usec (ucast (now - lsr - dlsr));
        if now - dlsr \<ge> lsr then
          if eedelay > 30000000 then Some sess
          else map_option (\<lambda>st. sess\<lparr>rc_stat := st\<rparr>) (update_rtt (rc_stat sess) (ucast eedelay))
        else Some sess
      }
      else Some sess)"

text \<open>
  \<open>buf\<close> is the memory from the start of the packet on, of which \<open>len\<close> bytes were received. \<open>ts1\<close> and \<open>ts2\<close> are the
  timestamps of the arrival and of the round trip computation, \<open>tod\<close> the time of day.
\<close>

definition report_offset :: "8 word list \<Rightarrow> nat \<Rightarrow> nat option" where
  "report_offset buf len =
     (let pt = buf ! 1; count = buf ! 0 AND 31
      in if pt = RTCP_SR then (if count > 0 \<and> len \<ge> 52 then Some 28 else None)
         else if pt = RTCP_RR \<and> count > 0 then Some 8 else None)"

definition pjmedia_rtcp_rx_rtcp ::
    "rtcp_session \<Rightarrow> 8 word list \<Rightarrow> nat \<Rightarrow> 64 word \<Rightarrow> 64 word \<Rightarrow> pj_time_val \<Rightarrow> rtcp_session option" where
  "pjmedia_rtcp_rx_rtcp sess buf len ts1 ts2 tod =
     (if length buf < 4 then None
      else do {
        sess \<leftarrow> (if buf ! 1 = RTCP_SR then
                   if length buf < 16 then None
                   else Some (sess\<lparr>rc_rx_lsr := rx_lsr_of (rd32 buf 8) (rd32 buf 12), rc_rx_lsr_time := ts1\<rparr>)
                 else Some sess);
        case report_offset buf len of
          None \<Rightarrow> Some sess
        | Some rr \<Rightarrow>
            if length buf < rr + 24 then None
            else do {
              sess \<leftarrow> rx_tx_loss sess (push_bit 16 (ucast (buf ! (rr + 5))) + push_bit 8 (ucast (buf ! (rr + 6))) +
                                       ucast (buf ! (rr + 7)));
              sess \<leftarrow> rx_tx_jitter sess (rd32 buf (rr + 12));
              sess \<leftarrow> rx_rtt sess (rd32 buf (rr + 16)) (rd32 buf (rr + 20)) ts2;
              Some (upd_tx (\<lambda>s. s\<lparr>ss_update := tod, ss_update_cnt := ss_update_cnt s + 1\<rparr>) sess)
            }
      })"

section \<open>Sent reports\<close>

text \<open>The fraction of packets lost since the previous report, with the counters of the interval reset.\<close>

definition fraction_lost :: "rtcp_session \<Rightarrow> 32 word \<Rightarrow> 8 word \<times> rtcp_session" where
  "fraction_lost sess expected =
     (let expected_interval = expected - rc_exp_prior sess;
          received_interval = rc_received sess - rc_rx_prior sess;
          lost_interval = expected_interval - received_interval
      in (if expected_interval = 0 \<or> lost_interval = 0 then 0
          else ucast (push_bit 8 lost_interval div expected_interval),
          sess\<lparr>rc_exp_prior := expected, rc_rx_prior := rc_received sess\<rparr>))"

definition report_lsr :: "rtcp_session \<Rightarrow> 64 word \<Rightarrow> (32 word \<times> 32 word) option" where
  "report_lsr sess ts_now =
     (if rc_rx_lsr_time sess = 0 \<or> rc_rx_lsr sess = 0 then Some (0, 0)
      else do {
        lsr_time \<leftarrow> udiv (push_bit 16 (rc_rx_lsr_time sess)) (rc_ts_freq sess);
        now \<leftarrow> udiv (push_bit 16 ts_now) (rc_ts_freq sess);
        Some (rc_rx_lsr sess, ucast (now - lsr_time))
      })"

definition pjmedia_rtcp_build_rtcp ::
    "rtcp_session \<Rightarrow> 64 word \<Rightarrow> 64 word \<Rightarrow> pj_time_val \<Rightarrow> (rtcp_session \<times> rtcp_pkt) option" where
  "pjmedia_rtcp_build_rtcp sess ts1 ts2 tod = (
     let last_seq = (cycles (rc_seq_ctrl sess) AND 0xFFFF0000) + ucast (max_seq (rc_seq_ctrl sess));
         loss = ss_loss (rx sess);
         p = (rc_pkt sess)\<lparr>sr_sender_pcount := ss_pkt (tx sess), sr_sender_bcount := ss_bytes (tx sess),
               rr_ssrc := rc_peer_ssrc sess, rr_last_seq := last_seq, rr_jitter := drop_bit 4 (rc_jitter sess),
               rr_total_lost_2 := ucast (drop_bit 16 loss), rr_total_lost_1 := ucast (drop_bit 8 loss),
               rr_total_lost_0 := ucast loss\<rparr>;
         expected = last_seq - base_seq (rc_seq_ctrl sess);
         (fract, sess) = fraction_lost sess expected;
         p = p\<lparr>rr_fract_lost := fract\<rparr>
     in do {
       (hi, lo) \<leftarrow> pjmedia_rtcp_get_ntp_time sess ts2;
       let p = p\<lparr>sr_ntp_sec := hi, sr_ntp_frac := lo\<rparr>;
       (lsr, dlsr) \<leftarrow> report_lsr sess ts1;
       let p = p\<lparr>rr_lsr := lsr, rr_dlsr := dlsr\<rparr>;
       let sess = upd_rx (\<lambda>s. s\<lparr>ss_update := tod, ss_update_cnt := ss_update_cnt s + 1\<rparr>) (sess\<lparr>rc_pkt := p\<rparr>);
       Some (sess, p)
     })"

text \<open>The packed struct \<^verbatim>\<open>pjmedia_rtcp_pkt\<close> in memory: 52 bytes.\<close>

definition rtcp_pkt_bytes :: "rtcp_pkt \<Rightarrow> 8 word list" where
  "rtcp_pkt_bytes p =
     [of_nat (unat (pk_version p) * 64 + unat (pk_p p) * 32 + unat (pk_count p)), pk_pt p] @ be16 (pk_length p) @
     be32 (sr_ssrc p) @ be32 (sr_ntp_sec p) @ be32 (sr_ntp_frac p) @ be32 (sr_rtp_ts p) @
     be32 (sr_sender_pcount p) @ be32 (sr_sender_bcount p) @
     be32 (rr_ssrc p) @ [rr_fract_lost p, rr_total_lost_2 p, rr_total_lost_1 p, rr_total_lost_0 p] @
     be32 (rr_last_seq p) @ be32 (rr_jitter p) @ be32 (rr_lsr p) @ be32 (rr_dlsr p)"

end
