(* ===== verification/Rtcp_Reports.thy ===== *)
theory Rtcp_Reports
  imports Rtcp_Session
begin

text \<open>
  What the RTCP session guarantees: the NTP clock, reports on the wire and at the peer, the round trip time, the
  accounting of received packets; and where the first report, the clock and the size of a packet go wrong.
\<close>

unbundle bit_operations_syntax

section \<open>The NTP clock\<close>

lemma unat_less_64: "unat (w :: 64 word) < 2 ^ 64"
  using unsigned_less[of w] by simp

lemma unat_less_32: "unat (w :: 32 word) < 2 ^ 32"
  using unsigned_less[of w] by simp

lemma unat_of_nat_less: "n < 2 ^ LENGTH('a) \<Longrightarrow> unat (of_nat n :: 'a::len word) = n"
  by (simp add: unat_of_nat take_bit_nat_eq_self)

lemma push_bit_unat:
  "unat (t :: 64 word) * 2 ^ n < 2 ^ 64 \<Longrightarrow> unat (push_bit n t) = unat t * 2 ^ n"
  unfolding unsigned_push_bit_eq by (simp add: push_bit_eq_mult take_bit_nat_eq_self)

lemma ucast_64_32: "(ucast (t :: 64 word) :: 32 word) = of_nat (unat t)"
  by simp

lemma low_half: "(x :: 32 word) AND 0xFFFF = take_bit 16 x"
proof -
  have "(0xFFFF :: 32 word) = mask 16" by (simp add: mask_eq_exp_minus_1)
  then show ?thesis by (simp add: take_bit_eq_mask)
qed


lemma rx_lsr_middle: "rx_lsr_of hi lo = ntp_middle hi lo"
proof -
  have "take_bit 16 (drop_bit 16 lo) = drop_bit 16 lo"
    by (rule bit_word_eqI) (auto simp: bit_simps dest: bit_imp_le_length)
  moreover have "push_bit 16 (take_bit 16 hi) + drop_bit 16 lo = push_bit 16 (take_bit 16 hi) OR drop_bit 16 lo"
    by (rule disjunctive_add) (auto simp: bit_simps dest: bit_imp_le_length)
  ultimately show ?thesis unfolding rx_lsr_of_def ntp_middle_def low_half by simp
qed





section \<open>Reports on the wire\<close>

definition report_header :: "rtcp_pkt \<Rightarrow> bool" where
  "report_header p \<longleftrightarrow> pk_version p = 2 \<and> pk_p p = 0 \<and> pk_count p = 1 \<and> pk_pt p = RTCP_SR"

lemma length_rtcp_pkt_bytes [simp]: "length (rtcp_pkt_bytes p) = 52"
  by (simp add: rtcp_pkt_bytes_def)

lemma rtcp_pkt_words:
  fixes p :: rtcp_pkt and bs :: "8 word list"
  defines "b \<equiv> rtcp_pkt_bytes p @ bs"
  shows "rd32 b 8 = sr_ntp_sec p" "rd32 b 12 = sr_ntp_frac p" "rd32 b 40 = rr_jitter p" "rd32 b 44 = rr_lsr p"
    "rd32 b 48 = rr_dlsr p"
proof -
  have l: "length b = 52 + length bs" by (simp add: b_def)
  have d: "drop 8 b = be32 (sr_ntp_sec p) @ drop 12 b" "drop 12 b = be32 (sr_ntp_frac p) @ drop 16 b"
    "drop 40 b = be32 (rr_jitter p) @ drop 44 b" "drop 44 b = be32 (rr_lsr p) @ drop 48 b"
    "drop 48 b = be32 (rr_dlsr p) @ drop 52 b"
    by (simp_all add: b_def rtcp_pkt_bytes_def)
  have R: "rd32 b i = w" if "drop i b = be32 w @ xs" "i + 3 < length b" for i w xs
    using that rd_drop(2)[of i b] by (simp only: rd32_be32)
  show "rd32 b 8 = sr_ntp_sec p" "rd32 b 12 = sr_ntp_frac p" "rd32 b 40 = rr_jitter p" "rd32 b 44 = rr_lsr p"
    "rd32 b 48 = rr_dlsr p"
    by (rule R[OF d(1)] R[OF d(2)] R[OF d(3)] R[OF d(4)] R[OF d(5)], simp add: l)+
qed

lemma rtcp_pkt_octets:
  assumes "report_header p"
  shows "(rtcp_pkt_bytes p @ bs) ! 0 = 129" "(rtcp_pkt_bytes p @ bs) ! 1 = RTCP_SR"
    "(rtcp_pkt_bytes p @ bs) ! 33 = rr_total_lost_2 p" "(rtcp_pkt_bytes p @ bs) ! 34 = rr_total_lost_1 p"
    "(rtcp_pkt_bytes p @ bs) ! 35 = rr_total_lost_0 p"
  using assms by (simp_all add: rtcp_pkt_bytes_def report_header_def be16_def be32_def)

definition lost_total :: "rtcp_pkt \<Rightarrow> 32 word" where
  "lost_total p = push_bit 16 (ucast (rr_total_lost_2 p)) + push_bit 8 (ucast (rr_total_lost_1 p)) +
     ucast (rr_total_lost_0 p)"

lemma rx_report:
  assumes "report_header p"
  shows "pjmedia_rtcp_rx_rtcp s (rtcp_pkt_bytes p @ bs) 52 ts1 ts2 tod = do {
     s \<leftarrow> rx_tx_loss (s\<lparr>rc_rx_lsr := ntp_middle (sr_ntp_sec p) (sr_ntp_frac p), rc_rx_lsr_time := ts1\<rparr>) (lost_total p);
     s \<leftarrow> rx_tx_jitter s (rr_jitter p);
     s \<leftarrow> rx_rtt s (rr_lsr p) (rr_dlsr p) ts2;
     Some (upd_tx (\<lambda>t. t\<lparr>ss_update := tod, ss_update_cnt := ss_update_cnt t + 1\<rparr>) s)
   }"
proof -
  have "report_offset (rtcp_pkt_bytes p @ bs) 52 = Some 28"
    unfolding report_offset_def Let_def rtcp_pkt_octets[OF assms] by simp
  then show ?thesis
    by (simp add: pjmedia_rtcp_rx_rtcp_def rtcp_pkt_octets[OF assms] rtcp_pkt_words rx_lsr_middle lost_total_def
        del: One_nat_def)
qed

lemma lost_total_split: "push_bit 16 (ucast (ucast (drop_bit 16 l) :: 8 word)) + push_bit 8 (ucast (ucast (drop_bit 8 l) :: 8 word)) +
   ucast (ucast l :: 8 word) = take_bit 24 (l :: 32 word)"
proof -
  let ?b = "\<lambda>n. ucast (ucast (drop_bit n l) :: 8 word) :: 32 word"
  have "push_bit 16 (?b 16) + push_bit 8 (?b 8) = push_bit 16 (?b 16) OR push_bit 8 (?b 8)"
    by (rule disjunctive_add) (auto simp: bit_simps)
  moreover have "(push_bit 16 (?b 16) OR push_bit 8 (?b 8)) + ?b 0 = push_bit 16 (?b 16) OR push_bit 8 (?b 8) OR ?b 0"
    by (subst disjunctive_add) (auto simp: bit_simps or.assoc)
  moreover have "push_bit 16 (?b 16) OR push_bit 8 (?b 8) OR ?b 0 = take_bit 24 l"
  proof (rule bit_word_eqI)
    fix n :: nat
    consider "n < 8" | "8 \<le> n" "n < 16" | "16 \<le> n" "n < 24" | "24 \<le> n" by linarith
    then show "bit (push_bit 16 (?b 16) OR push_bit 8 (?b 8) OR ?b 0) n = bit (take_bit 24 l) n"
      by cases (auto simp: bit_simps)
  qed
  ultimately show ?thesis by simp
qed

text \<open>What a session that is in use has: clocks that run and counters that have not reached their end.\<close>

definition session_usable :: "rtcp_session \<Rightarrow> bool" where
  "session_usable s \<longleftrightarrow> rc_clock_rate s \<noteq> 0 \<and> rc_ts_freq s \<noteq> 0 \<and> ss_update_cnt (tx s) + 1 \<noteq> 0 \<and>
     h_count (ss_jitter (tx s)) + 1 \<noteq> 0 \<and> rtt_update_cnt (rc_stat s) + 1 \<noteq> 0 \<and> report_header (rc_pkt s)"

definition usec_of :: "32 word \<Rightarrow> 32 word \<Rightarrow> 32 word" where
  "usec_of samples rate =
     (if samples \<le> 4294 then samples * 1000000 div rate else samples * 1000 div rate * 1000)"

lemma tx_loss_history_returns: "cnt + 1 \<noteq> 0 \<Longrightarrow> tx_loss_history h cnt period \<noteq> None"
  by (simp add: tx_loss_history_def udiv_def Let_def)

lemma tx_jitter_history_eq:
  "h_count h + 1 \<noteq> 0 \<Longrightarrow> tx_jitter_history h j \<noteq> None \<and> h_last (the (tx_jitter_history h j)) = j"
  by (simp add: tx_jitter_history_def udiv_def Let_def)

lemma rx_tx_loss_eq:
  assumes "session_usable s"
  shows "\<exists>h :: stat_history. rx_tx_loss s l = Some (upd_tx (\<lambda>t. t\<lparr>ss_loss := l, ss_loss_period := h\<rparr>) s)"
proof (cases "ss_loss (tx s) < l")
  case True
  let ?p = "(l - ss_loss (tx s)) * rc_pkt_size s * 1000 div rc_clock_rate s * 1000"
  obtain h where "tx_loss_history (ss_loss_period (tx s)) (ss_update_cnt (tx s)) ?p = Some h"
    using assms tx_loss_history_returns by (fastforce simp: session_usable_def)
  then have "rx_tx_loss s l = Some (upd_tx (\<lambda>t. t\<lparr>ss_loss := l, ss_loss_period := h\<rparr>) s)"
    using True assms by (simp add: rx_tx_loss_def session_usable_def udiv_def Let_def)
  then show ?thesis by (rule exI)
next
  case False
  then have "rx_tx_loss s l = Some (upd_tx (\<lambda>t. t\<lparr>ss_loss := l, ss_loss_period := ss_loss_period (tx s)\<rparr>) s)"
    by (simp add: rx_tx_loss_def Let_def)
  then show ?thesis by (rule exI)
qed

lemma rx_tx_jitter_eq:
  assumes "session_usable s"
  shows "\<exists>h :: stat_history. rx_tx_jitter s j = Some (upd_tx (\<lambda>t. t\<lparr>ss_jitter := h\<rparr>) s) \<and>
    h_last h = usec_of j (rc_clock_rate s)"
proof -
  let ?h = "tx_jitter_history (ss_jitter (tx s)) (usec_of j (rc_clock_rate s))"
  have u: "jitter_usec (j \<le> 4294) j (rc_clock_rate s) = Some (usec_of j (rc_clock_rate s))"
    using assms by (simp add: jitter_usec_def usec_of_def udiv_def session_usable_def)
  obtain h where h: "?h = Some h" "h_last h = usec_of j (rc_clock_rate s)"
    using assms tx_jitter_history_eq[of "ss_jitter (tx s)" "usec_of j (rc_clock_rate s)"]
    by (cases ?h) (auto simp: session_usable_def)
  then have "rx_tx_jitter s j = Some (upd_tx (\<lambda>t. t\<lparr>ss_jitter := h\<rparr>) s)"
    by (simp add: rx_tx_jitter_def u)
  then show ?thesis using h(2) by (intro exI conjI)
qed

lemma update_rtt_frame:
  "rtt_update_cnt st + 1 \<noteq> 0 \<Longrightarrow> update_rtt st r \<noteq> None \<and>
   stat_tx (the (update_rtt st r)) = stat_tx st \<and> stat_rx (the (update_rtt st r)) = stat_rx st"
  by (simp add: update_rtt_def udiv_def Let_def)

lemma rx_rtt_eq:
  assumes "rc_ts_freq s \<noteq> 0" "rtt_update_cnt (rc_stat s) + 1 \<noteq> 0"
  shows "\<exists>st :: rtcp_stat. rx_rtt s lsr dlsr ts = Some (s\<lparr>rc_stat := st\<rparr>) \<and> stat_tx st = tx s \<and> stat_rx st = rx s"
proof (cases "rx_rtt s lsr dlsr ts = Some s")
  case True
  then have "rx_rtt s lsr dlsr ts = Some (s\<lparr>rc_stat := rc_stat s\<rparr>)" by simp
  then show ?thesis by (intro exI[of _ "rc_stat s"]) simp
next
  case False
  obtain hi lo where "pjmedia_rtcp_get_ntp_time s ts = Some (hi, lo)"
    using assms by (simp add: pjmedia_rtcp_get_ntp_time_def udiv_def)
  then obtain r where r: "rx_rtt s lsr dlsr ts = map_option (\<lambda>st. s\<lparr>rc_stat := st\<rparr>) (update_rtt (rc_stat s) r)"
    using False by (auto simp: rx_rtt_def Let_def split: if_splits)
  have u: "update_rtt (rc_stat s) r \<noteq> None \<and> stat_tx (the (update_rtt (rc_stat s) r)) = tx s \<and>
      stat_rx (the (update_rtt (rc_stat s) r)) = rx s"
    using update_rtt_frame assms by simp
  then obtain st where st: "update_rtt (rc_stat s) r = Some st" by blast
  then show ?thesis using r u by (intro exI[of _ st]) simp
qed

lemma build_report:
  assumes "pjmedia_rtcp_build_rtcp s ts1 ts2 tod = Some (s', p)"
  obtains hi lo lsr dlsr where
    "pjmedia_rtcp_get_ntp_time s ts2 = Some (hi, lo)" "report_lsr s ts1 = Some (lsr, dlsr)"
    "sr_ntp_sec p = hi" "sr_ntp_frac p = lo" "rr_lsr p = lsr" "rr_dlsr p = dlsr"
    "rr_jitter p = drop_bit 4 (rc_jitter s)" "lost_total p = take_bit 24 (ss_loss (rx s))"
    "report_header p \<longleftrightarrow> report_header (rc_pkt s)"
proof -
  have n: "pjmedia_rtcp_get_ntp_time (snd (fraction_lost s e)) ts2 = pjmedia_rtcp_get_ntp_time s ts2"
    "report_lsr (snd (fraction_lost s e)) ts1 = report_lsr s ts1" for e
    by (simp_all add: fraction_lost_def Let_def pjmedia_rtcp_get_ntp_time_def report_lsr_def)
  show thesis
    using assms that
    by (auto simp: pjmedia_rtcp_build_rtcp_def Let_def case_prod_beta n lost_total_def lost_total_split
        report_header_def split: bind_splits)
qed

text \<open>The state after a report, as far as its parts are known.\<close>

lemma received_report:
  assumes "report_header p" "session_usable a"
  obtains a2 a' where
    "rc_tv_base a2 = rc_tv_base a" "rc_ts_base a2 = rc_ts_base a" "rc_ts_freq a2 = rc_ts_freq a"
    "rtt_update_cnt (rc_stat a2) = rtt_update_cnt (rc_stat a)"
    "rx_rtt a2 (rr_lsr p) (rr_dlsr p) ts4 = Some (a2\<lparr>rc_stat := rc_stat a'\<lparr>stat_tx := tx a2\<rparr>\<rparr>)"
    "pjmedia_rtcp_rx_rtcp a (rtcp_pkt_bytes p @ rest) 52 ts3 ts4 tod' = Some a'"
    "ss_loss (tx a') = lost_total p" "h_last (ss_jitter (tx a')) = usec_of (rr_jitter p) (rc_clock_rate a)"
    "rc_rx_lsr a' = ntp_middle (sr_ntp_sec p) (sr_ntp_frac p)" "rc_rx_lsr_time a' = ts3"
    "ss_update_cnt (tx a') = ss_update_cnt (tx a) + 1" "rx a' = rx a" "rc_ts_freq a' = rc_ts_freq a"
    "rc_pkt a' = rc_pkt a"
proof -
  let ?a = "a\<lparr>rc_rx_lsr := ntp_middle (sr_ntp_sec p) (sr_ntp_frac p), rc_rx_lsr_time := ts3\<rparr>"
  have u: "session_usable ?a" using assms(2) by (simp add: session_usable_def)
  obtain h where h: "rx_tx_loss ?a (lost_total p) =
      Some (upd_tx (\<lambda>t. t\<lparr>ss_loss := lost_total p, ss_loss_period := h\<rparr>) ?a)" (is "_ = Some ?a1")
    using rx_tx_loss_eq[OF u] by blast
  have u1: "session_usable ?a1" using u by (simp add: session_usable_def)
  obtain j where j: "rx_tx_jitter ?a1 (rr_jitter p) = Some (upd_tx (\<lambda>t. t\<lparr>ss_jitter := j\<rparr>) ?a1)" (is "_ = Some ?a2")
      "h_last j = usec_of (rr_jitter p) (rc_clock_rate ?a1)"
    using rx_tx_jitter_eq[OF u1] by blast
  have u2: "rc_ts_freq ?a2 \<noteq> 0" "rtt_update_cnt (rc_stat ?a2) + 1 \<noteq> 0" using u by (simp_all add: session_usable_def)
  obtain st where st: "rx_rtt ?a2 (rr_lsr p) (rr_dlsr p) ts4 = Some (?a2\<lparr>rc_stat := st\<rparr>)"
      "stat_tx st = tx ?a2" "stat_rx st = rx ?a2"
    using rx_rtt_eq[OF u2] by blast
  define a' where "a' = upd_tx (\<lambda>t. t\<lparr>ss_update := tod', ss_update_cnt := ss_update_cnt t + 1\<rparr>) (?a2\<lparr>rc_stat := st\<rparr>)"
  have r: "pjmedia_rtcp_rx_rtcp a (rtcp_pkt_bytes p @ rest) 52 ts3 ts4 tod' = Some a'"
    unfolding rx_report[OF assms(1)] h bind.bind_lunit j(1) st(1) a'_def by simp
  have "st = rc_stat a'\<lparr>stat_tx := tx ?a2\<rparr>" using st(2) by (simp add: a'_def)
  then have "rx_rtt ?a2 (rr_lsr p) (rr_dlsr p) ts4 = Some (?a2\<lparr>rc_stat := rc_stat a'\<lparr>stat_tx := tx ?a2\<rparr>\<rparr>)"
    using st(1) by simp
  then show thesis
    by (rule that[rotated 4, OF _ r]) (simp_all add: a'_def st(2,3) j(2))
qed

text \<open>
  C36. A report reaches its peer: the packet that one side builds, laid out in memory and followed by anything in the
  receive buffer, updates the statistics of the other side, which then shows the number of lost packets of the
  receiver (its low 24 bits), the receiver's jitter in microseconds by its own clock rate and the middle of the
  sender's NTP time, and counts one more update; the statistics of its own reception are untouched.
\<close>

theorem report_reaches_peer:
  assumes "pjmedia_rtcp_build_rtcp b ts1 ts2 tod = Some (b', p)" "report_header (rc_pkt b)" "session_usable a"
  shows "\<exists>a' hi lo. pjmedia_rtcp_rx_rtcp a (rtcp_pkt_bytes p @ rest) 52 ts3 ts4 tod' = Some a' \<and>
    ss_loss (tx a') = take_bit 24 (ss_loss (rx b)) \<and>
    h_last (ss_jitter (tx a')) = usec_of (drop_bit 4 (rc_jitter b)) (rc_clock_rate a) \<and>
    pjmedia_rtcp_get_ntp_time b ts2 = Some (hi, lo) \<and> rc_rx_lsr a' = ntp_middle hi lo \<and> rc_rx_lsr_time a' = ts3 \<and>
    ss_update_cnt (tx a') = ss_update_cnt (tx a) + 1 \<and> rx a' = rx a"
proof -
  obtain hi lo lsr dlsr where p: "pjmedia_rtcp_get_ntp_time b ts2 = Some (hi, lo)" "sr_ntp_sec p = hi"
      "sr_ntp_frac p = lo" "rr_jitter p = drop_bit 4 (rc_jitter b)" "lost_total p = take_bit 24 (ss_loss (rx b))"
      "report_header p"
    using build_report[OF assms(1)] assms(2) by metis
  obtain a' where "pjmedia_rtcp_rx_rtcp a (rtcp_pkt_bytes p @ rest) 52 ts3 ts4 tod' = Some a'"
      "ss_loss (tx a') = lost_total p" "h_last (ss_jitter (tx a')) = usec_of (rr_jitter p) (rc_clock_rate a)"
      "rc_rx_lsr a' = ntp_middle (sr_ntp_sec p) (sr_ntp_frac p)" "rc_rx_lsr_time a' = ts3"
      "ss_update_cnt (tx a') = ss_update_cnt (tx a) + 1" "rx a' = rx a"
    by (rule received_report[OF p(6) assms(3), of ts4 rest ts3 tod'])
  then show ?thesis using p by (intro exI[of _ a'] exI[of _ hi] exI[of _ lo]) simp
qed

section \<open>Round trip time\<close>














text \<open>A sample exchange: half a second at the peer, 20 milliseconds on the way.\<close>

definition tod0 :: pj_time_val where "tod0 = TimeVal 0 0"

definition sess_a :: rtcp_session where
  "sess_a = pjmedia_rtcp_init 8000 160 1 (TimeVal 1000 0) 2000000 1000000"

definition sess_b :: rtcp_session where
  "sess_b = pjmedia_rtcp_init 8000 160 2 (TimeVal 1000 0) 1234567 1000000"

definition sent_a :: "rtcp_session \<times> rtcp_pkt" where
  "sent_a = the (pjmedia_rtcp_build_rtcp sess_a 3000000 3000000 tod0)"

text \<open>The peer's state after the report, computed from the fields of the packet.\<close>

definition after_report :: "rtcp_session \<Rightarrow> rtcp_pkt \<Rightarrow> 64 word \<Rightarrow> rtcp_session option" where
  "after_report s p ts = do {
     s \<leftarrow> rx_tx_loss (s\<lparr>rc_rx_lsr := ntp_middle (sr_ntp_sec p) (sr_ntp_frac p), rc_rx_lsr_time := ts\<rparr>) (lost_total p);
     s \<leftarrow> rx_tx_jitter s (rr_jitter p);
     s \<leftarrow> rx_rtt s (rr_lsr p) (rr_dlsr p) ts;
     Some (upd_tx (\<lambda>t. t\<lparr>ss_update := tod0, ss_update_cnt := ss_update_cnt t + 1\<rparr>) s)
   }"

definition got_b :: rtcp_session where "got_b = the (after_report sess_b (snd sent_a) 5000000)"

definition sent_b :: "rtcp_session \<times> rtcp_pkt" where
  "sent_b = the (pjmedia_rtcp_build_rtcp got_b 5500000 5500000 tod0)"

definition got_a :: rtcp_session where "got_a = the (after_report (fst sent_a) (snd sent_b) 3520000)"

lemma after_report_eq:
  "report_header p \<Longrightarrow> pjmedia_rtcp_rx_rtcp s (rtcp_pkt_bytes p @ []) 52 ts ts tod0 = after_report s p ts"
  by (simp only: rx_report after_report_def)

lemma sample_exchange:
  "pjmedia_rtcp_build_rtcp sess_a 3000000 3000000 tod0 = Some (fst sent_a, snd sent_a)"
  "pjmedia_rtcp_rx_rtcp sess_b (rtcp_pkt_bytes (snd sent_a) @ []) 52 5000000 5000000 tod0 = Some got_b"
  "pjmedia_rtcp_build_rtcp got_b 5500000 5500000 tod0 = Some (fst sent_b, snd sent_b)"
  "pjmedia_rtcp_rx_rtcp (fst sent_a) (rtcp_pkt_bytes (snd sent_b) @ []) 52 3520000 3520000 tod0 = Some got_a"
proof -
  have h: "report_header (snd sent_a)" "report_header (snd sent_b)" by code_simp+
  have "pjmedia_rtcp_build_rtcp sess_a 3000000 3000000 tod0 \<noteq> None" by code_simp
  then show "pjmedia_rtcp_build_rtcp sess_a 3000000 3000000 tod0 = Some (fst sent_a, snd sent_a)"
    by (auto simp: sent_a_def)
  have "pjmedia_rtcp_build_rtcp got_b 5500000 5500000 tod0 \<noteq> None" by code_simp
  then show "pjmedia_rtcp_build_rtcp got_b 5500000 5500000 tod0 = Some (fst sent_b, snd sent_b)"
    by (auto simp: sent_b_def)
  have "after_report sess_b (snd sent_a) 5000000 \<noteq> None" by code_simp
  then show "pjmedia_rtcp_rx_rtcp sess_b (rtcp_pkt_bytes (snd sent_a) @ []) 52 5000000 5000000 tod0 = Some got_b"
    unfolding after_report_eq[OF h(1)] got_b_def by auto
  have "after_report (fst sent_a) (snd sent_b) 3520000 \<noteq> None" by code_simp
  then show "pjmedia_rtcp_rx_rtcp (fst sent_a) (rtcp_pkt_bytes (snd sent_b) @ []) 52 3520000 3520000 tod0 = Some got_a"
    unfolding after_report_eq[OF h(2)] got_a_def by auto
qed


theorem report_reaches_peer_witness:
  "\<exists>a' hi lo. pjmedia_rtcp_rx_rtcp sess_a (rtcp_pkt_bytes (snd sent_b) @ [1, 2, 3]) 52 7 8 tod0 = Some a' \<and>
    ss_loss (tx a') = take_bit 24 (ss_loss (rx got_b)) \<and>
    h_last (ss_jitter (tx a')) = usec_of (drop_bit 4 (rc_jitter got_b)) (rc_clock_rate sess_a) \<and>
    pjmedia_rtcp_get_ntp_time got_b 5500000 = Some (hi, lo) \<and> rc_rx_lsr a' = ntp_middle hi lo \<and> rc_rx_lsr_time a' = 7 \<and>
    ss_update_cnt (tx a') = ss_update_cnt (tx sess_a) + 1 \<and> rx a' = rx sess_a"
proof -
  have "report_header (rc_pkt got_b)" "session_usable sess_a" by code_simp+
  then show ?thesis by (rule report_reaches_peer[OF sample_exchange(3)])
qed

section \<open>Accounting of received packets\<close>

text \<open>A source past its probation, and clocks that run.\<close>

definition valid_source :: "rtcp_session \<Rightarrow> bool" where
  "valid_source s \<longleftrightarrow> probation (rc_seq_ctrl s) = 0 \<and> take_bit 16 (cycles (rc_seq_ctrl s)) = 0 \<and>
     rc_clock_rate s \<noteq> 0 \<and> rc_ts_freq s \<noteq> 0"

text \<open>Packets with their sequence number, timestamp, payload length and time of arrival.\<close>

primrec rx_rtps ::
    "(rat \<Rightarrow> rat) \<Rightarrow> rtcp_session \<Rightarrow> (16 word \<times> 32 word \<times> 32 word \<times> 64 word) list \<Rightarrow> rtcp_session option" where
  "rx_rtps rnd s [] = Some s"
| "rx_rtps rnd s (p # ps) = do {
     s \<leftarrow> pjmedia_rtcp_rx_rtp rnd s (ucast (fst p)) (fst (snd p)) (fst (snd (snd p))) (snd (snd (snd p)));
     rx_rtps rnd s ps
   }"

text \<open>The sequence numbers of packets that are \<open>ds\<close> apart.\<close>

primrec seqs_from :: "16 word \<Rightarrow> nat list \<Rightarrow> 16 word list" where
  "seqs_from q [] = []"
| "seqs_from q (d # ds) = (q + of_nat d) # seqs_from (q + of_nat d) ds"

lemma rx_loss_history_eq:
  "h_count h + 1 \<noteq> 0 \<Longrightarrow> rx_loss_history h p \<noteq> None \<and> h_count (the (rx_loss_history h p)) = h_count h + 1"
  by (simp add: rx_loss_history_def udiv_def Let_def)

lemma rx_loss_period_eq:
  assumes "rc_clock_rate s \<noteq> 0" "h_count (ss_loss_period (rx s)) + 1 \<noteq> 0"
  shows "\<exists>h :: stat_history. rx_loss_period s d =
      Some (upd_rx (\<lambda>t. t\<lparr>ss_loss := ss_loss t + (ucast d - 1), ss_loss_period := h\<rparr>) s) \<and>
    h_count h = h_count (ss_loss_period (rx s)) + 1"
proof -
  let ?p = "(ucast d - 1) * rc_pkt_size s * 1000 div rc_clock_rate s * 1000"
  let ?h = "rx_loss_history (ss_loss_period (rx s)) ?p"
  obtain h where h: "?h = Some h" "h_count h = h_count (ss_loss_period (rx s)) + 1"
    using rx_loss_history_eq[OF assms(2), of ?p] by (cases ?h) auto
  then have "rx_loss_period s d =
      Some (upd_rx (\<lambda>t. t\<lparr>ss_loss := ss_loss t + (ucast d - 1), ss_loss_period := h\<rparr>) s)"
    using assms(1) by (simp add: rx_loss_period_def udiv_def Let_def)
  then show ?thesis using h(2) by (intro exI conjI)
qed

lemma rx_jitter_eq:
  assumes "rc_clock_rate s \<noteq> 0" "rc_ts_freq s \<noteq> 0"
  shows "\<exists>tr j av (h :: stat_history). rx_jitter rnd s rts ts =
    Some (upd_rx (\<lambda>t. t\<lparr>ss_jitter := h\<rparr>) (s\<lparr>rc_transit := tr, rc_jitter := j, rc_avg_jitter := av\<rparr>))"
proof (cases "rc_transit s = 0 \<or> rc_received s < PJMEDIA_RTCP_IGNORE_FIRST_PACKETS")
  case True
  let ?tr = "ucast (ts * ucast (rc_clock_rate s) div rc_ts_freq s) - rts"
  have "rx_jitter rnd s rts ts = Some (upd_rx (\<lambda>t. t\<lparr>ss_jitter := (ss_jitter (rx s))\<lparr>h_min := 2000\<rparr>\<rparr>)
      (s\<lparr>rc_transit := ?tr, rc_jitter := rc_jitter s, rc_avg_jitter := rc_avg_jitter s\<rparr>))"
    using True assms(2) by (simp add: rx_jitter_def udiv_def)
  then show ?thesis by (intro exI)
next
  case False
  let ?tr = "ucast (ts * ucast (rc_clock_rate s) div rc_ts_freq s) - rts :: 32 word"
  define d where "d = (if ?tr - rc_transit s <s 0 then - (?tr - rc_transit s) else ?tr - rc_transit s)"
  obtain j where j: "jitter_usec (d <s 4294) d (rc_clock_rate s) = Some j"
    using assms(1) by (cases "d <s 4294") (auto simp: jitter_usec_def udiv_def)
  define av where "av = rnd (rnd (of_nat (unat j) + rnd (rc_avg_jitter s * of_nat (unat (h_count (ss_jitter (rx s)))))) /
      of_nat (unat (h_count (ss_jitter (rx s)) + 1)))"
  have "rx_jitter rnd s rts ts = Some (upd_rx (\<lambda>t. t\<lparr>ss_jitter := rx_jitter_history (ss_jitter (rx s)) j av\<rparr>)
      (s\<lparr>rc_transit := ?tr, rc_jitter := rc_jitter s + (d - drop_bit 4 (rc_jitter s + 8)), rc_avg_jitter := av\<rparr>))"
    using False assms(2) j by (simp add: rx_jitter_def udiv_def Let_def d_def[symmetric] av_def)
  then show ?thesis by (intro exI)
qed

lemma rx_rtp_good:
  assumes "pjmedia_rtp_seq_update (if ss_pkt (rx s) = 0 then pjmedia_rtp_seq_init (rc_seq_ctrl s) q else rc_seq_ctrl s) q =
      (c', \<lparr>st_flag = no_flags\<lparr>fl_probation := b\<rparr>, st_diff = 1\<rparr>)"
    "rc_clock_rate s \<noteq> 0" "rc_ts_freq s \<noteq> 0"
  shows "\<exists>tr j av (h :: stat_history). pjmedia_rtcp_rx_rtp rnd s (ucast q) rts len ts =
    Some (upd_rx (\<lambda>t. t\<lparr>ss_pkt := ss_pkt t + 1, ss_bytes := ss_bytes t + len, ss_jitter := h\<rparr>)
      (s\<lparr>rc_seq_ctrl := c', rc_received := rc_received s + 1, rc_transit := tr, rc_jitter := j, rc_avg_jitter := av,
         rc_rtp_last_ts := rts\<rparr>))"
proof -
  define s1 where "s1 = (upd_rx (\<lambda>t. t\<lparr>ss_pkt := ss_pkt t + 1, ss_bytes := ss_bytes t + len\<rparr>) s)
      \<lparr>rc_seq_ctrl := c', rc_received := rc_received s + 1\<rparr>"
  have u: "(ucast (ucast q :: 32 word) :: 16 word) = q" by (rule bit_word_eqI) (simp add: bit_simps)
  have rx: "pjmedia_rtcp_rx_rtp rnd s (ucast q) rts len ts = do {
      s2 \<leftarrow> (if rts \<noteq> rc_rtp_last_ts s then rx_jitter rnd s1 rts ts else Some s1);
      Some (s2\<lparr>rc_rtp_last_ts := rts\<rparr>)}"
    using assms(1) by (cases "ss_pkt (rx s) = 0") (simp_all add: pjmedia_rtcp_rx_rtp_def Let_def u no_flags_def s1_def)
  have s1: "rc_clock_rate s1 \<noteq> 0" "rc_ts_freq s1 \<noteq> 0" using assms(2,3) by (simp_all add: s1_def)
  obtain tr j av h where s2: "(if rts \<noteq> rc_rtp_last_ts s then rx_jitter rnd s1 rts ts else Some s1) =
      Some (upd_rx (\<lambda>t. t\<lparr>ss_jitter := h\<rparr>) (s1\<lparr>rc_transit := tr, rc_jitter := j, rc_avg_jitter := av\<rparr>))"
  proof (cases "rts = rc_rtp_last_ts s")
    case True
    then show thesis
      using that[where h = "ss_jitter (rx s1)" and tr = "rc_transit s1" and j = "rc_jitter s1" and av = "rc_avg_jitter s1"]
      by simp
  next
    case False
    then show thesis using that rx_jitter_eq[OF s1, of rnd rts ts] by auto
  qed
  have "pjmedia_rtcp_rx_rtp rnd s (ucast q) rts len ts =
    Some (upd_rx (\<lambda>t. t\<lparr>ss_pkt := ss_pkt t + 1, ss_bytes := ss_bytes t + len, ss_jitter := h\<rparr>)
      (s\<lparr>rc_seq_ctrl := c', rc_received := rc_received s + 1, rc_transit := tr, rc_jitter := j, rc_avg_jitter := av,
         rc_rtp_last_ts := rts\<rparr>))"
    unfolding rx s2 by (simp add: s1_def)
  then show ?thesis by (intro exI)
qed

lemma next_cycle: "take_bit 16 (x + 65536 :: 32 word) = take_bit 16 x"
proof -
  have "unat (x + 65536) mod 65536 = unat x mod 65536" by (simp add: unat_word_ariths(1) mod_mod_cancel)
  then show ?thesis by (simp add: word_unat_eq_iff take_bit_eq_mod unat_mod)
qed

text \<open>One packet, \<open>d\<close> after the highest one so far.\<close>

lemma rx_rtp_step:
  assumes v: "valid_source s" and d: "0 < d" "d < 3000" and cnt: "ss_pkt (rx s) \<noteq> 0"
    "h_count (ss_loss_period (rx s)) + 1 \<noteq> 0"
  obtains s' where
    "pjmedia_rtcp_rx_rtp rnd s (ucast (max_seq (rc_seq_ctrl s) + of_nat d)) rts len ts = Some s'"
    "valid_source s'" "max_seq (rc_seq_ctrl s') = max_seq (rc_seq_ctrl s) + of_nat d"
    "ext_seq (rc_seq_ctrl s') = ext_seq (rc_seq_ctrl s) + of_nat d" "base_seq (rc_seq_ctrl s') = base_seq (rc_seq_ctrl s)"
    "rc_received s' = rc_received s + 1" "rc_exp_prior s' = rc_exp_prior s" "rc_rx_prior s' = rc_rx_prior s"
    "ss_loss (rx s') = ss_loss (rx s) + of_nat (d - 1)" "ss_pkt (rx s') = ss_pkt (rx s) + 1"
    "ss_dup (rx s') = ss_dup (rx s)" "ss_reorder (rx s') = ss_reorder (rx s)" "ss_discard (rx s') = ss_discard (rx s)"
    "h_count (ss_loss_period (rx s')) \<in> {h_count (ss_loss_period (rx s)), h_count (ss_loss_period (rx s)) + 1}"
proof -
  let ?c = "rc_seq_ctrl s" and ?q = "max_seq (rc_seq_ctrl s) + of_nat d"
  define c' where "c' = fst (pjmedia_rtp_seq_update ?c ?q)"
  define s1 where "s1 = (upd_rx (\<lambda>t. t\<lparr>ss_pkt := ss_pkt t + 1, ss_bytes := ss_bytes t + len\<rparr>) s)
      \<lparr>rc_seq_ctrl := c', rc_received := rc_received s + 1\<rparr>"
  have du: "unat (of_nat d :: 16 word) = d" using d by (intro unat_of_nat_less) simp
  have d0: "(of_nat d :: 16 word) \<noteq> 0" using du d(1) by auto
  have p0: "probation ?c = 0" using v by (simp add: valid_source_def)
  have q: "?q \<noteq> max_seq ?c" "unat (?q - max_seq ?c) < MAX_DROPOUT" using d0 du d(2) by (simp_all add: MAX_DROPOUT_def)
  note up = seq_update_in_order[OF p0 q]
  have upd: "pjmedia_rtp_seq_update ?c ?q = (c', clean_status (of_nat d))"
    using up(2) by (simp add: c'_def clean_status_def prod_eq_iff)
  have ext: "ext_seq c' = ext_seq ?c + of_nat d" "max_seq c' = ?q" "base_seq c' = base_seq ?c" "probation c' = 0"
      "take_bit 16 (cycles c') = 0"
  proof -
    have "(ucast (of_nat d :: 16 word) :: 32 word) = of_nat d" using du by (metis of_nat_unat)
    then show "ext_seq c' = ext_seq ?c + of_nat d" using up(3) by (simp add: c'_def)
    show "max_seq c' = ?q" "base_seq c' = base_seq ?c" "probation c' = 0" "take_bit 16 (cycles c') = 0"
      using up(1) v by (simp_all add: c'_def valid_source_def next_cycle)
  qed
  have f: "clean_status x = \<lparr>st_flag = no_flags, st_diff = x\<rparr>" for x by (simp add: clean_status_def)
  have rx: "pjmedia_rtcp_rx_rtp rnd s (ucast ?q) rts len ts = do {
      s2 \<leftarrow> (if d > 1 then rx_loss_period s1 (of_nat d) else Some s1);
      s3 \<leftarrow> (if d = 1 \<and> rts \<noteq> rc_rtp_last_ts s2 then rx_jitter rnd s2 rts ts else Some s2);
      Some (s3\<lparr>rc_rtp_last_ts := rts\<rparr>)}"
  proof -
    have c1: "(of_nat d :: 16 word) > 1 \<longleftrightarrow> d > 1" "(of_nat d :: 16 word) = 1 \<longleftrightarrow> d = 1"
      using du by (simp_all add: word_less_nat_alt word_unat_eq_iff)
    have u: "(ucast (ucast ?q :: 32 word) :: 16 word) = ?q" by (rule bit_word_eqI) (simp add: bit_simps)
    show ?thesis using cnt(1) upd
      by (simp add: pjmedia_rtcp_rx_rtp_def Let_def u f no_flags_def c1 s1_def)
  qed
  have s1: "rc_clock_rate s1 \<noteq> 0" "rc_ts_freq s1 \<noteq> 0" "h_count (ss_loss_period (rx s1)) + 1 \<noteq> 0"
    using v cnt(2) by (simp_all add: s1_def valid_source_def)
  show thesis
  proof (cases "d > 1")
    case True
    obtain h where h: "rx_loss_period s1 (of_nat d) =
        Some (upd_rx (\<lambda>t. t\<lparr>ss_loss := ss_loss t + (ucast (of_nat d :: 16 word) - 1), ss_loss_period := h\<rparr>) s1)"
      "h_count h = h_count (ss_loss_period (rx s1)) + 1"
      using rx_loss_period_eq[OF s1(1,3), of "of_nat d"] by blast
    have u: "(ucast (of_nat d :: 16 word) - 1 :: 32 word) = of_nat (d - 1)"
      using du d(1) by (metis of_nat_1 of_nat_diff of_nat_unat Suc_leI One_nat_def)
    have "pjmedia_rtcp_rx_rtp rnd s (ucast ?q) rts len ts = Some ((upd_rx (\<lambda>t. t\<lparr>ss_loss := ss_loss t +
        (ucast (of_nat d :: 16 word) - 1), ss_loss_period := h\<rparr>) s1)\<lparr>rc_rtp_last_ts := rts\<rparr>)"
      unfolding rx using True h(1) by simp
    then show thesis
      by (rule that) (use True v ext h u in \<open>simp_all add: s1_def valid_source_def\<close>)
  next
    case False
    then have d1: "d = 1" using d by simp
    obtain tr j av h where "pjmedia_rtcp_rx_rtp rnd s (ucast ?q) rts len ts =
      Some (upd_rx (\<lambda>t. t\<lparr>ss_pkt := ss_pkt t + 1, ss_bytes := ss_bytes t + len, ss_jitter := h\<rparr>)
        (s\<lparr>rc_seq_ctrl := c', rc_received := rc_received s + 1, rc_transit := tr, rc_jitter := j, rc_avg_jitter := av,
           rc_rtp_last_ts := rts\<rparr>))"
      using rx_rtp_good[of s ?q c' False rnd rts len ts] upd d1 cnt(1) v by (auto simp: f no_flags_def valid_source_def)
    then show thesis
      by (rule that) (use d1 v ext in \<open>simp_all add: valid_source_def\<close>)
  qed
qed

text \<open>Any number of packets in order, with gaps.\<close>

definition lost_in :: "nat list \<Rightarrow> nat" where
  "lost_in ds = (\<Sum>d \<leftarrow> ds. d - 1)"

lemma rx_rtps_in_order:
  assumes "valid_source s" "\<forall>d \<in> set ds. 0 < d \<and> d < 3000" "map fst ps = seqs_from (max_seq (rc_seq_ctrl s)) ds"
    "0 < unat (ss_pkt (rx s))" "unat (ss_pkt (rx s)) + length ds < 2 ^ 32"
    "unat (h_count (ss_loss_period (rx s))) + length ds < 2 ^ 32"
  obtains s' where "rx_rtps rnd s ps = Some s'" "valid_source s'"
    "ext_seq (rc_seq_ctrl s') = ext_seq (rc_seq_ctrl s) + of_nat (sum_list ds)"
    "base_seq (rc_seq_ctrl s') = base_seq (rc_seq_ctrl s)"
    "rc_received s' = rc_received s + of_nat (length ds)" "rc_exp_prior s' = rc_exp_prior s"
    "rc_rx_prior s' = rc_rx_prior s" "ss_loss (rx s') = ss_loss (rx s) + of_nat (lost_in ds)"
    "ss_pkt (rx s') = ss_pkt (rx s) + of_nat (length ds)"
    "ss_dup (rx s') = ss_dup (rx s)" "ss_reorder (rx s') = ss_reorder (rx s)" "ss_discard (rx s') = ss_discard (rx s)"
  using assms
proof (induction ds arbitrary: s ps thesis)
  case Nil
  then show ?case by (simp add: lost_in_def)
next
  case (Cons d ds)
  obtain q rts len ts ps' where ps: "ps = (q, rts, len, ts) # ps'" using Cons.prems(4) by (cases ps) auto
  have q: "q = max_seq (rc_seq_ctrl s) + of_nat d" "map fst ps' = seqs_from q ds" using Cons.prems(4) ps by auto
  have suc: "unat (w + 1) = unat w + 1" if "unat w + 1 < 2 ^ 32" for w :: "32 word"
    using that by (simp add: unat_word_ariths(1))
  have "ss_pkt (rx s) \<noteq> 0" using Cons.prems(5) by (auto simp: unat_gt_0)
  moreover have "unat (h_count (ss_loss_period (rx s)) + 1) \<noteq> 0" using Cons.prems(7) by (subst suc) auto
  then have "h_count (ss_loss_period (rx s)) + 1 \<noteq> 0" by auto
  ultimately obtain s1 where s1: "pjmedia_rtcp_rx_rtp rnd s (ucast q) rts len ts = Some s1"
    "valid_source s1" "max_seq (rc_seq_ctrl s1) = q"
    "ext_seq (rc_seq_ctrl s1) = ext_seq (rc_seq_ctrl s) + of_nat d" "base_seq (rc_seq_ctrl s1) = base_seq (rc_seq_ctrl s)"
    "rc_received s1 = rc_received s + 1" "rc_exp_prior s1 = rc_exp_prior s" "rc_rx_prior s1 = rc_rx_prior s"
    "ss_loss (rx s1) = ss_loss (rx s) + of_nat (d - 1)" "ss_pkt (rx s1) = ss_pkt (rx s) + 1"
    "ss_dup (rx s1) = ss_dup (rx s)" "ss_reorder (rx s1) = ss_reorder (rx s)" "ss_discard (rx s1) = ss_discard (rx s)"
    "h_count (ss_loss_period (rx s1)) \<in> {h_count (ss_loss_period (rx s)), h_count (ss_loss_period (rx s)) + 1}"
    using rx_rtp_step[OF Cons.prems(2), of d rnd rts len ts] Cons.prems(3) unfolding q(1) by (metis list.set_intros(1))
  have p1: "unat (ss_pkt (rx s1)) = unat (ss_pkt (rx s)) + 1" unfolding s1(10) using Cons.prems(6) by (intro suc) simp
  have "unat (h_count (ss_loss_period (rx s1))) \<le> unat (h_count (ss_loss_period (rx s))) + 1"
    using s1(14) suc[of "h_count (ss_loss_period (rx s))"] Cons.prems(7) by auto
  then obtain s' where s': "rx_rtps rnd s1 ps' = Some s'" "valid_source s'"
    "ext_seq (rc_seq_ctrl s') = ext_seq (rc_seq_ctrl s1) + of_nat (sum_list ds)"
    "base_seq (rc_seq_ctrl s') = base_seq (rc_seq_ctrl s1)"
    "rc_received s' = rc_received s1 + of_nat (length ds)" "rc_exp_prior s' = rc_exp_prior s1"
    "rc_rx_prior s' = rc_rx_prior s1" "ss_loss (rx s') = ss_loss (rx s1) + of_nat (lost_in ds)"
    "ss_pkt (rx s') = ss_pkt (rx s1) + of_nat (length ds)"
    "ss_dup (rx s') = ss_dup (rx s1)" "ss_reorder (rx s') = ss_reorder (rx s1)" "ss_discard (rx s') = ss_discard (rx s1)"
    using Cons.IH[of s1 ps'] s1(2,3) q(2) Cons.prems(3,6,7) p1 by auto
  have "rx_rtps rnd s ps = Some s'" using s1(1) s'(1) by (simp add: ps)
  then show ?case by (rule Cons.prems(1)) (simp_all add: s' s1 lost_in_def)
qed

lemma high_half: "take_bit 16 (c :: 32 word) = 0 \<Longrightarrow> c AND 0xFFFF0000 = c"
proof -
  assume c: "take_bit 16 c = 0"
  have "16 \<le> n" if "bit c n" for n using c that by (metis bit_take_bit_iff bit_0_eq bot_apply bot_bool_def not_le)
  then have "c AND NOT (mask 16) = c" by (intro bit_word_eqI) (fastforce simp: bit_simps)
  moreover have "(0xFFFF0000 :: 32 word) = NOT (mask 16)" by (simp add: mask_eq_exp_minus_1)
  ultimately show ?thesis by simp
qed

lemma build_counts:
  assumes "pjmedia_rtcp_build_rtcp s ts1 ts2 tod = Some (s', p)" "take_bit 16 (cycles (rc_seq_ctrl s)) = 0"
  shows "rr_last_seq p = ext_seq (rc_seq_ctrl s)"
    "rr_fract_lost p = fst (fraction_lost s (ext_seq (rc_seq_ctrl s) - base_seq (rc_seq_ctrl s)))"
    "rc_exp_prior s' = ext_seq (rc_seq_ctrl s) - base_seq (rc_seq_ctrl s)" "rc_rx_prior s' = rc_received s"
    "rc_received s' = rc_received s" "rc_seq_ctrl s' = rc_seq_ctrl s" "ss_loss (rx s') = ss_loss (rx s)"
    "ss_pkt (rx s') = ss_pkt (rx s)" "ss_loss_period (rx s') = ss_loss_period (rx s)"
    "valid_source s' = valid_source s"
  using assms(1) high_half[OF assms(2)]
  by (auto simp: pjmedia_rtcp_build_rtcp_def Let_def case_prod_beta ext_seq_def fraction_lost_def valid_source_def
      split: bind_splits)

lemma build_returns: "rc_ts_freq s \<noteq> 0 \<Longrightarrow> \<exists>s' p. pjmedia_rtcp_build_rtcp s ts1 ts2 tod = Some (s', p)"
  by (simp add: pjmedia_rtcp_build_rtcp_def Let_def case_prod_beta fraction_lost_def pjmedia_rtcp_get_ntp_time_def
      report_lsr_def udiv_def)

lemma lost_in_eq: "\<forall>d \<in> set ds. 0 < d \<Longrightarrow> lost_in ds + length ds = sum_list ds"
  by (induction ds) (auto simp: lost_in_def)

lemma fraction_lost_eq:
  assumes "of_nat e = expected - rc_exp_prior s" "of_nat r = rc_received s - rc_rx_prior s" "r \<le> e" "0 < r \<or> e = 0" "e < 2 ^ 24"
  shows "unat (fst (fraction_lost s expected)) = 256 * (e - r) div e"
proof (cases "e = r \<or> e = 0")
  case True
  then show ?thesis using assms(1,2) by (auto simp: fraction_lost_def Let_def simp flip: assms(1,2))
next
  case False
  have l: "(of_nat e - of_nat r :: 32 word) = of_nat (e - r)" using assms(3) by (simp add: of_nat_diff)
  have u: "unat (of_nat (e - r) :: 32 word) = e - r" "unat (of_nat e :: 32 word) = e"
    using assms(5) by (auto intro!: unat_of_nat_less)
  have nz: "(of_nat e :: 32 word) \<noteq> 0" "(of_nat (e - r) :: 32 word) \<noteq> 0" using u False assms(3) by auto
  have "unat (push_bit 8 (of_nat (e - r) :: 32 word)) = (e - r) * 256"
    using assms(5) u(1) unfolding unsigned_push_bit_eq by (simp add: push_bit_eq_mult take_bit_nat_eq_self)
  then have d: "unat (push_bit 8 (of_nat (e - r) :: 32 word) div of_nat e) = (e - r) * 256 div e"
    using u(2) by (simp add: unat_div)
  have "(e - r) * 256 < e * 256" using assms(4) False by simp
  then have "(e - r) * 256 div e < 256" using False by (simp add: div_less_iff_less_mult mult.commute)
  then have "unat (ucast (push_bit 8 (of_nat (e - r) :: 32 word) div of_nat e) :: 8 word) = (e - r) * 256 div e"
    using d by (simp add: unsigned_ucast_eq take_bit_nat_eq_self)
  moreover have "(of_nat e :: 32 word) \<noteq> of_nat r" using l nz(2) by auto
  ultimately show ?thesis using nz l by (simp add: fraction_lost_def Let_def mult.commute flip: assms(1,2))
qed

text \<open>
  C35. Reports count what was lost. After a report, a source past its probation sends any packets in order with gaps
  below 3000 (the numbers may wrap around), fewer than \<open>2 ^ 24\<close> in all: every packet is accepted, none counts as
  duplicate, reordered or discarded, and the next report tells the extended sequence number of the last one, the
  total number of lost packets (24 bits) and the fraction lost since the previous report in units of 1/256.
\<close>

theorem report_counts_losses:
  assumes "pjmedia_rtcp_build_rtcp s0 t1 t2 tod = Some (s, p0)" "valid_source s0"
    "\<forall>d \<in> set ds. 0 < d \<and> d < 3000" "map fst ps = seqs_from (max_seq (rc_seq_ctrl s0)) ds" "sum_list ds < 2 ^ 24"
    "0 < unat (ss_pkt (rx s0))" "unat (ss_pkt (rx s0)) + length ds < 2 ^ 32"
    "unat (h_count (ss_loss_period (rx s0))) + length ds < 2 ^ 32"
  shows "\<exists>s1 s2 p. rx_rtps rnd s ps = Some s1 \<and> pjmedia_rtcp_build_rtcp s1 t3 t4 tod' = Some (s2, p) \<and>
    rr_last_seq p = ext_seq (rc_seq_ctrl s0) + of_nat (sum_list ds) \<and>
    lost_total p = take_bit 24 (ss_loss (rx s0) + of_nat (lost_in ds)) \<and>
    unat (rr_fract_lost p) = 256 * lost_in ds div sum_list ds \<and>
    rc_received s1 = rc_received s + of_nat (length ds) \<and>
    (ss_dup (rx s1), ss_reorder (rx s1), ss_discard (rx s1)) = (ss_dup (rx s), ss_reorder (rx s), ss_discard (rx s))"
proof -
  have cyc: "take_bit 16 (cycles (rc_seq_ctrl s0)) = 0" using assms(2) by (simp add: valid_source_def)
  note b = build_counts[OF assms(1) cyc]
  have v: "valid_source s" using b(10) assms(2) by simp
  obtain s1 where s1: "rx_rtps rnd s ps = Some s1" "valid_source s1"
    "ext_seq (rc_seq_ctrl s1) = ext_seq (rc_seq_ctrl s) + of_nat (sum_list ds)"
    "base_seq (rc_seq_ctrl s1) = base_seq (rc_seq_ctrl s)"
    "rc_received s1 = rc_received s + of_nat (length ds)" "rc_exp_prior s1 = rc_exp_prior s"
    "rc_rx_prior s1 = rc_rx_prior s" "ss_loss (rx s1) = ss_loss (rx s) + of_nat (lost_in ds)"
    "ss_dup (rx s1) = ss_dup (rx s)" "ss_reorder (rx s1) = ss_reorder (rx s)" "ss_discard (rx s1) = ss_discard (rx s)"
    by (rule rx_rtps_in_order[OF v assms(3), where ps = ps and rnd = rnd]) (use assms in \<open>simp_all add: b\<close>)
  obtain s2 p where bp: "pjmedia_rtcp_build_rtcp s1 t3 t4 tod' = Some (s2, p)"
    using build_returns[of s1] s1(2) unfolding valid_source_def by blast
  have cyc1: "take_bit 16 (cycles (rc_seq_ctrl s1)) = 0" using s1(2) by (simp add: valid_source_def)
  note c = build_counts[OF bp cyc1]
  have lt: "lost_total p = take_bit 24 (ss_loss (rx s1))" by (rule build_report[OF bp])
  have len: "lost_in ds + length ds = sum_list ds" using assms(3) by (intro lost_in_eq) auto
  have "unat (rr_fract_lost p) = 256 * (sum_list ds - length ds) div sum_list ds"
    unfolding c(2) using len assms(5)
    by (intro fraction_lost_eq) (auto simp: s1 b)
  moreover have "sum_list ds - length ds = lost_in ds" using len by linarith
  ultimately have "unat (rr_fract_lost p) = 256 * lost_in ds div sum_list ds" by simp
  moreover have "rr_last_seq p = ext_seq (rc_seq_ctrl s0) + of_nat (sum_list ds)" using c(1) s1(3) b(6) by simp
  moreover have "lost_total p = take_bit 24 (ss_loss (rx s0) + of_nat (lost_in ds))" using lt s1(8) b(7) by simp
  ultimately show ?thesis using s1(1,5,9-11) bp by (intro exI[of _ s1] exI[of _ s2] exI[of _ p]) simp
qed

definition sess_r :: rtcp_session where
  "sess_r = sess_a\<lparr>rc_seq_ctrl := \<lparr>max_seq = 65530, cycles = 0, base_seq = 65000, bad_seq = 0, probation = 0\<rparr>,
     rc_received := 531, rc_stat := (rc_stat sess_a)\<lparr>stat_rx := zero_stream_stat\<lparr>ss_pkt := 531\<rparr>\<rparr>\<rparr>"

theorem report_counts_losses_witness:
  "\<exists>s1 s2 p. rx_rtps id (fst (the (pjmedia_rtcp_build_rtcp sess_r 9000000 9000000 tod0)))
      [(65531, 160, 160, 9020000), (65534, 640, 160, 9080000), (8, 2240, 160, 9280000)] = Some s1 \<and>
    pjmedia_rtcp_build_rtcp s1 9300000 9300000 tod0 = Some (s2, p) \<and> rr_last_seq p = 65544 \<and> lost_total p = 11 \<and>
    unat (rr_fract_lost p) = 201"
proof -
  let ?b = "pjmedia_rtcp_build_rtcp sess_r 9000000 9000000 tod0"
  have "?b \<noteq> None" by code_simp
  then have b: "?b = Some (fst (the ?b), snd (the ?b))" by auto
  have v: "valid_source sess_r" by code_simp
  have r: "max_seq (rc_seq_ctrl sess_r) = 65530" "ss_pkt (rx sess_r) = 531" "h_count (ss_loss_period (rx sess_r)) = 0"
      "ext_seq (rc_seq_ctrl sess_r) = 65530" "ss_loss (rx sess_r) = 0"
    by (simp_all add: sess_r_def sess_a_def pjmedia_rtcp_init_def zero_stream_stat_def zero_history_def ext_seq_def)
  show ?thesis
    using report_counts_losses[OF b v, of "[1, 3, 10]"
        "[(65531, 160, 160, 9020000), (65534, 640, 160, 9080000), (8, 2240, 160, 9280000)]" id 9300000 9300000 tod0]
    by (simp add: r lost_in_def del: rx_rtps.simps) blast
qed

lemma first_two_packets:
  assumes "ss_pkt (rx s) = 0" "rc_clock_rate s \<noteq> 0" "rc_ts_freq s \<noteq> 0" "q \<noteq> 0" "q \<noteq> - 1"
  obtains s' where "rx_rtps rnd s [(q, rts1, len1, ts1), (q + 1, rts2, len2, ts2)] = Some s'" "valid_source s'"
    "max_seq (rc_seq_ctrl s') = q + 1" "ext_seq (rc_seq_ctrl s') = ucast q + 1" "base_seq (rc_seq_ctrl s') = ucast q"
    "rc_received s' = rc_received s + 2" "rc_exp_prior s' = rc_exp_prior s" "rc_rx_prior s' = rc_rx_prior s"
    "ss_pkt (rx s') = 2" "ss_loss (rx s') = ss_loss (rx s)" "ss_loss_period (rx s') = ss_loss_period (rx s)"
proof -
  have u: "unat q = unat (q - 1) + 1" using assms(4) by (simp add: unat_minus_one unat_gt_0)
  have v: "unat (q + 1) = unat q + 1"
    using assms(5) unatSuc[of q] by (metis Suc_eq_plus1 add.commute eq_neg_iff_add_eq_0)
  have q1: "(ucast (q + 1) :: 32 word) = ucast q + 1" using v by (metis of_nat_unat of_nat_add of_nat_1)
  let ?c = "pjmedia_rtp_seq_init (rc_seq_ctrl s) q"
  have c1: "pjmedia_rtp_seq_update ?c q = (?c\<lparr>max_seq := q, probation := 1\<rparr>,
      \<lparr>st_flag = no_flags\<lparr>fl_probation := True\<rparr>, st_diff = 1\<rparr>)"
    using u by (simp add: pjmedia_rtp_seq_init_def pjmedia_rtp_seq_restart_def pjmedia_rtp_seq_update_def Let_def
        MIN_SEQUENTIAL_def)
  have c2: "pjmedia_rtp_seq_update (?c\<lparr>max_seq := q, probation := 1\<rparr>) (q + 1) =
      (?c\<lparr>max_seq := q + 1, probation := 0\<rparr>, \<lparr>st_flag = no_flags\<lparr>fl_probation := False\<rparr>, st_diff = 1\<rparr>)"
    using v by (simp add: pjmedia_rtp_seq_init_def pjmedia_rtp_seq_restart_def pjmedia_rtp_seq_update_def Let_def)
  obtain tr j av h where s1: "pjmedia_rtcp_rx_rtp rnd s (ucast q) rts1 len1 ts1 =
    Some (upd_rx (\<lambda>t. t\<lparr>ss_pkt := ss_pkt t + 1, ss_bytes := ss_bytes t + len1, ss_jitter := h\<rparr>)
      (s\<lparr>rc_seq_ctrl := ?c\<lparr>max_seq := q, probation := 1\<rparr>, rc_received := rc_received s + 1, rc_transit := tr,
         rc_jitter := j, rc_avg_jitter := av, rc_rtp_last_ts := rts1\<rparr>))" (is "_ = Some ?s1")
    using rx_rtp_good[of s q _ True rnd rts1 len1 ts1] c1 assms(1-3) by auto
  obtain tr2 j2 av2 h2 where "pjmedia_rtcp_rx_rtp rnd ?s1 (ucast (q + 1)) rts2 len2 ts2 =
    Some (upd_rx (\<lambda>t. t\<lparr>ss_pkt := ss_pkt t + 1, ss_bytes := ss_bytes t + len2, ss_jitter := h2\<rparr>)
      (?s1\<lparr>rc_seq_ctrl := ?c\<lparr>max_seq := q + 1, probation := 0\<rparr>, rc_received := rc_received ?s1 + 1, rc_transit := tr2,
         rc_jitter := j2, rc_avg_jitter := av2, rc_rtp_last_ts := rts2\<rparr>))" (is "_ = Some ?s2")
    using rx_rtp_good[of ?s1 "q + 1" "?c\<lparr>max_seq := q + 1, probation := 0\<rparr>" False rnd rts2 len2 ts2] c2 assms(1-3)
    by auto
  then have "rx_rtps rnd s [(q, rts1, len1, ts1), (q + 1, rts2, len2, ts2)] = Some ?s2" using s1 by simp
  then show thesis
    by (rule that) (use assms(1-3) q1 in \<open>simp_all add: valid_source_def ext_seq_def pjmedia_rtp_seq_init_def
        pjmedia_rtp_seq_restart_def\<close>)
qed

definition ntp64 :: "32 word \<times> 32 word \<Rightarrow> nat" where
  "ntp64 t = unat (fst t) * 2 ^ 32 + unat (snd t)"

lemma full_second_before: "t mod f = 0 \<Longrightarrow> 0 < t \<Longrightarrow> 0 < f \<Longrightarrow> (t - 1) mod f = f - (1 :: nat)"
  by (metis Suc_pred' diff_Suc_1 mod_Suc nat.simps(3))

lemma full_second_later:
  fixes t b f :: nat
  assumes "t mod f = 0" "b mod f \<noteq> 0" "b < t"
  shows "(t - 1 - b) div f = (t - b) div f"
proof -
  have "(t - b) mod f \<noteq> 0"
  proof
    assume "(t - b) mod f = 0"
    then have "f dvd t - b" "f dvd t" using assms(1) by (auto simp: dvd_eq_mod_eq_0)
    then have "f dvd b" using assms(3) by (metis dvd_diff_nat diff_diff_cancel less_imp_le)
    then show False using assms(2) by (simp add: dvd_eq_mod_eq_0)
  qed
  moreover have "t - b = Suc (t - 1 - b)" using assms(3) by simp
  ultimately show ?thesis by (metis div_Suc)
qed

text \<open>
  The first report is wrong. A new session that gets consecutive packets from the number \<open>q\<close> on, and loses none,
  reports a fraction lost of \<open>(2 ^ 32 - 256) div (n - 1) mod 256\<close> for \<open>n\<close> packets, which has no relation to what was
  lost: the number of expected packets leaves out the first one, so one packet more was received than expected, and
  the negative difference is not cut off at zero. For 51 packets it is 76, a loss of 30 percent.
\<close>

theorem first_report_fraction:
  assumes "map fst ps = q # (q + 1) # seqs_from (q + 1) (replicate k 1)" "q \<noteq> 0" "q \<noteq> - 1" "k < 2 ^ 24"
    "clock_rate \<noteq> 0" "freq \<noteq> 0"
  shows "\<exists>s s' p. rx_rtps rnd (pjmedia_rtcp_init clock_rate spf ssrc now ts0 freq) ps = Some s \<and>
    ss_loss (rx s) = 0 \<and> pjmedia_rtcp_build_rtcp s t1 t2 tod = Some (s', p) \<and>
    unat (rr_fract_lost p) = (2 ^ 32 - 256) div (k + 1) mod 256"
proof -
  let ?s0 = "pjmedia_rtcp_init clock_rate spf ssrc now ts0 freq"
  have z: "ss_pkt (rx ?s0) = 0" "rc_clock_rate ?s0 \<noteq> 0" "rc_ts_freq ?s0 \<noteq> 0" "rc_received ?s0 = 0"
      "rc_exp_prior ?s0 = 0" "rc_rx_prior ?s0 = 0" "ss_loss (rx ?s0) = 0" "h_count (ss_loss_period (rx ?s0)) = 0"
    using assms(5,6) by (simp_all add: pjmedia_rtcp_init_def zero_stream_stat_def zero_history_def)
  obtain r1 l1 a1 r2 l2 a2 ps' where ps: "ps = (q, r1, l1, a1) # (q + 1, r2, l2, a2) # ps'"
      "map fst ps' = seqs_from (q + 1) (replicate k 1)"
    using assms(1) by (auto simp: map_eq_Cons_conv)
  obtain s2 where s2: "rx_rtps rnd ?s0 [(q, r1, l1, a1), (q + 1, r2, l2, a2)] = Some s2" "valid_source s2"
    "max_seq (rc_seq_ctrl s2) = q + 1" "ext_seq (rc_seq_ctrl s2) = ucast q + 1" "base_seq (rc_seq_ctrl s2) = ucast q"
    "rc_received s2 = 2" "rc_exp_prior s2 = 0" "rc_rx_prior s2 = 0"
    "ss_pkt (rx s2) = 2" "ss_loss (rx s2) = 0" "h_count (ss_loss_period (rx s2)) = 0"
    by (rule first_two_packets[OF z(1-3) assms(2,3), where rnd = rnd and ?rts1.0 = r1 and ?len1.0 = l1 and ?ts1.0 = a1
        and ?rts2.0 = r2 and ?len2.0 = l2 and ?ts2.0 = a2]) (simp_all add: z)
  have l0: "lost_in (replicate k 1) = 0" by (induction k) (simp_all add: lost_in_def)
  obtain s where s: "rx_rtps rnd s2 ps' = Some s" "valid_source s"
    "ext_seq (rc_seq_ctrl s) = ext_seq (rc_seq_ctrl s2) + of_nat (sum_list (replicate k 1))"
    "base_seq (rc_seq_ctrl s) = base_seq (rc_seq_ctrl s2)" "rc_received s = rc_received s2 + of_nat k"
    "rc_exp_prior s = rc_exp_prior s2" "rc_rx_prior s = rc_rx_prior s2" "ss_loss (rx s) = ss_loss (rx s2)"
    by (rule rx_rtps_in_order[OF s2(2), where ps = ps' and rnd = rnd and ds = "replicate k 1"])
      (use assms(4) ps(2) l0 in \<open>simp_all add: s2\<close>)
  obtain s' p where b: "pjmedia_rtcp_build_rtcp s t1 t2 tod = Some (s', p)"
    using build_returns[of s] s(2) unfolding valid_source_def by blast
  have cyc: "take_bit 16 (cycles (rc_seq_ctrl s)) = 0" using s(2) by (simp add: valid_source_def)
  have u: "unat (of_nat (k + 1) :: 32 word) = k + 1" using assms(4) by (intro unat_of_nat_less) simp
  then have nz: "(of_nat (k + 1) :: 32 word) \<noteq> 0" by auto
  have ei: "ext_seq (rc_seq_ctrl s) - base_seq (rc_seq_ctrl s) = of_nat (k + 1)"
    using s(3,4) s2(4,5) by (simp add: sum_list_replicate)
  have ri: "(of_nat (k + 1) - rc_received s :: 32 word) = - 1" using s(5) s2(6) by simp
  have "push_bit 8 (- 1 :: 32 word) = - 256" by (simp only: push_bit_eq_mult) simp
  moreover have "unat (- 256 :: 32 word) = 2 ^ 32 - 256" by simp
  ultimately have "unat (push_bit 8 (- 1 :: 32 word) div of_nat (k + 1)) = (2 ^ 32 - 256) div (k + 1)"
    using u by (simp only: unat_div)
  then have "unat (ucast (push_bit 8 (- 1 :: 32 word) div of_nat (k + 1)) :: 8 word) = (2 ^ 32 - 256) div (k + 1) mod 256"
    by (simp add: unsigned_ucast_eq take_bit_eq_mod)
  moreover have "fst (fraction_lost s (of_nat (k + 1))) = ucast (push_bit 8 (- 1 :: 32 word) div of_nat (k + 1))"
  proof -
    have "rc_exp_prior s = 0" "rc_rx_prior s = 0" "(- 1 :: 32 word) \<noteq> 0" using s(6,7) s2(7,8) by simp_all
    then show ?thesis using nz by (simp only: fraction_lost_def Let_def fst_conv diff_zero ri simp_thms if_False)
  qed
  ultimately have "unat (rr_fract_lost p) = (2 ^ 32 - 256) div (k + 1) mod 256"
    using build_counts(2)[OF b cyc] by (simp only: ei)
  moreover have "rx_rtps rnd ?s0 ps = Some s" using s2(1) s(1) by (auto simp: ps(1) split: bind_splits)
  ultimately show ?thesis using s(8) s2(10) b by (intro exI[of _ s] exI[of _ s'] exI[of _ p]) simp
qed

theorem first_report_fraction_witness:
  "\<exists>s s' p. rx_rtps id (pjmedia_rtcp_init 8000 160 1 (TimeVal 0 0) 5 1000000)
      (map (\<lambda>q. (q, 0, 160, 0)) (100 # 101 # seqs_from 101 (replicate 49 1))) = Some s \<and>
    pjmedia_rtcp_build_rtcp s 7 7 (TimeVal 1 0) = Some (s', p) \<and> unat (rr_fract_lost p) = 76"
  using first_report_fraction[of "map (\<lambda>q. (q, 0, 160, 0)) (100 # 101 # seqs_from 101 (replicate 49 1))" 100 49 8000
      1000000 id 160 1 "TimeVal 0 0" 5 7 7 "TimeVal 1 0"]
  by (simp add: comp_def del: replicate.simps) blast

text \<open>
  The NTP clock runs backwards: the seconds are counted from the start of the session, the fraction from the full
  second of the system's counter. Unless the session was started on a full second, the clock falls back by at
  least half a second when the counter reaches its next full second.
\<close>

theorem ntp_clock_runs_backwards:
  assumes "rc_ts_freq s = f" "2 \<le> unat f" "unat f \<le> 2 ^ 32" "unat (rc_ts_base s) mod unat f \<noteq> 0"
    "unat ts mod unat f = 0" "rc_ts_base s < ts"
  shows "\<exists>t t'. pjmedia_rtcp_get_ntp_time s (ts - 1) = Some t \<and> pjmedia_rtcp_get_ntp_time s ts = Some t' \<and>
    ntp64 t' + 2 ^ 31 \<le> ntp64 t"
proof -
  let ?f = "unat f" and ?b = "unat (rc_ts_base s)" and ?t = "unat ts"
  have f0: "f \<noteq> 0" using assms(2) by auto
  have bt: "?b < ?t" using assms(6) by (simp add: word_less_nat_alt)
  have t1: "unat (ts - 1) = ?t - 1" using bt by (intro unat_minus_one) auto
  have d: "unat (ts - rc_ts_base s) = ?t - ?b" "unat (ts - 1 - rc_ts_base s) = ?t - 1 - ?b"
    using bt t1 by (simp_all add: unat_sub word_le_nat_alt)
  have same: "(?t - 1 - ?b) div ?f = (?t - ?b) div ?f"
    using full_second_later[OF assms(5,4) bt] .
  have m1: "(?t - 1) mod ?f = ?f - 1" using full_second_before[OF assms(5)] bt assms(2) by simp
  define hi :: "32 word" where "hi = of_nat ((?t - ?b) div ?f) + of_int (sec (rc_tv_base s)) + JAN_1970"
  define L where "L = (?f - 1) * 2 ^ 32 div ?f"
  have L32: "L < 2 ^ 32" using assms(2) by (simp add: L_def div_less_iff_less_mult)
  have L31: "2 ^ 31 \<le> L"
  proof -
    have "?f * 2 ^ 31 \<le> (?f - 1) * 2 ^ 32" using assms(2) by (simp add: diff_mult_distrib)
    then have "?f * 2 ^ 31 div ?f \<le> L" unfolding L_def by (rule div_le_mono)
    then show ?thesis using assms(2) by simp
  qed
  have "ts mod f = 0" using assms(5) by (simp add: word_unat_eq_iff unat_mod)
  then have n': "pjmedia_rtcp_get_ntp_time s ts = Some (hi, 0)"
    using assms(1) f0
    by (simp add: pjmedia_rtcp_get_ntp_time_def udiv_def hi_def unat_div d ucast_64_32 del: of_nat_unat)
  have n: "pjmedia_rtcp_get_ntp_time s (ts - 1) = Some (hi, of_nat L)"
  proof -
    have "unat ((ts - 1) mod f) = ?f - 1" using m1 t1 by (simp add: unat_mod)
    moreover have "(?f - 1) * 2 ^ 32 < 2 ^ 64" using assms(2,3) by simp
    ultimately have "unat (push_bit 32 ((ts - 1) mod f) div f) = L" by (simp add: push_bit_unat unat_div L_def)
    then show ?thesis using assms(1) f0 same
      by (simp add: pjmedia_rtcp_get_ntp_time_def udiv_def hi_def unat_div d ucast_64_32 del: of_nat_unat)
  qed
  have "unat (of_nat L :: 32 word) = L" using L32 by (intro unat_of_nat_less) simp
  then show ?thesis using n n' L31 by (simp add: ntp64_def)
qed

theorem ntp_clock_runs_backwards_witness:
  "\<exists>t t'. pjmedia_rtcp_get_ntp_time sess_b 1999999 = Some t \<and> pjmedia_rtcp_get_ntp_time sess_b 2000000 = Some t' \<and>
    ntp64 t' + 2 ^ 31 \<le> ntp64 t"
proof -
  have "unat (rc_ts_base sess_b) mod unat (1000000 :: 64 word) \<noteq> 0" "rc_ts_freq sess_b = 1000000" "rc_ts_base sess_b < 2000000"
    by (simp_all add: sess_b_def pjmedia_rtcp_init_def)
  then show ?thesis using ntp_clock_runs_backwards[of sess_b 1000000 2000000] by simp
qed

text \<open>
  A receiver report is evaluated whatever was received: the number of received bytes is not looked at, so that
  after a packet of four bytes the loss, the jitter and the round trip time are taken from what an earlier packet
  left in the buffer.
\<close>

theorem receiver_report_size_ignored:
  assumes "buf ! 0 AND 31 \<noteq> 0" "buf ! 1 = RTCP_RR"
  shows "pjmedia_rtcp_rx_rtcp s buf 4 ts1 ts2 tod = pjmedia_rtcp_rx_rtcp s buf (length buf) ts1 ts2 tod \<and>
    report_offset buf 4 = Some 8"
  using assms by (simp add: pjmedia_rtcp_rx_rtcp_def report_offset_def RTCP_RR_def RTCP_SR_def word_gt_0 del: One_nat_def)

theorem receiver_report_size_ignored_witness:
  "report_offset (129 # 201 # replicate 50 7) 4 = Some 8"
  using receiver_report_size_ignored[of "129 # 201 # replicate 50 7"] by (simp add: RTCP_RR_def)

end
