(* ===== verification/Codec_Manager.thy ===== *)
theory Codec_Manager
  imports Pj_String "HOL-Library.Multiset"
begin

text \<open>
  The codec manager (\<^verbatim>\<open>pjmedia/src/pjmedia/codec.c\<close>, \<^verbatim>\<open>pjmedia/codec.h\<close>): the factories that are registered,
  and the descriptors of their codecs, kept in the order of their priorities. A factory is known by a
  number; what its functions return is an argument of the operations that call them. The array of
  descriptors is the list of its used entries.
\<close>

section \<open>Data\<close>

record codec_info =
  ci_type :: nat
  ci_pt :: nat
  ci_encoding_name :: string
  ci_clock_rate :: nat
  ci_channel_cnt :: nat

record codec_desc =
  cd_info :: codec_info
  cd_id :: string
  cd_prio :: nat
  cd_factory :: nat

record codec_mgr =
  factory_list :: "nat list"
  codec_descs :: "codec_desc list"

datatype mgr_error = MGR_EINVAL | MGR_ETOOMANY | MGR_ENOTFOUND | PJMEDIA_CODEC_EUNSUP | Factory_Error int

definition PJMEDIA_CODEC_MGR_MAX_CODECS :: nat where "PJMEDIA_CODEC_MGR_MAX_CODECS = 32"

definition PJMEDIA_CODEC_PRIO_HIGHEST :: nat where "PJMEDIA_CODEC_PRIO_HIGHEST = 255"
definition PJMEDIA_CODEC_PRIO_NEXT_HIGHER :: nat where "PJMEDIA_CODEC_PRIO_NEXT_HIGHER = 254"
definition PJMEDIA_CODEC_PRIO_NORMAL :: nat where "PJMEDIA_CODEC_PRIO_NORMAL = 128"
definition PJMEDIA_CODEC_PRIO_LOWEST :: nat where "PJMEDIA_CODEC_PRIO_LOWEST = 1"

section \<open>Identifiers\<close>

text \<open>
  \<^verbatim>\<open>snprintf\<close> with the format \<^verbatim>\<open>%.*s/%u/%u\<close>: the name ends at a zero character. An identifier that
  does not fit becomes empty, and NULL is returned.
\<close>

definition pjmedia_codec_info_to_id :: "codec_info \<Rightarrow> nat \<Rightarrow> string \<times> bool" where
  "pjmedia_codec_info_to_id info max_len =
     (let id = takeWhile (\<lambda>c. c \<noteq> NUL) (ci_encoding_name info) @ ''/'' @ pj_utoa (ci_clock_rate info) @
               ''/'' @ pj_utoa (ci_channel_cnt info)
      in if length id < 1 \<or> length id \<ge> max_len then ([], False) else (id, True))"

text \<open>\<^verbatim>\<open>pj_strnicmp2\<close> with the length of its first argument: the identifier ends with a zero character.\<close>

definition match_id :: "string \<Rightarrow> codec_desc \<Rightarrow> bool" where
  "match_id codec_id d \<longleftrightarrow> codec_id = [] \<or> strncasecmp codec_id (cd_id d @ [NUL]) = 0"

section \<open>Sorting\<close>

definition swap_codec :: "codec_desc list \<Rightarrow> nat \<Rightarrow> nat \<Rightarrow> codec_desc list" where
  "swap_codec ds i j = ds[i := ds ! j, j := ds ! i]"

function find_max :: "codec_desc list \<Rightarrow> nat \<Rightarrow> nat \<Rightarrow> nat" where
  "find_max ds mx j =
     (if j < length ds then find_max ds (if cd_prio (ds ! j) > cd_prio (ds ! mx) then j else mx) (j + 1) else mx)"
  by pat_completeness auto
termination by (relation "measure (\<lambda>(ds, mx, j). length ds - j)") auto

declare find_max.simps [simp del]

function sort_loop :: "codec_desc list \<Rightarrow> nat \<Rightarrow> codec_desc list" where
  "sort_loop ds i =
     (if i < length ds then
        let mx = find_max ds i (i + 1) in sort_loop (if mx \<noteq> i then swap_codec ds i mx else ds) (i + 1)
      else ds)"
  by pat_completeness auto
termination by (relation "measure (\<lambda>(ds, i). length ds - i)") (auto simp: swap_codec_def Let_def)

declare sort_loop.simps [simp del]

fun demote_highest :: "codec_desc list \<Rightarrow> codec_desc list" where
  "demote_highest [] = []"
| "demote_highest (d # ds) =
     (if cd_prio d = PJMEDIA_CODEC_PRIO_HIGHEST
      then d\<lparr>cd_prio := PJMEDIA_CODEC_PRIO_NEXT_HIGHER\<rparr> # demote_highest ds
      else d # ds)"

definition sort_codecs :: "codec_desc list \<Rightarrow> codec_desc list" where
  "sort_codecs ds = demote_highest (sort_loop ds 0)"

section \<open>Operations\<close>

definition pjmedia_codec_mgr_init :: codec_mgr where
  "pjmedia_codec_mgr_init = \<lparr>factory_list = [], codec_descs = []\<rparr>"

text \<open>\<open>enum_info\<close> is what the factory answers: the codecs it supports, at most the size of the array.\<close>

definition new_desc :: "nat \<Rightarrow> codec_info \<Rightarrow> codec_desc" where
  "new_desc factory info =
     \<lparr>cd_info = info, cd_id = fst (pjmedia_codec_info_to_id info 32), cd_prio = PJMEDIA_CODEC_PRIO_NORMAL,
      cd_factory = factory\<rparr>"

definition pjmedia_codec_mgr_register_factory ::
    "codec_mgr \<Rightarrow> nat \<Rightarrow> int + codec_info list \<Rightarrow> codec_mgr \<times> (mgr_error + unit)" where
  "pjmedia_codec_mgr_register_factory mgr factory enum_info =
     (case enum_info of
        Inl e \<Rightarrow> (mgr, Inl (Factory_Error e))
      | Inr info \<Rightarrow>
          if length info + length (codec_descs mgr) > PJMEDIA_CODEC_MGR_MAX_CODECS then (mgr, Inl MGR_ETOOMANY)
          else (mgr\<lparr>codec_descs := sort_codecs (codec_descs mgr @ map (new_desc factory) info),
                    factory_list := factory_list mgr @ [factory]\<rparr>, Inr ()))"

function erase_loop :: "codec_desc list \<Rightarrow> nat \<Rightarrow> nat \<Rightarrow> codec_desc list" where
  "erase_loop ds factory i =
     (if i < length ds then
        if cd_factory (ds ! i) = factory then erase_loop (take i ds @ drop (i + 1) ds) factory i
        else erase_loop ds factory (i + 1)
      else ds)"
  by pat_completeness auto
termination by (relation "measure (\<lambda>(ds, f, i). length ds - i)") auto

declare erase_loop.simps [simp del]

definition pjmedia_codec_mgr_unregister_factory :: "codec_mgr \<Rightarrow> nat \<Rightarrow> codec_mgr \<times> (mgr_error + unit)" where
  "pjmedia_codec_mgr_unregister_factory mgr factory =
     (if factory \<notin> set (factory_list mgr) then (mgr, Inl MGR_ENOTFOUND)
      else (mgr\<lparr>factory_list := remove1 factory (factory_list mgr),
                codec_descs := erase_loop (codec_descs mgr) factory 0\<rparr>, Inr ()))"

definition pjmedia_codec_mgr_enum_codecs :: "codec_mgr \<Rightarrow> nat \<Rightarrow> (codec_info \<times> nat) list" where
  "pjmedia_codec_mgr_enum_codecs mgr cnt =
     (let cnt = (if cnt > length (codec_descs mgr) then length (codec_descs mgr) else cnt)
      in map (\<lambda>d. (cd_info d, cd_prio d)) (take cnt (codec_descs mgr)))"

fun find_pt :: "codec_desc list \<Rightarrow> nat \<Rightarrow> codec_info option" where
  "find_pt [] pt = None"
| "find_pt (d # ds) pt = (if ci_pt (cd_info d) = pt then Some (cd_info d) else find_pt ds pt)"

definition pjmedia_codec_mgr_get_codec_info :: "codec_mgr \<Rightarrow> nat \<Rightarrow> mgr_error + codec_info" where
  "pjmedia_codec_mgr_get_codec_info mgr pt =
     (if \<not> pt < 96 then Inl MGR_EINVAL
      else case find_pt (codec_descs mgr) pt of None \<Rightarrow> Inl PJMEDIA_CODEC_EUNSUP | Some info \<Rightarrow> Inr info)"

fun find_ids :: "codec_desc list \<Rightarrow> string \<Rightarrow> nat \<Rightarrow> (codec_info \<times> nat) list" where
  "find_ids [] codec_id cnt = []"
| "find_ids (d # ds) codec_id cnt =
     (if match_id codec_id d
      then (cd_info d, cd_prio d) # (if 1 \<ge> cnt then [] else find_ids ds codec_id (cnt - 1))
      else find_ids ds codec_id cnt)"

definition pjmedia_codec_mgr_find_codecs_by_id ::
    "codec_mgr \<Rightarrow> string \<Rightarrow> nat \<Rightarrow> mgr_error + (codec_info \<times> nat) list" where
  "pjmedia_codec_mgr_find_codecs_by_id mgr codec_id cnt =
     (if cnt = 0 then Inl MGR_EINVAL
      else let found = find_ids (codec_descs mgr) codec_id cnt
           in if found = [] then Inl MGR_ENOTFOUND else Inr found)"

definition pjmedia_codec_mgr_set_codec_priority :: "codec_mgr \<Rightarrow> string \<Rightarrow> nat \<Rightarrow> codec_mgr \<times> (mgr_error + unit)" where
  "pjmedia_codec_mgr_set_codec_priority mgr codec_id prio =
     (let ds = map (\<lambda>d. if match_id codec_id d then d\<lparr>cd_prio := prio mod 256\<rparr> else d) (codec_descs mgr)
      in if \<not> list_ex (match_id codec_id) (codec_descs mgr) then (mgr, Inl MGR_ENOTFOUND)
         else (mgr\<lparr>codec_descs := sort_codecs ds\<rparr>, Inr ()))"

text \<open>
  Allocation and the default parameters ask the factories in the order of their registration. What
  a factory answers, its tests included, is the argument \<open>ask\<close>: \<open>None\<close> when it does not support the
  codec or fails.
\<close>

fun ask_factories :: "nat list \<Rightarrow> (nat \<Rightarrow> 'k option) \<Rightarrow> mgr_error + 'k" where
  "ask_factories [] ask = Inl PJMEDIA_CODEC_EUNSUP"
| "ask_factories (f # fs) ask = (case ask f of Some k \<Rightarrow> Inr k | None \<Rightarrow> ask_factories fs ask)"

definition pjmedia_codec_mgr_alloc_codec ::
    "codec_mgr \<Rightarrow> codec_info \<Rightarrow> (nat \<Rightarrow> codec_info \<Rightarrow> bool) \<Rightarrow> (nat \<Rightarrow> codec_info \<Rightarrow> 'k option) \<Rightarrow> mgr_error + 'k" where
  "pjmedia_codec_mgr_alloc_codec mgr info test_alloc alloc_codec =
     ask_factories (factory_list mgr) (\<lambda>f. if test_alloc f info then alloc_codec f info else None)"

definition pjmedia_codec_mgr_get_default_param ::
    "codec_mgr \<Rightarrow> codec_info \<Rightarrow> (nat \<Rightarrow> codec_info \<Rightarrow> bool) \<Rightarrow> (nat \<Rightarrow> codec_info \<Rightarrow> 'p option) \<Rightarrow> mgr_error + 'p" where
  "pjmedia_codec_mgr_get_default_param mgr info test_alloc default_attr =
     ask_factories (factory_list mgr) (\<lambda>f. if test_alloc f info then default_attr f info else None)"

section \<open>The sort\<close>

lemma find_max_range: "mx < length ds \<Longrightarrow> find_max ds mx j < length ds"
  by (induction ds mx j rule: find_max.induct) (subst find_max.simps, auto)

lemma find_max_ge: "mx < j \<Longrightarrow> mx \<le> find_max ds mx j"
proof (induction ds mx j rule: find_max.induct)
  case (1 ds mx j)
  let ?m = "if cd_prio (ds ! j) > cd_prio (ds ! mx) then j else mx"
  have "mx \<le> ?m" "?m < j + 1" using 1(2) by simp_all
  then have "j < length ds \<Longrightarrow> mx \<le> find_max ds ?m (j + 1)" using 1(1) by (meson order_trans)
  then show ?case by (subst find_max.simps) simp
qed

lemma find_max_max:
  "mx < length ds \<Longrightarrow> k = mx \<or> j \<le> k \<and> k < length ds \<Longrightarrow> cd_prio (ds ! k) \<le> cd_prio (ds ! find_max ds mx j)"
proof (induction ds mx j arbitrary: k rule: find_max.induct)
  case (1 ds mx j)
  show ?case
  proof (cases "j < length ds")
    case True
    let ?m = "if cd_prio (ds ! j) > cd_prio (ds ! mx) then j else mx"
    have m: "?m < length ds" using True 1(2) by simp
    have "cd_prio (ds ! ?m) \<le> cd_prio (ds ! find_max ds ?m (j + 1))"
      using 1(1)[OF True m, of ?m] by simp
    moreover have "j + 1 \<le> k \<Longrightarrow> k < length ds \<Longrightarrow> ?thesis"
      using 1(1)[OF True m, of k] True by (subst find_max.simps) simp
    moreover have "find_max ds mx j = find_max ds ?m (j + 1)" using True by (subst find_max.simps) simp
    ultimately show ?thesis using 1(3) True by (cases "k = j"; cases "k = mx") (auto split: if_splits)
  next
    case False
    then show ?thesis using 1(3) by (subst find_max.simps) auto
  qed
qed

text \<open>The loop invariant: the first \<open>i\<close> descriptors are sorted and not below any of the rest.\<close>

definition sorted_upto :: "codec_desc list \<Rightarrow> nat \<Rightarrow> bool" where
  "sorted_upto ds i \<longleftrightarrow> (\<forall>a b. a < b \<longrightarrow> b < length ds \<longrightarrow> a < i \<longrightarrow> cd_prio (ds ! b) \<le> cd_prio (ds ! a))"

lemma swap_codec_mset: "i < length ds \<Longrightarrow> j < length ds \<Longrightarrow> mset (swap_codec ds i j) = mset ds"
  by (simp add: swap_codec_def mset_swap)

lemma sort_step:
  assumes "sorted_upto ds i" "i < length ds" "mx = find_max ds i (i + 1)"
  shows "sorted_upto (swap_codec ds i mx) (i + 1)"
proof -
  have m: "i \<le> mx" "mx < length ds"
    using find_max_ge[of i "i + 1" ds] find_max_range[OF assms(2), of "i + 1"] assms(3) by simp_all
  have "cd_prio (ds ! k) \<le> cd_prio (ds ! mx)" if "i \<le> k" "k < length ds" for k
    using find_max_max[OF assms(2), of k "i + 1"] that assms(3) by (cases "k = i") auto
  then show ?thesis
    using m assms(1,2) by (auto simp: sorted_upto_def swap_codec_def nth_list_update less_Suc_eq)
qed

lemma sort_loop_correct:
  "sorted_upto ds i \<Longrightarrow> mset (sort_loop ds i) = mset ds \<and> sorted_upto (sort_loop ds i) (length ds)"
proof (induction ds i rule: sort_loop.induct)
  case (1 ds i)
  show ?case
  proof (cases "i < length ds")
    case True
    let ?m = "find_max ds i (i + 1)"
    let ?ds = "if ?m \<noteq> i then swap_codec ds i ?m else ds"
    have e: "?ds = swap_codec ds i ?m" by (simp add: swap_codec_def)
    have l: "length (swap_codec ds i ?m) = length ds" by (simp add: swap_codec_def)
    show ?thesis
      using 1(1)[OF True refl] sort_step[OF 1(2) True refl] swap_codec_mset[OF True find_max_range[OF True, of "i + 1"]]
      unfolding e l by (subst (1 2) sort_loop.simps) (simp only: True Let_def if_True e)
  qed (use 1(2) in \<open>subst (1 2) sort_loop.simps, auto simp: sorted_upto_def\<close>)
qed

abbreviation by_prio :: "codec_desc list \<Rightarrow> bool" where
  "by_prio \<equiv> sorted_wrt (\<lambda>a b. cd_prio b \<le> cd_prio a)"

lemma sort_loop_sorted: "by_prio (sort_loop ds 0)" "mset (sort_loop ds 0) = mset ds"
proof -
  have "sorted_upto ds 0" by (simp add: sorted_upto_def)
  note c = sort_loop_correct[OF this]
  then have "length (sort_loop ds 0) = length ds" by (metis size_mset)
  with c show "by_prio (sort_loop ds 0)" "mset (sort_loop ds 0) = mset ds"
    by (auto simp: sorted_upto_def sorted_wrt_iff_nth_less)
qed

definition cap_prio :: "codec_desc \<Rightarrow> codec_desc" where
  "cap_prio d = (if cd_prio d = PJMEDIA_CODEC_PRIO_HIGHEST then d\<lparr>cd_prio := PJMEDIA_CODEC_PRIO_NEXT_HIGHER\<rparr> else d)"

lemma demote_cap: "by_prio ds \<Longrightarrow> \<forall>d\<in>set ds. cd_prio d \<le> 255 \<Longrightarrow> demote_highest ds = map cap_prio ds"
proof (induction ds)
  case (Cons d ds)
  have "map cap_prio ds = ds" if "cd_prio d \<noteq> 255"
    using that Cons.prems by (intro map_idI) (fastforce simp: cap_prio_def PJMEDIA_CODEC_PRIO_HIGHEST_def cong: if_cong)
  moreover have "cap_prio d = (if cd_prio d = 255 then d\<lparr>cd_prio := PJMEDIA_CODEC_PRIO_NEXT_HIGHER\<rparr> else d)"
    by (simp add: cap_prio_def PJMEDIA_CODEC_PRIO_HIGHEST_def cong: if_cong)
  ultimately show ?case using Cons by (simp add: PJMEDIA_CODEC_PRIO_HIGHEST_def cong: if_cong)
qed simp

lemma cap_prio_mono: "cd_prio b \<le> cd_prio a \<Longrightarrow> cd_prio a \<le> 255 \<Longrightarrow> cd_prio (cap_prio b) \<le> cd_prio (cap_prio a)"
  by (auto simp: cap_prio_def PJMEDIA_CODEC_PRIO_HIGHEST_def PJMEDIA_CODEC_PRIO_NEXT_HIGHER_def)

lemma cap_prio_le: "cd_prio d \<le> 255 \<Longrightarrow> cd_prio (cap_prio d) \<le> 254"
  by (simp add: cap_prio_def PJMEDIA_CODEC_PRIO_HIGHEST_def PJMEDIA_CODEC_PRIO_NEXT_HIGHER_def)

lemma sort_codecs_map:
  assumes "\<forall>d\<in>set ds. cd_prio d \<le> 255"
  shows "sort_codecs ds = map cap_prio (sort_loop ds 0)" "set (sort_loop ds 0) = set ds"
proof -
  show set: "set (sort_loop ds 0) = set ds" using sort_loop_sorted(2)[of ds] by (metis set_mset_mset)
  show "sort_codecs ds = map cap_prio (sort_loop ds 0)"
    using demote_cap[OF sort_loop_sorted(1), of ds] assms set by (simp add: sort_codecs_def)
qed

lemma sort_codecs_facts:
  assumes "\<forall>d\<in>set ds. cd_prio d \<le> 255"
  shows "mset (sort_codecs ds) = image_mset cap_prio (mset ds)" "by_prio (sort_codecs ds)"
    "\<forall>d\<in>set (sort_codecs ds). cd_prio d \<le> 254" "set (sort_codecs ds) = cap_prio ` set ds"
    "length (sort_codecs ds) = length ds"
proof -
  note e = sort_codecs_map[OF assms]
  show m: "mset (sort_codecs ds) = image_mset cap_prio (mset ds)" by (simp add: e sort_loop_sorted(2))
  then show "length (sort_codecs ds) = length ds" by (metis size_image_mset size_mset)
  show "set (sort_codecs ds) = cap_prio ` set ds" by (simp add: e)
  then show "\<forall>d\<in>set (sort_codecs ds). cd_prio d \<le> 254" using assms cap_prio_le by auto
  show "by_prio (sort_codecs ds)"
    unfolding e(1) sorted_wrt_map
    by (rule sorted_wrt_mono_rel[OF _ sort_loop_sorted(1)]) (use assms e(2) in \<open>simp add: cap_prio_mono\<close>)
qed

text \<open>
  The codecs are kept in the order of their priorities: sorting loses and duplicates none of
  them, the result is in descending order, and no priority is left at the highest value, so that
  the next codec to get it comes before all the others.
\<close>

theorem sort_codecs_sorts:
  assumes "\<forall>d\<in>set ds. cd_prio d \<le> 255"
  shows "mset (sort_codecs ds) = image_mset cap_prio (mset ds) \<and> by_prio (sort_codecs ds) \<and>
    (\<forall>d\<in>set (sort_codecs ds). cd_prio d \<le> 254)"
  using sort_codecs_facts[OF assms] by simp

theorem sort_codecs_sorts_witness:
  "by_prio (sort_codecs (map (\<lambda>p. \<lparr>cd_info = \<lparr>ci_type = 1, ci_pt = 0, ci_encoding_name = ''PCMU'',
     ci_clock_rate = 8000, ci_channel_cnt = 1\<rparr>, cd_id = ''PCMU/8000/1'', cd_prio = p, cd_factory = 0\<rparr>) [1, 128, 255]))"
  using sort_codecs_sorts[of "map (\<lambda>p. \<lparr>cd_info = \<lparr>ci_type = 1, ci_pt = 0, ci_encoding_name = ''PCMU'',
     ci_clock_rate = 8000, ci_channel_cnt = 1\<rparr>, cd_id = ''PCMU/8000/1'', cd_prio = p, cd_factory = 0\<rparr>) [1, 128, 255]"]
  by simp

section \<open>The manager\<close>

definition mgr_inv :: "codec_mgr \<Rightarrow> bool" where
  "mgr_inv mgr \<longleftrightarrow>
     length (codec_descs mgr) \<le> PJMEDIA_CODEC_MGR_MAX_CODECS \<and> by_prio (codec_descs mgr) \<and>
     (\<forall>d\<in>set (codec_descs mgr). cd_prio d \<le> 254 \<and> cd_factory d \<in> set (factory_list mgr))"

lemma cap_prio_keeps [simp]:
  "cd_factory (cap_prio d) = cd_factory d" "cd_id (cap_prio d) = cd_id d" "cd_info (cap_prio d) = cd_info d"
  by (simp_all add: cap_prio_def)

lemma erase_loop_filter:
  "i \<le> length ds \<Longrightarrow> erase_loop ds f i = take i ds @ filter (\<lambda>d. cd_factory d \<noteq> f) (drop i ds)"
proof (induction ds f i rule: erase_loop.induct)
  case (1 ds f i)
  show ?case
  proof (cases "i < length ds")
    case True
    then have d: "drop i ds = ds ! i # drop (i + 1) ds" by (simp add: Cons_nth_drop_Suc)
    show ?thesis
    proof (cases "cd_factory (ds ! i) = f")
      case c: True
      then show ?thesis using 1(1)[OF True c] True d by (subst erase_loop.simps) simp
    next
      case c: False
      then show ?thesis using 1(2)[OF True c] True d
        by (subst erase_loop.simps) (simp add: take_Suc_conv_app_nth)
    qed
  qed (use 1(3) in \<open>subst erase_loop.simps, simp\<close>)
qed

text \<open>
  C19. Whatever sequence of calls is made, the table of the manager does not overflow, is ordered by
  priority, has no codec at the reserved highest value, and lists only codecs of factories that are
  registered; a factory that is unregistered leaves none behind.
\<close>

theorem codec_mgr_invariant:
  assumes "mgr_inv mgr"
  shows "mgr_inv pjmedia_codec_mgr_init \<and>
    mgr_inv (fst (pjmedia_codec_mgr_register_factory mgr factory enum_info)) \<and>
    mgr_inv (fst (pjmedia_codec_mgr_set_codec_priority mgr codec_id prio)) \<and>
    mgr_inv (fst (pjmedia_codec_mgr_unregister_factory mgr factory)) \<and>
    (factory \<in> set (factory_list mgr) \<longrightarrow>
       (\<forall>d\<in>set (codec_descs (fst (pjmedia_codec_mgr_unregister_factory mgr factory))). cd_factory d \<noteq> factory))"
proof (intro conjI impI)
  note i = assms[unfolded mgr_inv_def]
  show "mgr_inv pjmedia_codec_mgr_init" by (simp add: mgr_inv_def pjmedia_codec_mgr_init_def)
  show "mgr_inv (fst (pjmedia_codec_mgr_register_factory mgr factory enum_info))"
  proof (cases enum_info)
    case (Inr info)
    let ?ds = "codec_descs mgr @ map (new_desc factory) info"
    have p: "\<forall>d\<in>set ?ds. cd_prio d \<le> 255" using i by (auto simp: new_desc_def PJMEDIA_CODEC_PRIO_NORMAL_def)
    show ?thesis
      using i sort_codecs_facts[OF p] Inr
      by (auto simp: mgr_inv_def pjmedia_codec_mgr_register_factory_def new_desc_def)
  qed (use assms in \<open>simp add: pjmedia_codec_mgr_register_factory_def\<close>)
  let ?ds = "map (\<lambda>d. if match_id codec_id d then d\<lparr>cd_prio := prio mod 256\<rparr> else d) (codec_descs mgr)"
  have p: "\<forall>d\<in>set ?ds. cd_prio d \<le> 255" using i by (auto simp: less_Suc_eq_le[symmetric])
  show "mgr_inv (fst (pjmedia_codec_mgr_set_codec_priority mgr codec_id prio))"
    using i sort_codecs_facts[OF p]
    by (auto simp: mgr_inv_def pjmedia_codec_mgr_set_codec_priority_def Let_def)
  have u: "codec_descs (fst (pjmedia_codec_mgr_unregister_factory mgr factory)) =
      (if factory \<in> set (factory_list mgr) then filter (\<lambda>d. cd_factory d \<noteq> factory) (codec_descs mgr) else codec_descs mgr)"
    by (simp add: pjmedia_codec_mgr_unregister_factory_def erase_loop_filter)
  show "mgr_inv (fst (pjmedia_codec_mgr_unregister_factory mgr factory))"
    using i unfolding mgr_inv_def u
    by (auto simp: pjmedia_codec_mgr_unregister_factory_def sorted_wrt_filter in_set_remove1
        intro: le_trans[OF length_filter_le])
  show "\<forall>d\<in>set (codec_descs (fst (pjmedia_codec_mgr_unregister_factory mgr factory))). cd_factory d \<noteq> factory"
    if "factory \<in> set (factory_list mgr)" using that by (simp add: u)
qed

definition pcmu :: codec_info where
  "pcmu = \<lparr>ci_type = 1, ci_pt = 0, ci_encoding_name = ''PCMU'', ci_clock_rate = 8000, ci_channel_cnt = 1\<rparr>"

definition pcma :: codec_info where
  "pcma = \<lparr>ci_type = 1, ci_pt = 8, ci_encoding_name = ''PCMA'', ci_clock_rate = 8000, ci_channel_cnt = 1\<rparr>"

definition gsm :: codec_info where
  "gsm = \<lparr>ci_type = 1, ci_pt = 3, ci_encoding_name = ''GSM'', ci_clock_rate = 8000, ci_channel_cnt = 1\<rparr>"

lemma mgr_inv_init: "mgr_inv pjmedia_codec_mgr_init"
  by (simp add: mgr_inv_def pjmedia_codec_mgr_init_def)

theorem codec_mgr_invariant_witness:
  "mgr_inv (fst (pjmedia_codec_mgr_register_factory pjmedia_codec_mgr_init 7 (Inr [pcmu, pcma])))"
  using codec_mgr_invariant[OF mgr_inv_init, of 7 "Inr [pcmu, pcma]"] by blast

text \<open>
  C20. A codec that is given the highest priority is the first that the endpoint offers, whatever the
  priorities of the others are.
\<close>

theorem highest_priority_first:
  assumes "mgr_inv mgr" "list_ex (match_id codec_id) (codec_descs mgr)"
  shows "match_id codec_id
    (hd (codec_descs (fst (pjmedia_codec_mgr_set_codec_priority mgr codec_id PJMEDIA_CODEC_PRIO_HIGHEST))))"
proof -
  let ?ds = "map (\<lambda>d. if match_id codec_id d then d\<lparr>cd_prio := 255\<rparr> else d) (codec_descs mgr)"
  let ?s = "sort_loop ?ds 0"
  have p: "\<forall>d\<in>set ?ds. cd_prio d \<le> 255" using assms(1) by (auto simp: mgr_inv_def)
  have m: "match_id codec_id d" if "d \<in> set ?ds" "255 \<le> cd_prio d" for d
    using that assms(1) by (fastforce simp: mgr_inv_def match_id_def split: if_splits)
  obtain c where c: "c \<in> set (codec_descs mgr)" "match_id codec_id c" using assms(2) by (auto simp: list_ex_iff)
  have t: "c\<lparr>cd_prio := 255\<rparr> \<in> set ?ds" using c unfolding set_map by (intro image_eqI[of _ _ c]) simp_all
  then obtain h hs where h: "?s = h # hs" using sort_codecs_map(2)[OF p] by (cases ?s) auto
  have "c\<lparr>cd_prio := 255\<rparr> \<in> set (h # hs)" "h \<in> set ?ds"
    using t sort_codecs_map(2)[OF p] unfolding h by (simp only:, metis list.set_intros(1))
  moreover from this(1) have "255 \<le> cd_prio h" using sort_loop_sorted(1)[of ?ds] unfolding h by auto
  ultimately have "match_id codec_id h" using m by blast
  moreover have "codec_descs (fst (pjmedia_codec_mgr_set_codec_priority mgr codec_id PJMEDIA_CODEC_PRIO_HIGHEST)) = sort_codecs ?ds"
    using assms(2) by (simp add: pjmedia_codec_mgr_set_codec_priority_def PJMEDIA_CODEC_PRIO_HIGHEST_def cong: if_cong)
  ultimately show ?thesis unfolding sort_codecs_map(1)[OF p] h by (simp add: match_id_def)
qed

text \<open>A manager with the codecs of two factories.\<close>

definition g711_gsm :: codec_mgr where
  "g711_gsm = \<lparr>factory_list = [7, 8], codec_descs =
     [\<lparr>cd_info = pcmu, cd_id = ''PCMU/8000/1'', cd_prio = 128, cd_factory = 7\<rparr>,
      \<lparr>cd_info = pcma, cd_id = ''PCMA/8000/1'', cd_prio = 128, cd_factory = 7\<rparr>,
      \<lparr>cd_info = gsm, cd_id = ''GSM/8000/1'', cd_prio = 128, cd_factory = 8\<rparr>]\<rparr>"

lemma g711_gsm_match:
  "cd_id d = ''PCMU/8000/1'' \<Longrightarrow> match_id ''GSM'' d = False" "cd_id d = ''PCMA/8000/1'' \<Longrightarrow> match_id ''GSM'' d = False"
  "cd_id d = ''GSM/8000/1'' \<Longrightarrow> match_id ''GSM'' d = True"
  "cd_id d = ''PCMU/8000/1'' \<Longrightarrow> match_id ''PCMU'' d = True" "cd_id d = ''PCMA/8000/1'' \<Longrightarrow> match_id ''PCMU'' d = False"
  "cd_id d = ''GSM/8000/1'' \<Longrightarrow> match_id ''PCMU'' d = False"
  "cd_id d = ''PCMU/8000/1'' \<Longrightarrow> match_id ''PCMA'' d = False" "cd_id d = ''PCMA/8000/1'' \<Longrightarrow> match_id ''PCMA'' d = True"
  "cd_id d = ''GSM/8000/1'' \<Longrightarrow> match_id ''PCMA'' d = False"
  by (simp_all add: match_id_def tolower_def)

lemma g711_gsm_inv: "mgr_inv g711_gsm"
  by (simp add: mgr_inv_def g711_gsm_def PJMEDIA_CODEC_MGR_MAX_CODECS_def)

theorem highest_priority_first_witness:
  "match_id ''GSM'' (hd (codec_descs (fst (pjmedia_codec_mgr_set_codec_priority g711_gsm ''GSM'' PJMEDIA_CODEC_PRIO_HIGHEST))))"
  by (rule highest_priority_first[OF g711_gsm_inv]) (simp add: g711_gsm_def g711_gsm_match)

text \<open>
  The order of the others is not kept. Raising GSM exchanges it with the first codec, so PCMU, which
  was preferred to PCMA, comes after it. And the last codec that is made the lowest does not go to the
  last place: PCMA does not pass PCMU, which has the same priority by then.
\<close>

lemmas sort_eval = pjmedia_codec_mgr_set_codec_priority_def g711_gsm_def g711_gsm_match sort_codecs_def
  sort_loop.simps find_max.simps swap_codec_def numeral_2_eq_2 PJMEDIA_CODEC_PRIO_LOWEST_def
  PJMEDIA_CODEC_PRIO_HIGHEST_def

theorem equal_priorities_reordered:
  "map (\<lambda>d. cd_id d) (codec_descs (fst (pjmedia_codec_mgr_set_codec_priority g711_gsm ''GSM'' 255))) =
     [''GSM/8000/1'', ''PCMA/8000/1'', ''PCMU/8000/1'']"
  by (simp add: sort_eval)

theorem lowest_not_last:
  "map (\<lambda>d. cd_id d) (codec_descs (fst (pjmedia_codec_mgr_set_codec_priority
     (fst (pjmedia_codec_mgr_set_codec_priority g711_gsm ''PCMU'' PJMEDIA_CODEC_PRIO_LOWEST)) ''PCMA'' PJMEDIA_CODEC_PRIO_LOWEST))) =
     [''GSM/8000/1'', ''PCMA/8000/1'', ''PCMU/8000/1'']"
  by (simp add: sort_eval)

end
