(* ===== verification/Alaw_Ulaw.thy ===== *)
theory Alaw_Ulaw
  imports Pj_Prelude "HOL-Library.Word"
begin

unbundle bit_operations_syntax

text \<open>
  The G.711 companding of PCM samples. The library has it twice: as tables
  (\<^verbatim>\<open>pjmedia/src/pjmedia/alaw_ulaw_table.c\<close> with the macros of \<^verbatim>\<open>alaw_ulaw.h\<close>, which is what the default
  configuration compiles) and as Sun's computation (\<^verbatim>\<open>alaw_ulaw.c\<close>), here with the suffix \<open>_calc\<close>.
  A sample is a C \<^verbatim>\<open>int\<close>, a code an 8-bit word.
\<close>

section \<open>Run-length tables\<close>

text \<open>
  The two encoder tables have 16384 entries, in at most 256 runs of equal values each. They are
  written down as the runs.
\<close>

primrec expand :: "(int \<times> 'a) list \<Rightarrow> 'a list" where
  "expand [] = []"
| "expand (r # rs) = replicate (nat (fst r)) (snd r) @ expand rs"

primrec lookup_run :: "(int \<times> 'a) list \<Rightarrow> int \<Rightarrow> 'a option" where
  "lookup_run [] i = None"
| "lookup_run (r # rs) i = (if i < fst r then Some (snd r) else lookup_run rs (i - fst r))"

definition linear2ulaw_runs :: "(int \<times> 8 word) list" where
  "linear2ulaw_runs =
     [(1, 0xff), (2, 0xfe), (2, 0xfd), (2, 0xfc), (2, 0xfb), (2, 0xfa), (2, 0xf9), (2, 0xf8),
      (2, 0xf7), (2, 0xf6), (2, 0xf5), (2, 0xf4), (2, 0xf3), (2, 0xf2), (2, 0xf1), (2, 0xf0),
      (4, 0xef), (4, 0xee), (4, 0xed), (4, 0xec), (4, 0xeb), (4, 0xea), (4, 0xe9), (4, 0xe8),
      (4, 0xe7), (4, 0xe6), (4, 0xe5), (4, 0xe4), (4, 0xe3), (4, 0xe2), (4, 0xe1), (4, 0xe0),
      (8, 0xdf), (8, 0xde), (8, 0xdd), (8, 0xdc), (8, 0xdb), (8, 0xda), (8, 0xd9), (8, 0xd8),
      (8, 0xd7), (8, 0xd6), (8, 0xd5), (8, 0xd4), (8, 0xd3), (8, 0xd2), (8, 0xd1), (8, 0xd0),
      (16, 0xcf), (16, 0xce), (16, 0xcd), (16, 0xcc), (16, 0xcb), (16, 0xca), (16, 0xc9), (16, 0xc8),
      (16, 0xc7), (16, 0xc6), (16, 0xc5), (16, 0xc4), (16, 0xc3), (16, 0xc2), (16, 0xc1), (16, 0xc0),
      (32, 0xbf), (32, 0xbe), (32, 0xbd), (32, 0xbc), (32, 0xbb), (32, 0xba), (32, 0xb9), (32, 0xb8),
      (32, 0xb7), (32, 0xb6), (32, 0xb5), (32, 0xb4), (32, 0xb3), (32, 0xb2), (32, 0xb1), (32, 0xb0),
      (64, 0xaf), (64, 0xae), (64, 0xad), (64, 0xac), (64, 0xab), (64, 0xaa), (64, 0xa9), (64, 0xa8),
      (64, 0xa7), (64, 0xa6), (64, 0xa5), (64, 0xa4), (64, 0xa3), (64, 0xa2), (64, 0xa1), (64, 0xa0),
      (128, 0x9f), (128, 0x9e), (128, 0x9d), (128, 0x9c), (128, 0x9b), (128, 0x9a), (128, 0x99), (128, 0x98),
      (128, 0x97), (128, 0x96), (128, 0x95), (128, 0x94), (128, 0x93), (128, 0x92), (128, 0x91), (128, 0x90),
      (256, 0x8f), (256, 0x8e), (256, 0x8d), (256, 0x8c), (256, 0x8b), (256, 0x8a), (256, 0x89), (256, 0x88),
      (256, 0x87), (256, 0x86), (256, 0x85), (256, 0x84), (256, 0x83), (256, 0x82), (256, 0x81), (289, 0x80),
      (290, 0x00), (256, 0x01), (256, 0x02), (256, 0x03), (256, 0x04), (256, 0x05), (256, 0x06), (256, 0x07),
      (256, 0x08), (256, 0x09), (256, 0x0a), (256, 0x0b), (256, 0x0c), (256, 0x0d), (256, 0x0e), (256, 0x0f),
      (128, 0x10), (128, 0x11), (128, 0x12), (128, 0x13), (128, 0x14), (128, 0x15), (128, 0x16), (128, 0x17),
      (128, 0x18), (128, 0x19), (128, 0x1a), (128, 0x1b), (128, 0x1c), (128, 0x1d), (128, 0x1e), (128, 0x1f),
      (64, 0x20), (64, 0x21), (64, 0x22), (64, 0x23), (64, 0x24), (64, 0x25), (64, 0x26), (64, 0x27),
      (64, 0x28), (64, 0x29), (64, 0x2a), (64, 0x2b), (64, 0x2c), (64, 0x2d), (64, 0x2e), (64, 0x2f),
      (32, 0x30), (32, 0x31), (32, 0x32), (32, 0x33), (32, 0x34), (32, 0x35), (32, 0x36), (32, 0x37),
      (32, 0x38), (32, 0x39), (32, 0x3a), (32, 0x3b), (32, 0x3c), (32, 0x3d), (32, 0x3e), (32, 0x3f),
      (16, 0x40), (16, 0x41), (16, 0x42), (16, 0x43), (16, 0x44), (16, 0x45), (16, 0x46), (16, 0x47),
      (16, 0x48), (16, 0x49), (16, 0x4a), (16, 0x4b), (16, 0x4c), (16, 0x4d), (16, 0x4e), (16, 0x4f),
      (8, 0x50), (8, 0x51), (8, 0x52), (8, 0x53), (8, 0x54), (8, 0x55), (8, 0x56), (8, 0x57),
      (8, 0x58), (8, 0x59), (8, 0x5a), (8, 0x5b), (8, 0x5c), (8, 0x5d), (8, 0x5e), (8, 0x5f),
      (4, 0x60), (4, 0x61), (4, 0x62), (4, 0x63), (4, 0x64), (4, 0x65), (4, 0x66), (4, 0x67),
      (4, 0x68), (4, 0x69), (4, 0x6a), (4, 0x6b), (4, 0x6c), (4, 0x6d), (4, 0x6e), (4, 0x6f),
      (2, 0x70), (2, 0x71), (2, 0x72), (2, 0x73), (2, 0x74), (2, 0x75), (2, 0x76), (2, 0x77),
      (2, 0x78), (2, 0x79), (2, 0x7a), (2, 0x7b), (2, 0x7c), (2, 0x7d), (2, 0x7e)]"

definition linear2alaw_runs :: "(int \<times> 8 word) list" where
  "linear2alaw_runs =
     [(4, 0xd5), (4, 0xd4), (4, 0xd7), (4, 0xd6), (4, 0xd1), (4, 0xd0), (4, 0xd3), (4, 0xd2),
      (4, 0xdd), (4, 0xdc), (4, 0xdf), (4, 0xde), (4, 0xd9), (4, 0xd8), (4, 0xdb), (4, 0xda),
      (4, 0xc5), (4, 0xc4), (4, 0xc7), (4, 0xc6), (4, 0xc1), (4, 0xc0), (4, 0xc3), (4, 0xc2),
      (4, 0xcd), (4, 0xcc), (4, 0xcf), (4, 0xce), (4, 0xc9), (4, 0xc8), (4, 0xcb), (4, 0xca),
      (8, 0xf5), (8, 0xf4), (8, 0xf7), (8, 0xf6), (8, 0xf1), (8, 0xf0), (8, 0xf3), (8, 0xf2),
      (8, 0xfd), (8, 0xfc), (8, 0xff), (8, 0xfe), (8, 0xf9), (8, 0xf8), (8, 0xfb), (8, 0xfa),
      (16, 0xe5), (16, 0xe4), (16, 0xe7), (16, 0xe6), (16, 0xe1), (16, 0xe0), (16, 0xe3), (16, 0xe2),
      (16, 0xed), (16, 0xec), (16, 0xef), (16, 0xee), (16, 0xe9), (16, 0xe8), (16, 0xeb), (16, 0xea),
      (32, 0x95), (32, 0x94), (32, 0x97), (32, 0x96), (32, 0x91), (32, 0x90), (32, 0x93), (32, 0x92),
      (32, 0x9d), (32, 0x9c), (32, 0x9f), (32, 0x9e), (32, 0x99), (32, 0x98), (32, 0x9b), (32, 0x9a),
      (64, 0x85), (64, 0x84), (64, 0x87), (64, 0x86), (64, 0x81), (64, 0x80), (64, 0x83), (64, 0x82),
      (64, 0x8d), (64, 0x8c), (64, 0x8f), (64, 0x8e), (64, 0x89), (64, 0x88), (64, 0x8b), (64, 0x8a),
      (128, 0xb5), (128, 0xb4), (128, 0xb7), (128, 0xb6), (128, 0xb1), (128, 0xb0), (128, 0xb3), (128, 0xb2),
      (128, 0xbd), (128, 0xbc), (128, 0xbf), (128, 0xbe), (128, 0xb9), (128, 0xb8), (128, 0xbb), (128, 0xba),
      (256, 0xa5), (256, 0xa4), (256, 0xa7), (256, 0xa6), (256, 0xa1), (256, 0xa0), (256, 0xa3), (256, 0xa2),
      (256, 0xad), (256, 0xac), (256, 0xaf), (256, 0xae), (256, 0xa9), (256, 0xa8), (256, 0xab), (256, 0xaa),
      (257, 0x2a), (256, 0x2b), (256, 0x28), (256, 0x29), (256, 0x2e), (256, 0x2f), (256, 0x2c), (256, 0x2d),
      (256, 0x22), (256, 0x23), (256, 0x20), (256, 0x21), (256, 0x26), (256, 0x27), (256, 0x24), (256, 0x25),
      (128, 0x3a), (128, 0x3b), (128, 0x38), (128, 0x39), (128, 0x3e), (128, 0x3f), (128, 0x3c), (128, 0x3d),
      (128, 0x32), (128, 0x33), (128, 0x30), (128, 0x31), (128, 0x36), (128, 0x37), (128, 0x34), (128, 0x35),
      (64, 0x0a), (64, 0x0b), (64, 0x08), (64, 0x09), (64, 0x0e), (64, 0x0f), (64, 0x0c), (64, 0x0d),
      (64, 0x02), (64, 0x03), (64, 0x00), (64, 0x01), (64, 0x06), (64, 0x07), (64, 0x04), (64, 0x05),
      (32, 0x1a), (32, 0x1b), (32, 0x18), (32, 0x19), (32, 0x1e), (32, 0x1f), (32, 0x1c), (32, 0x1d),
      (32, 0x12), (32, 0x13), (32, 0x10), (32, 0x11), (32, 0x16), (32, 0x17), (32, 0x14), (32, 0x15),
      (16, 0x6a), (16, 0x6b), (16, 0x68), (16, 0x69), (16, 0x6e), (16, 0x6f), (16, 0x6c), (16, 0x6d),
      (16, 0x62), (16, 0x63), (16, 0x60), (16, 0x61), (16, 0x66), (16, 0x67), (16, 0x64), (16, 0x65),
      (8, 0x7a), (8, 0x7b), (8, 0x78), (8, 0x79), (8, 0x7e), (8, 0x7f), (8, 0x7c), (8, 0x7d),
      (8, 0x72), (8, 0x73), (8, 0x70), (8, 0x71), (8, 0x76), (8, 0x77), (8, 0x74), (8, 0x75),
      (4, 0x4a), (4, 0x4b), (4, 0x48), (4, 0x49), (4, 0x4e), (4, 0x4f), (4, 0x4c), (4, 0x4d),
      (4, 0x42), (4, 0x43), (4, 0x40), (4, 0x41), (4, 0x46), (4, 0x47), (4, 0x44), (4, 0x45),
      (4, 0x5a), (4, 0x5b), (4, 0x58), (4, 0x59), (4, 0x5e), (4, 0x5f), (4, 0x5c), (4, 0x5d),
      (4, 0x52), (4, 0x53), (4, 0x50), (4, 0x51), (4, 0x56), (4, 0x57), (4, 0x54), (3, 0x55)]"

definition pjmedia_linear2ulaw_tab :: "8 word list" where
  "pjmedia_linear2ulaw_tab = expand linear2ulaw_runs"

definition pjmedia_linear2alaw_tab :: "8 word list" where
  "pjmedia_linear2alaw_tab = expand linear2alaw_runs"

definition pjmedia_ulaw2linear_tab :: "int list" where
  "pjmedia_ulaw2linear_tab =
     [- 32124, - 31100, - 30076, - 29052, - 28028, - 27004, - 25980, - 24956, - 23932, - 22908, - 21884, - 20860, - 19836, - 18812, - 17788, - 16764,
      - 15996, - 15484, - 14972, - 14460, - 13948, - 13436, - 12924, - 12412, - 11900, - 11388, - 10876, - 10364, - 9852, - 9340, - 8828, - 8316,
      - 7932, - 7676, - 7420, - 7164, - 6908, - 6652, - 6396, - 6140, - 5884, - 5628, - 5372, - 5116, - 4860, - 4604, - 4348, - 4092,
      - 3900, - 3772, - 3644, - 3516, - 3388, - 3260, - 3132, - 3004, - 2876, - 2748, - 2620, - 2492, - 2364, - 2236, - 2108, - 1980,
      - 1884, - 1820, - 1756, - 1692, - 1628, - 1564, - 1500, - 1436, - 1372, - 1308, - 1244, - 1180, - 1116, - 1052, - 988, - 924,
      - 876, - 844, - 812, - 780, - 748, - 716, - 684, - 652, - 620, - 588, - 556, - 524, - 492, - 460, - 428, - 396,
      - 372, - 356, - 340, - 324, - 308, - 292, - 276, - 260, - 244, - 228, - 212, - 196, - 180, - 164, - 148, - 132,
      - 120, - 112, - 104, - 96, - 88, - 80, - 72, - 64, - 56, - 48, - 40, - 32, - 24, - 16, - 8, 0,
      32124, 31100, 30076, 29052, 28028, 27004, 25980, 24956, 23932, 22908, 21884, 20860, 19836, 18812, 17788, 16764,
      15996, 15484, 14972, 14460, 13948, 13436, 12924, 12412, 11900, 11388, 10876, 10364, 9852, 9340, 8828, 8316,
      7932, 7676, 7420, 7164, 6908, 6652, 6396, 6140, 5884, 5628, 5372, 5116, 4860, 4604, 4348, 4092,
      3900, 3772, 3644, 3516, 3388, 3260, 3132, 3004, 2876, 2748, 2620, 2492, 2364, 2236, 2108, 1980,
      1884, 1820, 1756, 1692, 1628, 1564, 1500, 1436, 1372, 1308, 1244, 1180, 1116, 1052, 988, 924,
      876, 844, 812, 780, 748, 716, 684, 652, 620, 588, 556, 524, 492, 460, 428, 396,
      372, 356, 340, 324, 308, 292, 276, 260, 244, 228, 212, 196, 180, 164, 148, 132,
      120, 112, 104, 96, 88, 80, 72, 64, 56, 48, 40, 32, 24, 16, 8, 0]"

definition pjmedia_alaw2linear_tab :: "int list" where
  "pjmedia_alaw2linear_tab =
     [- 5504, - 5248, - 6016, - 5760, - 4480, - 4224, - 4992, - 4736, - 7552, - 7296, - 8064, - 7808, - 6528, - 6272, - 7040, - 6784,
      - 2752, - 2624, - 3008, - 2880, - 2240, - 2112, - 2496, - 2368, - 3776, - 3648, - 4032, - 3904, - 3264, - 3136, - 3520, - 3392,
      - 22016, - 20992, - 24064, - 23040, - 17920, - 16896, - 19968, - 18944, - 30208, - 29184, - 32256, - 31232, - 26112, - 25088, - 28160, - 27136,
      - 11008, - 10496, - 12032, - 11520, - 8960, - 8448, - 9984, - 9472, - 15104, - 14592, - 16128, - 15616, - 13056, - 12544, - 14080, - 13568,
      - 344, - 328, - 376, - 360, - 280, - 264, - 312, - 296, - 472, - 456, - 504, - 488, - 408, - 392, - 440, - 424,
      - 88, - 72, - 120, - 104, - 24, - 8, - 56, - 40, - 216, - 200, - 248, - 232, - 152, - 136, - 184, - 168,
      - 1376, - 1312, - 1504, - 1440, - 1120, - 1056, - 1248, - 1184, - 1888, - 1824, - 2016, - 1952, - 1632, - 1568, - 1760, - 1696,
      - 688, - 656, - 752, - 720, - 560, - 528, - 624, - 592, - 944, - 912, - 1008, - 976, - 816, - 784, - 880, - 848,
      5504, 5248, 6016, 5760, 4480, 4224, 4992, 4736, 7552, 7296, 8064, 7808, 6528, 6272, 7040, 6784,
      2752, 2624, 3008, 2880, 2240, 2112, 2496, 2368, 3776, 3648, 4032, 3904, 3264, 3136, 3520, 3392,
      22016, 20992, 24064, 23040, 17920, 16896, 19968, 18944, 30208, 29184, 32256, 31232, 26112, 25088, 28160, 27136,
      11008, 10496, 12032, 11520, 8960, 8448, 9984, 9472, 15104, 14592, 16128, 15616, 13056, 12544, 14080, 13568,
      344, 328, 376, 360, 280, 264, 312, 296, 472, 456, 504, 488, 408, 392, 440, 424,
      88, 72, 120, 104, 24, 8, 56, 40, 216, 200, 248, 232, 152, 136, 184, 168,
      1376, 1312, 1504, 1440, 1120, 1056, 1248, 1184, 1888, 1824, 2016, 1952, 1632, 1568, 1760, 1696,
      688, 656, 752, 720, 560, 528, 624, 592, 944, 912, 1008, 976, 816, 784, 880, 848]"

section \<open>The macros\<close>

text \<open>The conversion to \<^verbatim>\<open>pj_int16_t\<close> and the index of a sample in the encoder tables.\<close>

definition tab_index :: "int \<Rightarrow> int" where
  "tab_index pcm_val = drop_bit 2 (signed_take_bit 15 pcm_val) AND 0x3fff"

definition pjmedia_linear2alaw :: "int \<Rightarrow> 8 word" where
  "pjmedia_linear2alaw pcm_val = pjmedia_linear2alaw_tab ! nat (tab_index pcm_val)"

definition pjmedia_alaw2linear :: "8 word \<Rightarrow> int" where
  "pjmedia_alaw2linear chara_val = pjmedia_alaw2linear_tab ! unat chara_val"

definition pjmedia_linear2ulaw :: "int \<Rightarrow> 8 word" where
  "pjmedia_linear2ulaw pcm_val = pjmedia_linear2ulaw_tab ! nat (tab_index pcm_val)"

definition pjmedia_ulaw2linear :: "8 word \<Rightarrow> int" where
  "pjmedia_ulaw2linear u_val = pjmedia_ulaw2linear_tab ! unat u_val"

definition pjmedia_alaw2ulaw :: "8 word \<Rightarrow> 8 word" where
  "pjmedia_alaw2ulaw aval = pjmedia_linear2ulaw (pjmedia_alaw2linear aval)"

definition pjmedia_ulaw2alaw :: "8 word \<Rightarrow> 8 word" where
  "pjmedia_ulaw2alaw uval = pjmedia_linear2alaw (pjmedia_ulaw2linear uval)"

section \<open>The computation\<close>

definition seg_end :: "int list" where
  "seg_end = [0xFF, 0x1FF, 0x3FF, 0x7FF, 0xFFF, 0x1FFF, 0x3FFF, 0x7FFF]"

text \<open>The index of the first entry that is not below the value, or the size of the table.\<close>

primrec search :: "int \<Rightarrow> int list \<Rightarrow> nat" where
  "search val [] = 0"
| "search val (t # ts) = (if val \<le> t then 0 else Suc (search val ts))"

definition pjmedia_linear2alaw_calc :: "int \<Rightarrow> 8 word" where
  "pjmedia_linear2alaw_calc pcm_val =
     (let mask = (if pcm_val \<ge> 0 then 0xD5 else 0x55);
          pcm_val = (if pcm_val \<ge> 0 then pcm_val else - pcm_val - 8);
          seg = search pcm_val seg_end
      in if seg \<ge> 8 then 0x7F XOR mask
         else
           let aval = push_bit 4 (of_nat seg);
               aval = (if seg < 2 then aval OR of_int (drop_bit 4 pcm_val AND 0xf)
                       else aval OR of_int (drop_bit (seg + 3) pcm_val AND 0xf))
           in aval XOR mask)"

definition pjmedia_alaw2linear_calc :: "8 word \<Rightarrow> int" where
  "pjmedia_alaw2linear_calc a_val =
     (let a_val = uint a_val XOR 0x55;
          t = push_bit 4 (a_val AND 0xf);
          seg = nat (drop_bit 4 (a_val AND 0x70));
          t = (if seg = 0 then t + 8
               else if seg = 1 then t + 0x108
               else push_bit (seg - 1) (t + 0x108))
      in if a_val AND 0x80 \<noteq> 0 then t else - t)"

definition BIAS :: int where "BIAS = 0x84"

definition pjmedia_linear2ulaw_calc :: "int \<Rightarrow> 8 word" where
  "pjmedia_linear2ulaw_calc pcm_val =
     (let mask = (if pcm_val < 0 then 0x7F else 0xFF);
          pcm_val = (if pcm_val < 0 then BIAS - pcm_val else pcm_val + BIAS);
          seg = search pcm_val seg_end
      in if seg \<ge> 8 then 0x7F XOR mask
         else (push_bit 4 (of_nat seg) OR of_int (drop_bit (seg + 3) pcm_val AND 0xF)) XOR mask)"

definition pjmedia_ulaw2linear_calc :: "8 word \<Rightarrow> int" where
  "pjmedia_ulaw2linear_calc u_val =
     (if u_val = 0 then 0
      else
        let u_val = uint (NOT u_val);
            t = push_bit 3 (u_val AND 0xf) + BIAS;
            t = push_bit (nat (drop_bit 4 (u_val AND 0x70))) t
        in if u_val AND 0x80 \<noteq> 0 then BIAS - t else t - BIAS)"

definition u2a :: "8 word list" where
  "u2a =
     [1, 1, 2, 2, 3, 3, 4, 4, 5, 5, 6, 6, 7, 7, 8, 8,
      9, 10, 11, 12, 13, 14, 15, 16, 17, 18, 19, 20, 21, 22, 23, 24,
      25, 27, 29, 31, 33, 34, 35, 36, 37, 38, 39, 40, 41, 42, 43, 44,
      46, 48, 49, 50, 51, 52, 53, 54, 55, 56, 57, 58, 59, 60, 61, 62,
      64, 65, 66, 67, 68, 69, 70, 71, 72, 73, 74, 75, 76, 77, 78, 79,
      81, 82, 83, 84, 85, 86, 87, 88, 89, 90, 91, 92, 93, 94, 95, 96,
      97, 98, 99, 100, 101, 102, 103, 104, 105, 106, 107, 108, 109, 110, 111, 112,
      113, 114, 115, 116, 117, 118, 119, 120, 121, 122, 123, 124, 125, 126, 127, 128]"

definition a2u :: "8 word list" where
  "a2u =
     [1, 3, 5, 7, 9, 11, 13, 15, 16, 17, 18, 19, 20, 21, 22, 23,
      24, 25, 26, 27, 28, 29, 30, 31, 32, 32, 33, 33, 34, 34, 35, 35,
      36, 37, 38, 39, 40, 41, 42, 43, 44, 45, 46, 47, 48, 48, 49, 49,
      50, 51, 52, 53, 54, 55, 56, 57, 58, 59, 60, 61, 62, 63, 64, 64,
      65, 66, 67, 68, 69, 70, 71, 72, 73, 74, 75, 76, 77, 78, 79, 79,
      80, 81, 82, 83, 84, 85, 86, 87, 88, 89, 90, 91, 92, 93, 94, 95,
      96, 97, 98, 99, 100, 101, 102, 103, 104, 105, 106, 107, 108, 109, 110, 111,
      112, 113, 114, 115, 116, 117, 118, 119, 120, 121, 122, 123, 124, 125, 126, 127]"

definition pjmedia_alaw2ulaw_calc :: "8 word \<Rightarrow> 8 word" where
  "pjmedia_alaw2ulaw_calc aval =
     (if aval AND 0x80 \<noteq> 0 then 0xFF XOR (a2u ! unat (aval XOR 0xD5))
      else 0x7F XOR (a2u ! unat (aval XOR 0x55)))"

definition pjmedia_ulaw2alaw_calc :: "8 word \<Rightarrow> 8 word" where
  "pjmedia_ulaw2alaw_calc uval =
     (if uval AND 0x80 \<noteq> 0 then 0xD5 XOR ((u2a ! unat (0xFF XOR uval)) - 1)
      else 0x55 XOR ((u2a ! unat (0x7F XOR uval)) - 1))"

section \<open>Looking up the tables\<close>

lemma lookup_expand:
  assumes "\<forall>r\<in>set rs. 0 < fst r" "0 \<le> i" "lookup_run rs i = Some v"
  shows "nat i < length (expand rs) \<and> expand rs ! nat i = v"
  using assms
proof (induction rs arbitrary: i)
  case (Cons r rs)
  then show ?case
    using Cons.IH[of "i - fst r"]
    by (auto simp: nth_append nat_diff_distrib split: if_splits)
qed simp

text \<open>
  What holds at both ends of every run holds, if it is closed under what lies in between, for every
  entry. \<open>runs_all\<close> evaluates a property of the first and last index and the value of each run.
\<close>

primrec runs_all :: "(int \<Rightarrow> int \<Rightarrow> 'a \<Rightarrow> bool) \<Rightarrow> int \<Rightarrow> (int \<times> 'a) list \<Rightarrow> bool" where
  "runs_all P lo [] = True"
| "runs_all P lo (r # rs) = (P lo (lo + fst r - 1) (snd r) \<and> runs_all P (lo + fst r) rs)"

lemma runs_all_member:
  assumes "runs_all P lo rs" "v \<in> snd ` set rs" "\<forall>r\<in>set rs. 0 < fst r"
  shows "\<exists>a b. lo \<le> a \<and> P a b v \<and> (\<forall>j. a \<le> j \<longrightarrow> j \<le> b \<longrightarrow> lookup_run rs (j - lo) = Some v)"
  using assms
proof (induction rs arbitrary: lo)
  case (Cons r rs)
  show ?case
  proof (cases "v = snd r")
    case True
    with Cons.prems show ?thesis
      by (intro exI[of _ lo] exI[of _ "lo + fst r - 1"]) auto
  next
    case False
    then obtain a b where "lo + fst r \<le> a" "P a b v"
      "\<And>j. a \<le> j \<Longrightarrow> j \<le> b \<Longrightarrow> lookup_run rs (j - (lo + fst r)) = Some v"
      using Cons.prems Cons.IH[of "lo + fst r"] by auto
    with Cons.prems(3) show ?thesis
      by (intro exI[of _ a] exI[of _ b]) (auto simp: algebra_simps)
  qed
qed simp

lemma runs_all_lookup:
  assumes "runs_all P lo rs" "lookup_run rs (i - lo) = Some v" "lo \<le> i"
  shows "\<exists>a b. a \<le> i \<and> i \<le> b \<and> P a b v"
  using assms
proof (induction rs arbitrary: lo)
  case (Cons r rs)
  show ?case
  proof (cases "i - lo < fst r")
    case True
    with Cons.prems show ?thesis
      by (intro exI[of _ lo] exI[of _ "lo + fst r - 1"]) auto
  next
    case False
    with Cons.prems Cons.IH[of "lo + fst r"] show ?thesis by (simp add: algebra_simps)
  qed
qed simp

lemma lookup_run_total: "0 \<le> i \<Longrightarrow> i < sum_list (map fst rs) \<Longrightarrow> lookup_run rs i \<noteq> None"
  by (induction rs arbitrary: i) auto

lemma runs_sane:
  "\<forall>r\<in>set linear2alaw_runs. 0 < fst r" "\<forall>r\<in>set linear2ulaw_runs. 0 < fst r"
  "sum_list (map fst linear2alaw_runs) = 16384" "sum_list (map fst linear2ulaw_runs) = 16384"
  by (simp_all add: linear2alaw_runs_def linear2ulaw_runs_def)

text \<open>On a 16-bit sample the index is the sample divided by four, the negative ones in the upper half.\<close>

lemma tab_index_16:
  assumes "- 32768 \<le> x" "x \<le> 32767"
  shows "tab_index x = (if 0 \<le> x then x div 4 else x div 4 + 16384)"
proof -
  have "signed_take_bit 15 x = x"
    using assms by (simp add: signed_take_bit_int_eq_self)
  moreover have "y AND 0x3fff = y mod 16384" for y :: int
    using take_bit_eq_mask[of 14 y] by (simp add: take_bit_eq_mod mask_eq_exp_minus_1)
  moreover have "x div 4 mod 16384 = (if 0 \<le> x then x div 4 else x div 4 + 16384)"
  proof (cases "0 \<le> x")
    case False
    then have "(x div 4 + 16384) mod 16384 = x div 4 + 16384" using assms by (intro mod_pos_pos_trivial) auto
    then show ?thesis using False by simp
  qed (use assms in \<open>auto intro!: mod_pos_pos_trivial\<close>)
  ultimately show ?thesis by (simp add: tab_index_def drop_bit_eq_div)
qed

lemma tab_index_range:
  assumes "- 32768 \<le> x" "x \<le> 32767" shows "0 \<le> tab_index x" "tab_index x < 16384"
  using assms by (auto simp: tab_index_16)

lemma linear2alaw_run:
  assumes "- 32768 \<le> x" "x \<le> 32767"
  shows "lookup_run linear2alaw_runs (tab_index x) = Some (pjmedia_linear2alaw x)"
  using lookup_run_total[of "tab_index x" linear2alaw_runs] tab_index_range[OF assms]
    lookup_expand[OF runs_sane(1), of "tab_index x"]
  by (auto simp: pjmedia_linear2alaw_def pjmedia_linear2alaw_tab_def runs_sane)

lemma linear2ulaw_run:
  assumes "- 32768 \<le> x" "x \<le> 32767"
  shows "lookup_run linear2ulaw_runs (tab_index x) = Some (pjmedia_linear2ulaw x)"
  using lookup_run_total[of "tab_index x" linear2ulaw_runs] tab_index_range[OF assms]
    lookup_expand[OF runs_sane(2), of "tab_index x"]
  by (auto simp: pjmedia_linear2ulaw_def pjmedia_linear2ulaw_tab_def runs_sane)

section \<open>Decoding\<close>

definition all_bytes :: "8 word list" where
  "all_bytes = map of_int [0..255]"

lemma all_bytes_nth: "all_bytes ! unat b = b" "unat b < length all_bytes"
proof -
  have u: "unat b < 256" using unsigned_less[of b] by simp
  then show "unat b < length all_bytes" by (simp add: all_bytes_def)
  from u have "[0..255] ! unat b = int (unat b)" by (subst nth_upto) linarith+
  with u show "all_bytes ! unat b = b" by (simp add: all_bytes_def)
qed

lemma table_of_map: "tab = map f all_bytes \<Longrightarrow> tab ! unat b = f b"
  using all_bytes_nth by simp

lemma alaw2linear_tab_calc: "pjmedia_alaw2linear_tab = map pjmedia_alaw2linear_calc all_bytes"
  by code_simp

lemma ulaw2linear_tab_calc:
  "pjmedia_ulaw2linear_tab = map (\<lambda>b. if b = 0 then - 32124 else pjmedia_ulaw2linear_calc b) all_bytes"
  by code_simp

lemma alaw2linear_calc: "pjmedia_alaw2linear b = pjmedia_alaw2linear_calc b"
  unfolding pjmedia_alaw2linear_def by (rule table_of_map) (rule alaw2linear_tab_calc)

lemma ulaw2linear_calc:
  "pjmedia_ulaw2linear b = (if b = 0 then - 32124 else pjmedia_ulaw2linear_calc b)"
  unfolding pjmedia_ulaw2linear_def by (rule table_of_map) (rule ulaw2linear_tab_calc)

section \<open>Properties of the tables\<close>

definition idx_sample :: "int \<Rightarrow> int" where
  "idx_sample i = (if i < 8192 then 4 * i else 4 * (i - 16384))"

text \<open>The quantisation error, checked at both ends of a run.\<close>

definition err_ok :: "int \<Rightarrow> int \<Rightarrow> int \<Rightarrow> int \<Rightarrow> bool" where
  "err_ok k c d x \<longleftrightarrow> k * \<bar>d - x\<bar> \<le> \<bar>x\<bar> + c"

definition run_err_ok :: "int \<Rightarrow> int \<Rightarrow> ('a \<Rightarrow> int) \<Rightarrow> int \<Rightarrow> int \<Rightarrow> 'a \<Rightarrow> bool" where
  "run_err_ok k c dec lo hi v \<longleftrightarrow>
     (let d = dec v
      in 0 \<le> lo \<and> hi < 16384 \<and> (lo < 8192 \<longleftrightarrow> hi < 8192) \<and>
         err_ok k c d (idx_sample lo) \<and> err_ok k c d (idx_sample hi + 3))"

lemma err_ok_between:
  assumes "1 \<le> k" "err_ok k c d a" "err_ok k c d b" "a \<le> x" "x \<le> b" "0 \<le> a \<or> b < 0"
  shows "err_ok k c d x"
proof -
  have "k * a \<le> k * x" "k * x \<le> k * b" using assms by simp_all
  moreover have "0 \<le> (k - 1) * (x - a)" "0 \<le> (k - 1) * (b - x)" using assms by simp_all
  ultimately show ?thesis
    using assms by (auto simp: err_ok_def abs_if algebra_simps split: if_splits)
qed

lemma tab_index_between:
  assumes "- 32768 \<le> x" "x \<le> 32767" "lo \<le> tab_index x" "tab_index x \<le> hi" "lo < 8192 \<longleftrightarrow> hi < 8192"
    "0 \<le> lo" "hi < 16384"
  shows "idx_sample lo \<le> x" "x \<le> idx_sample hi + 3" "0 \<le> idx_sample lo \<or> idx_sample hi + 3 < 0"
  using assms by (auto simp: tab_index_16 idx_sample_def split: if_splits)

lemma alaw_runs_err: "runs_all (run_err_ok 30 317 pjmedia_alaw2linear_calc) 0 linear2alaw_runs"
  by code_simp

lemma ulaw_runs_err:
  "runs_all (run_err_ok 30 209 (\<lambda>b. if b = 0 then - 32124 else pjmedia_ulaw2linear_calc b)) 0 linear2ulaw_runs"
  by code_simp

lemma table_err:
  assumes "runs_all (run_err_ok k c dec) 0 rs" "lookup_run rs (tab_index x) = Some v"
    "- 32768 \<le> x" "x \<le> 32767" "1 \<le> k"
  shows "err_ok k c (dec v) x"
proof -
  obtain a b where "a \<le> tab_index x" "tab_index x \<le> b" "run_err_ok k c dec a b v"
    using runs_all_lookup[OF assms(1), of "tab_index x" v] assms(2) tab_index_range(1)[OF assms(3,4)] by auto
  then show ?thesis
    using err_ok_between[of k c "dec v" "idx_sample a" "idx_sample b + 3" x] assms(5)
      tab_index_between[OF assms(3,4), of a b]
    by (auto simp: run_err_ok_def Let_def)
qed

text \<open>
  C17. The quantisation error of a sample that is encoded and decoded again: at most a thirtieth of
  its magnitude, plus a constant for the quiet ones, for A-law and u-law, on every 16-bit sample.
\<close>

theorem companding_error:
  assumes "- 32768 \<le> x" "x \<le> 32767"
  shows "30 * \<bar>pjmedia_alaw2linear (pjmedia_linear2alaw x) - x\<bar> \<le> \<bar>x\<bar> + 317 \<and>
    30 * \<bar>pjmedia_ulaw2linear (pjmedia_linear2ulaw x) - x\<bar> \<le> \<bar>x\<bar> + 209"
  using table_err[OF alaw_runs_err linear2alaw_run[OF assms] assms]
    table_err[OF ulaw_runs_err linear2ulaw_run[OF assms] assms]
  by (simp add: err_ok_def alaw2linear_calc ulaw2linear_calc)

theorem companding_error_witness:
  "30 * \<bar>pjmedia_alaw2linear (pjmedia_linear2alaw (- 16381)) + 16381\<bar> \<le> 16698 \<and>
   30 * \<bar>pjmedia_ulaw2linear (pjmedia_linear2ulaw (- 16381)) + 16381\<bar> \<le> 16590"
  using companding_error[of "- 16381"] by simp

text \<open>Every code decodes into the run of samples that it encodes.\<close>

definition run_own :: "('a \<Rightarrow> int) \<Rightarrow> int \<Rightarrow> int \<Rightarrow> 'a \<Rightarrow> bool" where
  "run_own dec lo hi v \<longleftrightarrow>
     (let d = dec v
      in - 32768 \<le> d \<and> d \<le> 32767 \<and> (let i = (if 0 \<le> d then d div 4 else d div 4 + 16384) in lo \<le> i \<and> i \<le> hi))"

lemma alaw_runs_own: "runs_all (run_own pjmedia_alaw2linear_calc) 0 linear2alaw_runs"
  by code_simp

lemma ulaw_runs_own:
  "runs_all (run_own (\<lambda>b. if b = 0 then - 32124 else pjmedia_ulaw2linear_calc b)) 0 linear2ulaw_runs"
  by code_simp

lemma table_own:
  assumes "runs_all (run_own dec) 0 rs" "v \<in> snd ` set rs" "\<forall>r\<in>set rs. 0 < fst r"
  shows "- 32768 \<le> dec v \<and> dec v \<le> 32767 \<and> lookup_run rs (tab_index (dec v)) = Some v"
  using runs_all_member[OF assms] by (auto simp: run_own_def Let_def tab_index_16 split: if_splits)

text \<open>The codes in the order of the samples: A-law inverts the even bits, u-law all of them.\<close>

lemma alaw_run_codes:
  "map snd linear2alaw_runs =
     map (\<lambda>i. of_int i XOR 0xD5) [0..127] @ rev (map (\<lambda>i. of_int i XOR 0x55) [0..127])"
  by code_simp

lemma ulaw_run_codes:
  "map snd linear2ulaw_runs =
     map (\<lambda>i. of_int i XOR 0xFF) [0..127] @ rev (map (\<lambda>i. of_int i XOR 0x7F) [1..127])"
  by code_simp

lemma all_bytesD: "list_all P all_bytes \<Longrightarrow> P b"
  using all_bytes_nth[of b] by (metis list_all_length)

lemma alaw_code_run: "b \<in> snd ` set linear2alaw_runs"
proof -
  have "uint (b XOR 0xD5) \<le> 127 \<or> uint (b XOR 0x55) \<le> 127"
    by (rule all_bytesD[of "\<lambda>b. uint (b XOR 0xD5) \<le> 127 \<or> uint (b XOR 0x55) \<le> 127"]) code_simp
  moreover have "b = of_int (uint (b XOR m)) XOR m" for m by (simp add: xor.assoc)
  ultimately have "b \<in> (\<lambda>i. of_int i XOR 0xD5) ` {0..127} \<union> (\<lambda>i. of_int i XOR 0x55) ` {0..127}"
    by (metis (mono_tags, lifting) UnCI atLeastAtMost_iff image_eqI uint_nonnegative)
  also have "\<dots> = set (map snd linear2alaw_runs)" unfolding alaw_run_codes by simp
  finally show ?thesis by simp
qed

lemma ulaw_code_run:
  assumes "b \<noteq> 0x7F" shows "b \<in> snd ` set linear2ulaw_runs"
proof -
  have "b = 0x7F \<or> uint (b XOR 0xFF) \<le> 127 \<or> uint (b XOR 0x7F) \<le> 127 \<and> 1 \<le> uint (b XOR 0x7F)"
    by (rule all_bytesD[of "\<lambda>b. b = 0x7F \<or> uint (b XOR 0xFF) \<le> 127 \<or>
          uint (b XOR 0x7F) \<le> 127 \<and> 1 \<le> uint (b XOR 0x7F)"]) code_simp
  moreover have "b = of_int (uint (b XOR m)) XOR m" for m by (simp add: xor.assoc)
  ultimately have "b \<in> (\<lambda>i. of_int i XOR 0xFF) ` {0..127} \<union> (\<lambda>i. of_int i XOR 0x7F) ` {1..127}"
    using assms by (metis (mono_tags, lifting) UnCI atLeastAtMost_iff image_eqI uint_nonnegative)
  also have "\<dots> = set (map snd linear2ulaw_runs)" unfolding ulaw_run_codes by simp
  finally show ?thesis by simp
qed

lemma alaw_own:
  "- 32768 \<le> pjmedia_alaw2linear b" "pjmedia_alaw2linear b \<le> 32767"
  "pjmedia_linear2alaw (pjmedia_alaw2linear b) = b"
  using table_own[OF alaw_runs_own alaw_code_run[of b] runs_sane(1)] linear2alaw_run[of "pjmedia_alaw2linear b"]
  by (auto simp: alaw2linear_calc)

lemma ulaw_own:
  assumes "b \<noteq> 0x7F"
  shows "- 32768 \<le> pjmedia_ulaw2linear b" "pjmedia_ulaw2linear b \<le> 32767"
  "pjmedia_linear2ulaw (pjmedia_ulaw2linear b) = b"
  using table_own[OF ulaw_runs_own ulaw_code_run[OF assms] runs_sane(2)] linear2ulaw_run[of "pjmedia_ulaw2linear b"]
  by (simp_all add: ulaw2linear_calc)

text \<open>
  C16. Decoding loses nothing: a code that is decoded and encoded again is the same code, so that
  a conference bridge can pass G.711 through linear samples. The only exception is the negative
  zero of u-law, which comes back as the positive one.
\<close>

theorem companding_roundtrip:
  "pjmedia_linear2alaw (pjmedia_alaw2linear b) = b \<and>
   pjmedia_linear2ulaw (pjmedia_ulaw2linear b) = (if b = 0x7F then 0xFF else b)"
proof (cases "b = 0x7F")
  case True
  have "pjmedia_ulaw2linear 0x7F = pjmedia_ulaw2linear 0xFF" by (simp add: ulaw2linear_calc) code_simp
  then show ?thesis using True alaw_own(3)[of b] ulaw_own(3)[of "0xFF"] by simp
next
  case False
  then show ?thesis using alaw_own(3)[of b] ulaw_own(3)[of b] by simp
qed

section \<open>The tables and the computation\<close>

lemma search_mono: "a \<le> b \<Longrightarrow> search a t \<le> search b t"
  by (induction t) auto

lemma div_between: "a \<le> x \<Longrightarrow> x \<le> b \<Longrightarrow> a div 2 ^ n = b div 2 ^ n \<Longrightarrow> x div 2 ^ n = a div 2 ^ n" for a b x :: int
  using zdiv_mono1[of a x "2 ^ n"] zdiv_mono1[of x b "2 ^ n"] by simp

text \<open>The samples of a run share their segment and their quantisation step.\<close>

definition same_step :: "(nat \<Rightarrow> nat) \<Rightarrow> int \<Rightarrow> int \<Rightarrow> bool" where
  "same_step sh a b \<longleftrightarrow>
     (let s = search a seg_end in search b seg_end = s \<and> drop_bit (sh s) a = drop_bit (sh s) b)"

lemma same_step_between:
  assumes "same_step sh a b" "a \<le> x" "x \<le> b"
  shows "search x seg_end = search a seg_end"
    "drop_bit (sh (search a seg_end)) x = drop_bit (sh (search a seg_end)) a"
  using assms search_mono[of a x seg_end] search_mono[of x b seg_end]
    div_between[of a x b "sh (search a seg_end)"]
  by (auto simp: same_step_def Let_def drop_bit_eq_div)

definition alaw_shift :: "nat \<Rightarrow> nat" where
  "alaw_shift seg = (if seg < 2 then 4 else seg + 3)"

lemma alaw_calc_const:
  assumes "same_step alaw_shift a b" "0 \<le> a" "a \<le> x" "x \<le> b"
  shows "pjmedia_linear2alaw_calc x = pjmedia_linear2alaw_calc a"
  using same_step_between[OF assms(1,3,4)] assms(2,3)
  by (auto simp: pjmedia_linear2alaw_calc_def alaw_shift_def Let_def split: if_splits)

lemma ulaw_calc_const:
  assumes "same_step (\<lambda>seg. seg + 3) (a + BIAS) (b + BIAS)" "0 \<le> a" "a \<le> x" "x \<le> b"
  shows "pjmedia_linear2ulaw_calc x = pjmedia_linear2ulaw_calc a"
  using same_step_between[OF assms(1), of "x + BIAS"] assms(2-4)
  by (simp add: pjmedia_linear2ulaw_calc_def Let_def)

definition run_alaw_calc :: "int \<Rightarrow> int \<Rightarrow> 8 word \<Rightarrow> bool" where
  "run_alaw_calc lo hi v \<longleftrightarrow>
     lo \<ge> 8192 \<or> 0 \<le> lo \<and> same_step alaw_shift (4 * lo) (4 * hi + 3) \<and> pjmedia_linear2alaw_calc (4 * lo) = v"

definition run_ulaw_calc :: "int \<Rightarrow> int \<Rightarrow> 8 word \<Rightarrow> bool" where
  "run_ulaw_calc lo hi v \<longleftrightarrow>
     lo \<ge> 8192 \<or>
     0 \<le> lo \<and> same_step (\<lambda>seg. seg + 3) (4 * lo + BIAS) (min (4 * hi + 3) (32767 - BIAS) + BIAS) \<and>
     pjmedia_linear2ulaw_calc (4 * lo) = v \<and> (4 * hi + 3 + BIAS > 32767 \<longrightarrow> v = 0x80)"

lemma alaw_runs_calc: "runs_all run_alaw_calc 0 linear2alaw_runs"
  by code_simp

lemma ulaw_runs_calc: "runs_all run_ulaw_calc 0 linear2ulaw_runs"
  by code_simp

lemma alaw_table_calc:
  assumes "0 \<le> x" "x \<le> 32767"
  shows "pjmedia_linear2alaw x = pjmedia_linear2alaw_calc x"
proof -
  obtain a b where "a \<le> tab_index x" "tab_index x \<le> b" "run_alaw_calc a b (pjmedia_linear2alaw x)"
    using runs_all_lookup[OF alaw_runs_calc, of "tab_index x"] linear2alaw_run[of x] tab_index_range[of x] assms by auto
  then show ?thesis
    using assms alaw_calc_const[of "4 * a" "4 * b + 3" x] by (auto simp: run_alaw_calc_def tab_index_16)
qed

lemma ulaw_calc_clips: "32767 < x + BIAS \<Longrightarrow> 0 \<le> x \<Longrightarrow> pjmedia_linear2ulaw_calc x = 0x80"
  by (simp add: pjmedia_linear2ulaw_calc_def seg_end_def)

lemma ulaw_table_calc:
  assumes "0 \<le> x" "x \<le> 32767"
  shows "pjmedia_linear2ulaw x = pjmedia_linear2ulaw_calc x"
proof -
  obtain a b where "a \<le> tab_index x" "tab_index x \<le> b" "run_ulaw_calc a b (pjmedia_linear2ulaw x)"
    using runs_all_lookup[OF ulaw_runs_calc, of "tab_index x"] linear2ulaw_run[of x] tab_index_range[of x] assms by auto
  then show ?thesis
    using assms ulaw_calc_const[of "4 * a" "min (4 * b + 3) (32767 - BIAS)" x] ulaw_calc_clips[of x]
    by (cases "x + BIAS \<le> 32767") (auto simp: run_ulaw_calc_def tab_index_16)
qed

text \<open>
  The tables and the computation are the same codec on the non-negative samples and for every
  code but the loudest negative one of u-law, which the computation decodes to silence.
\<close>

theorem tables_agree:
  assumes "0 \<le> x" "x \<le> 32767"
  shows "pjmedia_linear2alaw x = pjmedia_linear2alaw_calc x \<and> pjmedia_linear2ulaw x = pjmedia_linear2ulaw_calc x \<and>
    pjmedia_alaw2linear b = pjmedia_alaw2linear_calc b \<and>
    pjmedia_ulaw2linear b = (if b = 0 then - 32124 else pjmedia_ulaw2linear_calc b)"
  using alaw_table_calc[OF assms] ulaw_table_calc[OF assms] alaw2linear_calc[of b] ulaw2linear_calc[of b] by simp

theorem tables_agree_witness:
  "pjmedia_linear2alaw 12345 = pjmedia_linear2alaw_calc 12345 \<and> pjmedia_ulaw2linear 0 = - 32124"
  using tables_agree[of 12345 0] by simp

text \<open>
  The computation encodes the quietest negative samples as a loud one: below the offset of eight
  the magnitude becomes negative and its bits fill the quantisation field.
\<close>

theorem alaw_small_negative:
  assumes "- 8 < x" "x < 0"
  shows "pjmedia_alaw2linear_calc (pjmedia_linear2alaw_calc x) = - 248"
proof -
  from assms consider "x = -1" | "x = -2" | "x = -3" | "x = -4" | "x = -5" | "x = -6" | "x = -7" by linarith
  moreover have "list_all (\<lambda>x. pjmedia_alaw2linear_calc (pjmedia_linear2alaw_calc x) = - 248) [-1, -2, -3, -4, -5, -6, -7]"
    by code_simp
  ultimately show ?thesis by cases simp_all
qed

theorem alaw_small_negative_witness:
  "pjmedia_alaw2linear_calc (pjmedia_linear2alaw_calc (- 1)) = - 248"
  using alaw_small_negative[of "- 1"] by simp

text \<open>
  The shortcut of the computation for the code zero turns the loudest negative samples into silence.
\<close>

theorem ulaw_loudest_silent:
  assumes "- 32768 \<le> x" "x \<le> - 31612"
  shows "pjmedia_ulaw2linear_calc (pjmedia_linear2ulaw_calc x) = 0"
proof -
  have "same_step (\<lambda>seg. seg + 3) 31744 32767" by code_simp
  from same_step_between[OF this, of "BIAS - x"] assms
  have "BIAS - x \<le> 32767 \<Longrightarrow> search (BIAS - x) seg_end = 7 \<and> drop_bit 10 (BIAS - x) = (31 :: int)"
    by (simp add: BIAS_def seg_end_def)
  then have "pjmedia_linear2ulaw_calc x = 0"
    using assms by (cases "BIAS - x \<le> 32767") (auto simp: pjmedia_linear2ulaw_calc_def seg_end_def)
  then show ?thesis by (simp add: pjmedia_ulaw2linear_calc_def)
qed

theorem ulaw_loudest_silent_witness:
  "pjmedia_ulaw2linear_calc (pjmedia_linear2ulaw_calc (- 32000)) = 0"
  using ulaw_loudest_silent[of "- 32000"] by simp

end
