(* ===== verification/Silence_Det.thy ===== *)
theory Silence_Det
  imports Alaw_Ulaw
begin

unbundle bit_operations_syntax

text \<open>
  The silence detector of the encoders (\<^verbatim>\<open>pjmedia/src/pjmedia/silencedet.c\<close>) and the packet loss
  concealment by replay (\<^verbatim>\<open>plc_common.c\<close>). Counters and levels are 32-bit words, the arguments of
  type \<^verbatim>\<open>int\<close> are integers. The name of a detector, which only the log uses, is left out. \<open>None\<close>
  is a division by zero.
\<close>

section \<open>The detector\<close>

datatype vad_mode = VAD_MODE_NONE | VAD_MODE_FIXED | VAD_MODE_ADAPTIVE

record silence_det =
  sd_mode :: vad_mode
  sd_ptime :: "32 word"
  min_signal_cnt :: "32 word"
  min_silence_cnt :: "32 word"
  recalc_cnt :: "32 word"
  in_talk :: bool
  cur_cnt :: "32 word"
  signal_cnt :: "32 word"
  silence_cnt :: "32 word"
  cur_threshold :: "32 word"
  weakest_signal :: "32 word"
  loudest_silence :: "32 word"

definition PJMEDIA_SILENCE_DET_THRESHOLD :: int where
  "PJMEDIA_SILENCE_DET_THRESHOLD = 4"

definition pjmedia_silence_det_set_adaptive :: "silence_det \<Rightarrow> int \<Rightarrow> silence_det" where
  "pjmedia_silence_det_set_adaptive sd threshold =
     (let threshold = (if threshold < 0 then PJMEDIA_SILENCE_DET_THRESHOLD else threshold)
      in sd\<lparr>sd_mode := VAD_MODE_ADAPTIVE, cur_threshold := of_int threshold\<rparr>)"

definition pjmedia_silence_det_set_fixed :: "silence_det \<Rightarrow> int \<Rightarrow> silence_det" where
  "pjmedia_silence_det_set_fixed sd threshold =
     (let threshold = (if threshold < 0 then PJMEDIA_SILENCE_DET_THRESHOLD else threshold)
      in sd\<lparr>sd_mode := VAD_MODE_FIXED, cur_threshold := of_int threshold\<rparr>)"

text \<open>The \<^verbatim>\<open>int\<close> times are converted to \<^verbatim>\<open>unsigned\<close> by the division.\<close>

definition pjmedia_silence_det_set_params :: "silence_det \<Rightarrow> int \<Rightarrow> int \<Rightarrow> int \<Rightarrow> silence_det option" where
  "pjmedia_silence_det_set_params sd min_silence min_signal recalc_time =
     (if sd_ptime sd = 0 then None
      else
        let min_silence = (if min_silence = - 1 then 500 else of_int min_silence);
            min_signal = (if min_signal < 0 then sd_ptime sd else of_int min_signal);
            recalc_time = (if recalc_time < 0 then 2000 else of_int recalc_time)
        in Some (sd\<lparr>min_signal_cnt := min_signal div sd_ptime sd,
                    min_silence_cnt := min_silence div sd_ptime sd,
                    recalc_cnt := recalc_time div sd_ptime sd\<rparr>))"

definition pjmedia_silence_det_create :: "32 word \<Rightarrow> 32 word \<Rightarrow> silence_det option" where
  "pjmedia_silence_det_create clock_rate samples_per_frame =
     (if clock_rate = 0 then None
      else
        let sd = \<lparr>sd_mode = VAD_MODE_NONE, sd_ptime = samples_per_frame * 1000 div clock_rate,
                  min_signal_cnt = 0, min_silence_cnt = 0, recalc_cnt = 0, in_talk = False, cur_cnt = 0,
                  signal_cnt = 0, silence_cnt = 0, cur_threshold = 0, weakest_signal = 0xFFFFFFFF,
                  loudest_silence = 0\<rparr>
        in map_option (\<lambda>sd. pjmedia_silence_det_set_adaptive (sd\<lparr>in_talk := False\<rparr>) (- 1))
             (pjmedia_silence_det_set_params sd (- 1) (- 1) (- 1)))"

definition pjmedia_silence_det_disable :: "silence_det \<Rightarrow> silence_det" where
  "pjmedia_silence_det_disable sd = sd\<lparr>sd_mode := VAD_MODE_NONE\<rparr>"

definition pjmedia_calc_avg_signal :: "int list \<Rightarrow> 32 word" where
  "pjmedia_calc_avg_signal samples =
     (if samples = [] then 0
      else
        let sum = foldl (\<lambda>sum pcm. if pcm < 0 then sum - of_int pcm else sum + of_int pcm) (0 :: 32 word) samples
        in of_nat (unat sum div length samples))"

section \<open>Deciding on a frame\<close>

definition swap_mode :: "silence_det \<Rightarrow> bool \<Rightarrow> silence_det" where
  "swap_mode sd have_signal =
     (if in_talk sd \<noteq> have_signal then
        let sd = sd\<lparr>cur_cnt := cur_cnt sd + 1\<rparr>;
            limit = (if in_talk sd then min_silence_cnt sd else min_signal_cnt sd)
        in if cur_cnt sd > limit
           then sd\<lparr>in_talk := \<not> in_talk sd, weakest_signal := 0xFFFFFFFF, loudest_silence := 0,
                   signal_cnt := 0, silence_cnt := 0, cur_cnt := 0\<rparr>
           else sd
      else sd\<lparr>cur_cnt := 0\<rparr>)"

definition count_frame :: "silence_det \<Rightarrow> bool \<Rightarrow> 32 word \<Rightarrow> silence_det" where
  "count_frame sd have_signal level =
     (if have_signal
      then sd\<lparr>weakest_signal := (if level < weakest_signal sd then level else weakest_signal sd),
              signal_cnt := signal_cnt sd + 1\<rparr>
      else sd\<lparr>loudest_silence := (if level > loudest_silence sd then level else loudest_silence sd),
              silence_cnt := silence_cnt sd + 1\<rparr>)"

definition new_threshold :: "silence_det \<Rightarrow> 32 word" where
  "new_threshold sd =
     (let pct_signal = signal_cnt sd * 100 div (signal_cnt sd + silence_cnt sd)
      in if pct_signal > 95 then cur_threshold sd + (weakest_signal sd + 1 - cur_threshold sd) div 2
         else if pct_signal < 5 then (cur_threshold sd + loudest_silence sd) div 2 + 1
         else if pct_signal > 80 then cur_threshold sd + 1
         else if pct_signal < 10 then cur_threshold sd - 1
         else cur_threshold sd)"

definition recalculate :: "silence_det \<Rightarrow> silence_det" where
  "recalculate sd =
     (if signal_cnt sd + silence_cnt sd > recalc_cnt sd then
        let sd = (if sd_mode sd = VAD_MODE_ADAPTIVE then sd\<lparr>cur_threshold := new_threshold sd\<rparr> else sd)
        in sd\<lparr>weakest_signal := 0xFFFFFFFF, loudest_silence := 0, signal_cnt := 0, silence_cnt := 0\<rparr>
      else sd)"

definition pjmedia_silence_det_apply :: "silence_det \<Rightarrow> 32 word \<Rightarrow> silence_det \<times> bool" where
  "pjmedia_silence_det_apply sd level =
     (if sd_mode sd = VAD_MODE_NONE then (sd, False)
      else
        let level = ucast (pjmedia_linear2ulaw (uint level)) XOR 0xff;
            have_signal = (level > cur_threshold sd);
            sd = recalculate (count_frame (swap_mode sd have_signal) have_signal level)
        in (sd, \<not> in_talk sd))"

definition pjmedia_silence_det_detect :: "silence_det \<Rightarrow> int list \<Rightarrow> silence_det \<times> bool \<times> 32 word" where
  "pjmedia_silence_det_detect sd samples =
     (let level = pjmedia_calc_avg_signal samples;
          (sd, silent) = pjmedia_silence_det_apply sd level
      in (sd, silent, level))"

section \<open>Packet loss concealment by replay\<close>

record replay_plc =
  plc_size :: nat
  replay_cnt :: "32 word"
  plc_frame :: "int list"

definition plc_replay_create :: "nat \<Rightarrow> replay_plc" where
  "plc_replay_create samples_per_frame =
     \<lparr>plc_size = samples_per_frame * 2, replay_cnt = 0, plc_frame = replicate samples_per_frame 0\<rparr>"

definition plc_replay_save :: "replay_plc \<Rightarrow> int list \<Rightarrow> replay_plc" where
  "plc_replay_save plc frame = plc\<lparr>plc_frame := take (plc_size plc div 2) frame, replay_cnt := 0\<rparr>"

text \<open>The frame is replayed, each time at half of the amplitude, for fifteen frames at most.\<close>

definition plc_replay_generate :: "replay_plc \<Rightarrow> replay_plc \<times> int list" where
  "plc_replay_generate plc =
     (let plc = plc\<lparr>replay_cnt := replay_cnt plc + 1\<rparr>
      in if replay_cnt plc < 16
         then (plc\<lparr>plc_frame := map (drop_bit 1) (plc_frame plc)\<rparr>, plc_frame plc)
         else (plc, replicate (plc_size plc div 2) 0))"

section \<open>The decisions of a detector with a fixed threshold\<close>

definition loud :: "32 word \<Rightarrow> 32 word \<Rightarrow> bool" where
  "loud threshold level \<longleftrightarrow> ucast (pjmedia_linear2ulaw (uint level)) XOR 0xff > threshold"

text \<open>
  The specification: a state that follows its input after more than \<open>up\<close> (from silence to talk) or
  \<open>down\<close> (from talk to silence) frames in a row that differ from it.
\<close>

fun debounce :: "nat \<Rightarrow> nat \<Rightarrow> bool \<Rightarrow> nat \<Rightarrow> bool list \<Rightarrow> bool list" where
  "debounce up down talk n [] = []"
| "debounce up down talk n (s # ss) =
     (if s = talk then talk # debounce up down talk 0 ss
      else if n + 1 > (if talk then down else up) then (\<not> talk) # debounce up down (\<not> talk) 0 ss
      else talk # debounce up down talk (n + 1) ss)"

fun detect_run :: "silence_det \<Rightarrow> 32 word list \<Rightarrow> silence_det \<times> bool list" where
  "detect_run sd [] = (sd, [])"
| "detect_run sd (l # ls) =
     (let (sd, silent) = pjmedia_silence_det_apply sd l; (sd, rs) = detect_run sd ls in (sd, silent # rs))"

lemma count_recalc_keeps:
  "in_talk (recalculate (count_frame sd h l)) = in_talk sd"
  "cur_cnt (recalculate (count_frame sd h l)) = cur_cnt sd"
  "sd_mode (recalculate (count_frame sd h l)) = sd_mode sd"
  "min_signal_cnt (recalculate (count_frame sd h l)) = min_signal_cnt sd"
  "min_silence_cnt (recalculate (count_frame sd h l)) = min_silence_cnt sd"
  "recalc_cnt (recalculate (count_frame sd h l)) = recalc_cnt sd"
  "sd_mode sd = VAD_MODE_FIXED \<Longrightarrow> cur_threshold (recalculate (count_frame sd h l)) = cur_threshold sd"
  by (simp_all add: recalculate_def count_frame_def)

lemma swap_mode_keeps:
  "sd_mode (swap_mode sd h) = sd_mode sd" "cur_threshold (swap_mode sd h) = cur_threshold sd"
  "min_signal_cnt (swap_mode sd h) = min_signal_cnt sd" "min_silence_cnt (swap_mode sd h) = min_silence_cnt sd"
  "recalc_cnt (swap_mode sd h) = recalc_cnt sd"
  by (simp_all add: swap_mode_def Let_def)

lemma unat_plus_one: "unat w + 1 < 2 ^ 32 \<Longrightarrow> unat (w + 1 :: 32 word) = unat w + 1"
  by (simp add: unat_plus_if')

lemma swap_mode_debounce:
  assumes "unat (cur_cnt sd) \<le> unat (if in_talk sd then min_silence_cnt sd else min_signal_cnt sd)"
    "unat (if in_talk sd then min_silence_cnt sd else min_signal_cnt sd) + 1 < 2 ^ 32"
  shows "in_talk (swap_mode sd h) =
      (if h = in_talk sd then in_talk sd
       else if unat (cur_cnt sd) + 1 > unat (if in_talk sd then min_silence_cnt sd else min_signal_cnt sd)
       then \<not> in_talk sd else in_talk sd)"
    "unat (cur_cnt (swap_mode sd h)) =
      (if h = in_talk sd then 0
       else if unat (cur_cnt sd) + 1 > unat (if in_talk sd then min_silence_cnt sd else min_signal_cnt sd)
       then 0 else unat (cur_cnt sd) + 1)"
  using assms unat_plus_one[of "cur_cnt sd"]
  by (auto simp: swap_mode_def Let_def word_less_nat_alt split: if_splits)

lemma detect_run_debounces:
  assumes "sd_mode sd = VAD_MODE_FIXED"
    "unat (cur_cnt sd) \<le> unat (if in_talk sd then min_silence_cnt sd else min_signal_cnt sd)"
    "unat (min_silence_cnt sd) + 1 < 2 ^ 32" "unat (min_signal_cnt sd) + 1 < 2 ^ 32"
  shows "map Not (snd (detect_run sd levels)) =
    debounce (unat (min_signal_cnt sd)) (unat (min_silence_cnt sd)) (in_talk sd) (unat (cur_cnt sd))
      (map (loud (cur_threshold sd)) levels)"
  using assms
proof (induction levels arbitrary: sd)
  case (Cons l ls)
  let ?h = "loud (cur_threshold sd) l"
  let ?level = "ucast (pjmedia_linear2ulaw (uint l)) XOR 0xff :: 32 word"
  let ?sd = "recalculate (count_frame (swap_mode sd ?h) ?h ?level)"
  have a: "pjmedia_silence_det_apply sd l = (?sd, \<not> in_talk ?sd)"
    using Cons.prems(1) by (simp add: pjmedia_silence_det_apply_def loud_def Let_def)
  have b: "unat (if in_talk sd then min_silence_cnt sd else min_signal_cnt sd) + 1 < 2 ^ 32"
    using Cons.prems(3,4) by simp
  note t = swap_mode_debounce[OF Cons.prems(2) b, of ?h]
  have "map Not (snd (detect_run ?sd ls)) =
      debounce (unat (min_signal_cnt sd)) (unat (min_silence_cnt sd)) (in_talk ?sd) (unat (cur_cnt ?sd))
        (map (loud (cur_threshold sd)) ls)"
    using Cons.IH[of ?sd] Cons.prems t
    by (auto simp: count_recalc_keeps swap_mode_keeps split: if_splits)
  then show ?case
    using t by (auto simp: a case_prod_beta Let_def count_recalc_keeps split: if_splits)
qed simp

lemma loud_examples: "loud 4 1000" "\<not> loud 4 3" "\<not> loud 4 0"
  by (simp_all add: loud_def ulaw_table_calc) (code_simp+)

text \<open>
  C18. With a fixed threshold the detector is the specified debouncer of the frames that are louder
  than the threshold: whatever the levels are, its reports are the complement of \<open>debounce\<close>. A
  talk burst starts after more than \<open>min_signal_cnt\<close> loud frames in a row and ends after more than
  \<open>min_silence_cnt\<close> quiet ones.
\<close>

theorem silence_det_debounces:
  assumes "sd_mode sd = VAD_MODE_FIXED"
    "unat (cur_cnt sd) \<le> unat (if in_talk sd then min_silence_cnt sd else min_signal_cnt sd)"
    "unat (min_silence_cnt sd) + 1 < 2 ^ 32" "unat (min_signal_cnt sd) + 1 < 2 ^ 32"
  shows "map Not (snd (detect_run sd levels)) =
    debounce (unat (min_signal_cnt sd)) (unat (min_silence_cnt sd)) (in_talk sd) (unat (cur_cnt sd))
      (map (loud (cur_threshold sd)) levels)"
  using assms by (rule detect_run_debounces)

theorem silence_det_debounces_witness:
  "map Not (snd (detect_run \<lparr>sd_mode = VAD_MODE_FIXED, sd_ptime = 10, min_signal_cnt = 1, min_silence_cnt = 2,
      recalc_cnt = 200, in_talk = False, cur_cnt = 0, signal_cnt = 0, silence_cnt = 0, cur_threshold = 4,
      weakest_signal = 0xFFFFFFFF, loudest_silence = 0\<rparr> [1000, 1000, 3, 1000, 0, 3, 0])) =
   [False, True, True, True, True, True, False]"
  by (subst silence_det_debounces) (simp_all add: loud_examples)

text \<open>
  After a talk burst silence is reported only when more than \<open>min_silence_cnt\<close> quiet frames have
  passed: the tail of the last word is still sent.
\<close>

lemma debounce_quiet_tail:
  "debounce up (n + d) True n (replicate k False) = replicate (min k d) True @ replicate (k - d) False"
proof (induction k arbitrary: n d)
  case (Suc k)
  have "debounce up down False 0 (replicate k False) = replicate k False" for down by (induction k) auto
  then show ?case using Suc[of "Suc n" "d - 1"] by (cases d) auto
qed simp

theorem speech_hangover:
  assumes "sd_mode sd = VAD_MODE_FIXED" "in_talk sd" "cur_cnt sd = 0" "\<forall>l\<in>set levels. \<not> loud (cur_threshold sd) l"
    "unat (min_silence_cnt sd) + 1 < 2 ^ 32" "unat (min_signal_cnt sd) + 1 < 2 ^ 32"
  shows "map Not (snd (detect_run sd levels)) =
    replicate (min (length levels) (unat (min_silence_cnt sd))) True @
    replicate (length levels - unat (min_silence_cnt sd)) False"
proof -
  have "map (loud (cur_threshold sd)) levels = replicate (length levels) False"
    using assms(4) by (induction levels) auto
  then show ?thesis
    using detect_run_debounces[of sd levels] assms debounce_quiet_tail[of _ 0 _ "length levels"] by simp
qed

section \<open>The adaptive threshold\<close>

text \<open>
  Between two adjustments the threshold does not move, so what was measured as a signal lies above
  it and what was measured as silence does not.
\<close>

definition sd_inv :: "silence_det \<Rightarrow> bool" where
  "sd_inv sd \<longleftrightarrow>
     unat (cur_threshold sd) \<le> 256 \<and> unat (loudest_silence sd) \<le> 255 \<and>
     (signal_cnt sd = 0 \<and> weakest_signal sd = 0xFFFFFFFF \<or>
      unat (cur_threshold sd) < unat (weakest_signal sd) \<and> unat (weakest_signal sd) \<le> 255) \<and>
     unat (signal_cnt sd) + unat (silence_cnt sd) \<le> unat (recalc_cnt sd) \<and> unat (recalc_cnt sd) < 40000000"

lemma level_bound: "unat (ucast b XOR 0xff :: 32 word) \<le> 255" for b :: "8 word"
proof -
  have "ucast b XOR 0xff = (ucast (b XOR 0xff) :: 32 word)"
    by (rule all_bytesD[of "\<lambda>b. ucast b XOR 0xff = (ucast (b XOR 0xff :: 8 word) :: 32 word)"]) code_simp
  moreover have "unat (ucast (b XOR 0xff) :: 32 word) < 256"
  proof -
    have "unat (b XOR 0xff) < 2 ^ 8" using unsigned_less[of "b XOR 0xff", where ?'a = nat] by simp
    then show ?thesis by (simp add: unsigned_ucast_eq take_bit_nat_eq_self)
  qed
  ultimately show ?thesis by simp
qed

lemma swap_count_inv:
  fixes sd level h
  defines "sd' \<equiv> count_frame (swap_mode sd h) h level"
  assumes "sd_inv sd" "unat level \<le> 255" "h \<longleftrightarrow> level > cur_threshold sd"
  shows "unat (loudest_silence sd') \<le> 255"
    "signal_cnt sd' = 0 \<and> weakest_signal sd' = 0xFFFFFFFF \<or>
     unat (cur_threshold sd) < unat (weakest_signal sd') \<and> unat (weakest_signal sd') \<le> 255"
    "unat (signal_cnt sd') + unat (silence_cnt sd') \<le> unat (recalc_cnt sd) + 1"
    "cur_threshold sd' = cur_threshold sd" "recalc_cnt sd' = recalc_cnt sd" "sd_mode sd' = sd_mode sd"
proof -
  have "unat (signal_cnt sd + 1) = unat (signal_cnt sd) + 1" "unat (silence_cnt sd + 1) = unat (silence_cnt sd) + 1"
    using unat_plus_one[of "signal_cnt sd"] unat_plus_one[of "silence_cnt sd"] assms(2)
    by (auto simp: sd_inv_def)
  then show "unat (loudest_silence sd') \<le> 255"
    "signal_cnt sd' = 0 \<and> weakest_signal sd' = 0xFFFFFFFF \<or>
     unat (cur_threshold sd) < unat (weakest_signal sd') \<and> unat (weakest_signal sd') \<le> 255"
    "unat (signal_cnt sd') + unat (silence_cnt sd') \<le> unat (recalc_cnt sd) + 1"
    "cur_threshold sd' = cur_threshold sd" "recalc_cnt sd' = recalc_cnt sd" "sd_mode sd' = sd_mode sd"
    using assms(2-4)
    by (auto simp: sd'_def sd_inv_def swap_mode_def count_frame_def Let_def word_less_nat_alt split: if_splits)
qed

lemma pct_signal_zero:
  assumes "unat (s * 100 div (s + q) :: 32 word) > 80"
  shows "s \<noteq> 0"
  using assms by auto

text \<open>The adjusted threshold, read as a natural number.\<close>

lemma new_threshold_bound:
  assumes "unat (cur_threshold sd) \<le> 256" "unat (loudest_silence sd) \<le> 255"
    "signal_cnt sd = 0 \<or> unat (cur_threshold sd) < unat (weakest_signal sd) \<and> unat (weakest_signal sd) \<le> 255"
  shows "unat (new_threshold sd) \<le> 256 \<or> cur_threshold sd = 0 \<and> new_threshold sd = 0xFFFFFFFF"
proof -
  let ?p = "signal_cnt sd * 100 div (signal_cnt sd + silence_cnt sd)"
  let ?c = "unat (cur_threshold sd)" and ?w = "unat (weakest_signal sd)"
  consider (hi) "?p > 95" | (lo) "?p < 5" | (up) "?p > 80" "\<not> ?p > 95" | (dn) "?p < 10" "\<not> ?p < 5"
    | (same) "\<not> ?p > 80" "\<not> ?p < 10" by fastforce
  then show ?thesis
  proof cases
    case hi
    then have w: "?c < ?w" "?w \<le> 255" using assms(3) by auto
    then have "unat (weakest_signal sd + 1 - cur_threshold sd) = ?w + 1 - ?c"
      by (subst unat_sub) (auto simp: word_le_nat_alt unat_plus_one)
    then have "unat ((weakest_signal sd + 1 - cur_threshold sd) div 2) = (?w + 1 - ?c) div 2"
      by (simp add: unat_div)
    moreover have "?c + (?w + 1 - ?c) div 2 < 2 ^ 32" using w by simp
    ultimately have "unat (new_threshold sd) = ?c + (?w + 1 - ?c) div 2"
      using hi w by (simp add: new_threshold_def unat_plus_if')
    then have "unat (new_threshold sd) \<le> 256" using w by linarith
    then show ?thesis by simp
  next
    case lo
    then have "\<not> ?p > 95" by (auto simp: word_less_nat_alt)
    then have "unat (new_threshold sd) = (?c + unat (loudest_silence sd)) div 2 + 1"
      using lo assms(1,2) by (simp add: new_threshold_def unat_plus_if' unat_div)
    then have "unat (new_threshold sd) \<le> 256" using assms(1,2) by linarith
    then show ?thesis by simp
  next
    case up
    then have "\<not> ?p < 5" by (auto simp: word_less_nat_alt)
    moreover have "?c < 255" using up assms(3) by auto
    ultimately show ?thesis using up by (simp add: new_threshold_def unat_plus_one)
  next
    case dn
    then have "\<not> ?p > 95" "\<not> ?p > 80" by (auto simp: word_less_nat_alt)
    then have n: "new_threshold sd = cur_threshold sd - 1" using dn by (simp add: new_threshold_def)
    show ?thesis
    proof (cases "cur_threshold sd = 0")
      case False
      then have "unat (cur_threshold sd - 1) = ?c - 1" by (simp add: unat_minus_one)
      then have "unat (new_threshold sd) \<le> 256" using n assms(1) by simp
      then show ?thesis by simp
    qed (use n in simp)
  next
    case same
    then have "\<not> ?p > 95" "\<not> ?p < 5" by (auto simp: word_less_nat_alt)
    then show ?thesis using same assms(1) by (simp add: new_threshold_def)
  qed
qed

text \<open>
  The threshold stays in the range of the levels while the detector runs, except that it falls
  from zero to the largest unsigned value when it is lowered once more.
\<close>

theorem threshold_bounded:
  assumes "sd_inv sd"
  shows "sd_inv (fst (pjmedia_silence_det_apply sd level)) \<or>
    cur_threshold sd = 0 \<and> cur_threshold (fst (pjmedia_silence_det_apply sd level)) = 0xFFFFFFFF"
proof (cases "sd_mode sd = VAD_MODE_NONE")
  case False
  let ?l = "ucast (pjmedia_linear2ulaw (uint level)) XOR 0xff :: 32 word"
  let ?h = "?l > cur_threshold sd"
  let ?sd = "count_frame (swap_mode sd ?h) ?h ?l"
  note i = swap_count_inv[OF assms level_bound refl, of "pjmedia_linear2ulaw (uint level)"]
  have r: "fst (pjmedia_silence_det_apply sd level) = recalculate ?sd"
    using False by (simp add: pjmedia_silence_det_apply_def Let_def)
  have s: "unat (signal_cnt ?sd + silence_cnt ?sd) = unat (signal_cnt ?sd) + unat (silence_cnt ?sd)"
    using i(3) assms by (auto simp: sd_inv_def unat_plus_if')
  show ?thesis
    using new_threshold_bound[of ?sd] i s assms unfolding r
    by (auto simp: sd_inv_def recalculate_def word_less_nat_alt Let_def)
qed (use assms in \<open>simp add: pjmedia_silence_det_apply_def\<close>)

text \<open>
  That underflow: twelve signal frames in two hundred at the threshold zero. From then on no frame
  counts as a signal, at any level, until the next adjustment.
\<close>

definition sd_zero :: silence_det where
  "sd_zero = \<lparr>sd_mode = VAD_MODE_ADAPTIVE, sd_ptime = 10, min_signal_cnt = 1, min_silence_cnt = 50,
     recalc_cnt = 200, in_talk = False, cur_cnt = 0, signal_cnt = 12, silence_cnt = 188, cur_threshold = 0,
     weakest_signal = 30, loudest_silence = 0\<rparr>"

theorem threshold_wraps:
  "sd_inv sd_zero \<and> cur_threshold (fst (pjmedia_silence_det_apply sd_zero 0)) = 0xFFFFFFFF \<and>
   \<not> loud 0xFFFFFFFF level"
proof -
  have "\<not> loud 0xFFFFFFFF level"
    using level_bound[of "pjmedia_linear2ulaw (uint level)"] by (simp add: loud_def word_less_nat_alt)
  moreover
  have "ucast (pjmedia_linear2ulaw_calc 0) XOR 0xff = (0 :: 32 word)" by code_simp
  ultimately show ?thesis
    by (simp add: sd_zero_def sd_inv_def pjmedia_silence_det_apply_def ulaw_table_calc swap_mode_def
        count_frame_def recalculate_def new_threshold_def)
qed

end
