(* ===== verification/G711_Codec.thy ===== *)
theory G711_Codec
  imports Silence_Det
begin

text \<open>
  The interface of the codecs (\<^verbatim>\<open>pjmedia/codec.h\<close>) and the G.711 codec
  (\<^verbatim>\<open>pjmedia/src/pjmedia/g711.c\<close>) with its factory. A buffer of 16-bit samples is the list of the samples,
  an encoded buffer a list of bytes; the size of a PCM frame is twice the number of its samples. The
  packet loss concealment is called through the function table of \<^verbatim>\<open>plc_common.c\<close>, which is an
  argument here as it is in the code; \<open>Silence_Det\<close> has the replay algorithm.
\<close>

section \<open>The codec interface\<close>

datatype codec_error =
    PJMEDIA_CODEC_EFRMTOOSHORT
  | PJMEDIA_CODEC_EPCMTOOSHORT
  | PJMEDIA_CODEC_EFRMINLEN
  | PJMEDIA_EINVALIDPT
  | CODEC_EINVALIDOP

datatype frame_type = PJMEDIA_FRAME_TYPE_NONE | PJMEDIA_FRAME_TYPE_AUDIO

record pcm_frame =
  pf_type :: frame_type
  pf_samples :: "int list"
  pf_timestamp :: "64 word"

record enc_frame =
  ef_type :: frame_type
  ef_bytes :: "8 word list"
  ef_timestamp :: "64 word"

record codec_param =
  cp_clock_rate :: nat
  cp_channel_cnt :: nat
  cp_avg_bps :: nat
  cp_frm_ptime :: nat
  cp_enc_ptime :: nat
  cp_pcm_bits_per_sample :: nat
  cp_pt :: nat
  cp_frm_per_pkt :: nat
  cp_vad :: bool
  cp_plc :: bool

record 'c codec_op =
  op_open :: "'c \<Rightarrow> codec_param \<Rightarrow> 'c \<times> codec_param \<times> (codec_error + unit)"
  op_modify :: "'c \<Rightarrow> codec_param \<Rightarrow> 'c \<times> (codec_error + unit)"
  op_parse :: "'c \<Rightarrow> 8 word list \<Rightarrow> 64 word \<Rightarrow> nat \<Rightarrow> codec_error + enc_frame list"
  op_encode :: "'c \<Rightarrow> pcm_frame \<Rightarrow> nat \<Rightarrow> 'c \<times> (codec_error + enc_frame)"
  op_decode :: "'c \<Rightarrow> 8 word list \<Rightarrow> nat \<Rightarrow> 'c \<times> (codec_error + int list)"
  op_recover :: "('c \<Rightarrow> nat \<Rightarrow> 'c \<times> (codec_error + int list)) option"

section \<open>G.711\<close>

definition G711_BPS :: nat where "G711_BPS = 64000"
definition PTIME :: nat where "PTIME = 10"
definition FRAME_SIZE :: nat where "FRAME_SIZE = 80"
definition SAMPLES_PER_FRAME :: nat where "SAMPLES_PER_FRAME = 80"
definition PJMEDIA_RTP_PT_PCMU :: nat where "PJMEDIA_RTP_PT_PCMU = 0"
definition PJMEDIA_RTP_PT_PCMA :: nat where "PJMEDIA_RTP_PT_PCMA = 8"
definition PJMEDIA_CODEC_MAX_SILENCE_PERIOD :: int where "PJMEDIA_CODEC_MAX_SILENCE_PERIOD = 8000"

record 'p plc_alg =
  plc_save :: "'p \<Rightarrow> int list \<Rightarrow> 'p"
  plc_generate :: "'p \<Rightarrow> 'p \<times> int list"

definition plc_replay :: "replay_plc plc_alg" where
  "plc_replay = \<lparr>plc_save = plc_replay_save, plc_generate = plc_replay_generate\<rparr>"

record 'p g711_private =
  g7_pt :: nat
  plc_enabled :: bool
  g7_plc :: 'p
  vad_enabled :: bool
  g7_vad :: silence_det
  last_tx :: "64 word"

definition pj_timestamp_diff32 :: "64 word \<Rightarrow> 64 word \<Rightarrow> int" where
  "pj_timestamp_diff32 t1 t2 = sint (ucast (t2 - t1) :: 32 word)"

definition g711_open :: "'p g711_private \<Rightarrow> codec_param \<Rightarrow> 'p g711_private \<times> codec_param \<times> (codec_error + unit)" where
  "g711_open priv attr = (priv\<lparr>g7_pt := cp_pt attr, plc_enabled := cp_plc attr, vad_enabled := cp_vad attr\<rparr>, attr, Inr ())"

definition g711_modify :: "'p g711_private \<Rightarrow> codec_param \<Rightarrow> 'p g711_private \<times> (codec_error + unit)" where
  "g711_modify priv attr =
     (if cp_pt attr \<noteq> g7_pt priv then (priv, Inl PJMEDIA_EINVALIDPT)
      else (priv\<lparr>plc_enabled := cp_plc attr, vad_enabled := cp_vad attr\<rparr>, Inr ()))"

function g711_parse_loop :: "8 word list \<Rightarrow> 64 word \<Rightarrow> nat \<Rightarrow> nat \<Rightarrow> enc_frame list" where
  "g711_parse_loop pkt ts frame_cnt n =
     (if length pkt \<ge> FRAME_SIZE \<and> n < frame_cnt
      then \<lparr>ef_type = PJMEDIA_FRAME_TYPE_AUDIO, ef_bytes = take FRAME_SIZE pkt,
            ef_timestamp = ts + of_nat (SAMPLES_PER_FRAME * n)\<rparr> #
           g711_parse_loop (drop FRAME_SIZE pkt) ts frame_cnt (n + 1)
      else [])"
  by pat_completeness auto
termination by (relation "measure (\<lambda>(pkt, ts, m, n). m - n)") auto

declare g711_parse_loop.simps [simp del]

definition g711_parse :: "'p g711_private \<Rightarrow> 8 word list \<Rightarrow> 64 word \<Rightarrow> nat \<Rightarrow> codec_error + enc_frame list" where
  "g711_parse priv pkt ts frame_cnt = Inr (g711_parse_loop pkt ts frame_cnt 0)"

definition g711_compress :: "nat \<Rightarrow> int list \<Rightarrow> codec_error + 8 word list" where
  "g711_compress pt samples =
     (if pt = PJMEDIA_RTP_PT_PCMA then Inr (map pjmedia_linear2alaw samples)
      else if pt = PJMEDIA_RTP_PT_PCMU then Inr (map pjmedia_linear2ulaw samples)
      else Inl PJMEDIA_EINVALIDPT)"

definition g711_encode :: "'p g711_private \<Rightarrow> pcm_frame \<Rightarrow> nat \<Rightarrow> 'p g711_private \<times> (codec_error + enc_frame)" where
  "g711_encode priv input output_buf_len =
     (if output_buf_len < length (pf_samples input) then (priv, Inl PJMEDIA_CODEC_EFRMTOOSHORT)
      else
        let silence_period = pj_timestamp_diff32 (last_tx priv) (pf_timestamp input);
            (vad, is_silence, _) = pjmedia_silence_det_detect (g7_vad priv) (pf_samples input);
            skip = (vad_enabled priv \<and> is_silence \<and> PJMEDIA_CODEC_MAX_SILENCE_PERIOD \<noteq> - 1 \<and>
                    silence_period < PJMEDIA_CODEC_MAX_SILENCE_PERIOD);
            priv = (if vad_enabled priv then priv\<lparr>g7_vad := vad\<rparr> else priv)
        in if skip then
             (priv, Inr \<lparr>ef_type = PJMEDIA_FRAME_TYPE_NONE, ef_bytes = [], ef_timestamp = pf_timestamp input\<rparr>)
           else
             (if vad_enabled priv then priv\<lparr>last_tx := pf_timestamp input\<rparr> else priv,
              map_sum id (\<lambda>bytes. \<lparr>ef_type = PJMEDIA_FRAME_TYPE_AUDIO, ef_bytes = bytes, ef_timestamp = pf_timestamp input\<rparr>)
                (g711_compress (g7_pt priv) (pf_samples input))))"

definition g711_expand :: "nat \<Rightarrow> 8 word list \<Rightarrow> codec_error + int list" where
  "g711_expand pt bytes =
     (if pt = PJMEDIA_RTP_PT_PCMA then Inr (map pjmedia_alaw2linear bytes)
      else if pt = PJMEDIA_RTP_PT_PCMU then Inr (map pjmedia_ulaw2linear bytes)
      else Inl PJMEDIA_EINVALIDPT)"

definition g711_decode ::
    "'p plc_alg \<Rightarrow> 'p g711_private \<Rightarrow> 8 word list \<Rightarrow> nat \<Rightarrow> 'p g711_private \<times> (codec_error + int list)" where
  "g711_decode alg priv input output_buf_len =
     (if \<not> output_buf_len \<ge> length input * 2 then (priv, Inl PJMEDIA_CODEC_EPCMTOOSHORT)
      else if length input \<noteq> FRAME_SIZE then (priv, Inl PJMEDIA_CODEC_EFRMINLEN)
      else case g711_expand (g7_pt priv) input of
          Inl e \<Rightarrow> (priv, Inl e)
        | Inr samples \<Rightarrow>
            (if plc_enabled priv then priv\<lparr>g7_plc := plc_save alg (g7_plc priv) samples\<rparr> else priv, Inr samples))"

definition g711_recover ::
    "'p plc_alg \<Rightarrow> 'p g711_private \<Rightarrow> nat \<Rightarrow> 'p g711_private \<times> (codec_error + int list)" where
  "g711_recover alg priv output_buf_len =
     (if \<not> plc_enabled priv then (priv, Inl CODEC_EINVALIDOP)
      else if \<not> output_buf_len \<ge> SAMPLES_PER_FRAME * 2 then (priv, Inl PJMEDIA_CODEC_EPCMTOOSHORT)
      else let (plc, samples) = plc_generate alg (g7_plc priv) in (priv\<lparr>g7_plc := plc\<rparr>, Inr samples))"

definition g711_op :: "'p plc_alg \<Rightarrow> 'p g711_private codec_op" where
  "g711_op alg =
     \<lparr>op_open = g711_open, op_modify = g711_modify, op_parse = g711_parse, op_encode = g711_encode,
      op_decode = g711_decode alg, op_recover = Some (g711_recover alg)\<rparr>"

section \<open>The factory\<close>

text \<open>
  The factory keeps the codecs that were given back. \<open>new_plc\<close> and \<open>new_vad\<close> are what
  \<^verbatim>\<open>pjmedia_plc_create\<close> and \<^verbatim>\<open>pjmedia_silence_det_create\<close> return.
\<close>

definition g711_test_alloc :: "nat \<Rightarrow> bool" where
  "g711_test_alloc pt \<longleftrightarrow> pt = PJMEDIA_RTP_PT_PCMU \<or> pt = PJMEDIA_RTP_PT_PCMA"

definition g711_default_attr :: "nat \<Rightarrow> codec_param" where
  "g711_default_attr pt =
     \<lparr>cp_clock_rate = 8000, cp_channel_cnt = 1, cp_avg_bps = G711_BPS, cp_frm_ptime = PTIME, cp_enc_ptime = 0,
      cp_pcm_bits_per_sample = 16, cp_pt = pt mod 256, cp_frm_per_pkt = 2, cp_vad = True, cp_plc = True\<rparr>"

definition g711_alloc_codec ::
    "'p g711_private list \<Rightarrow> nat \<Rightarrow> 'p \<Rightarrow> silence_det \<Rightarrow> 'p g711_private list \<times> 'p g711_private" where
  "g711_alloc_codec codec_list pt new_plc new_vad =
     (case codec_list of
        [] \<Rightarrow> ([], \<lparr>g7_pt = pt, plc_enabled = False, g7_plc = new_plc, vad_enabled = False, g7_vad = new_vad, last_tx = 0\<rparr>)
      | c # cs \<Rightarrow> (cs, c))"

definition g711_dealloc_codec :: "'p plc_alg \<Rightarrow> 'p g711_private list \<Rightarrow> 'p g711_private \<Rightarrow> 'p g711_private list" where
  "g711_dealloc_codec alg codec_list codec =
     (let frame = replicate SAMPLES_PER_FRAME 0;
          codec = codec\<lparr>g7_plc := plc_save alg (plc_save alg (g7_plc codec) frame) frame\<rparr>
      in codec_list @ [codec])"

section \<open>What a codec promises to the stream\<close>

text \<open>
  The contract the media stream relies on for a codec in a steady state, with \<open>n\<close> samples and \<open>m\<close>
  bytes in a frame: encoding a frame gives its code and keeps the codec ready; parsing cuts a packet
  of at most \<open>mx\<close> codes into the frames that were encoded, with their timestamps; decoding the code
  gives samples near to the encoded ones.
\<close>

locale frame_codec =
  fixes enc :: "'c \<Rightarrow> pcm_frame \<Rightarrow> nat \<Rightarrow> 'c \<times> (codec_error + enc_frame)"
    and parse :: "'c \<Rightarrow> 8 word list \<Rightarrow> 64 word \<Rightarrow> nat \<Rightarrow> codec_error + enc_frame list"
    and dec :: "'c \<Rightarrow> 8 word list \<Rightarrow> nat \<Rightarrow> 'c \<times> (codec_error + int list)"
    and ready :: "'c \<Rightarrow> bool" and n m :: nat and code :: "'c \<Rightarrow> int list \<Rightarrow> 8 word list"
    and near :: "int \<Rightarrow> int \<Rightarrow> bool"
  assumes sizes: "0 < n" "0 < m"
    and encode_law: "ready c \<Longrightarrow> length (pf_samples f) = n \<Longrightarrow> m \<le> room \<Longrightarrow>
      enc c f room = (c, Inr \<lparr>ef_type = PJMEDIA_FRAME_TYPE_AUDIO, ef_bytes = code c (pf_samples f), ef_timestamp = pf_timestamp f\<rparr>)"
    and code_length: "ready c \<Longrightarrow> length s = n \<Longrightarrow> length (code c s) = m"
    and parse_law: "\<forall>b\<in>set bs. length b = m \<Longrightarrow> length bs \<le> mx \<Longrightarrow>
      parse c (concat bs) ts mx =
        Inr (map (\<lambda>i. \<lparr>ef_type = PJMEDIA_FRAME_TYPE_AUDIO, ef_bytes = bs ! i, ef_timestamp = ts + of_nat (n * i)\<rparr>) [0..<length bs])"
    and decode_law: "ready c \<Longrightarrow> length s = n \<Longrightarrow> \<forall>x\<in>set s. - 32768 \<le> x \<and> x \<le> 32767 \<Longrightarrow> 2 * n \<le> room \<Longrightarrow>
      \<exists>c' s'. dec c (code c s) room = (c', Inr s') \<and> ready c' \<and> code c' = code c \<and> list_all2 near s s'"
begin

text \<open>Encoding the frames of a packet one after the other.\<close>

fun encode_all :: "'c \<Rightarrow> pcm_frame list \<Rightarrow> nat \<Rightarrow> 'c \<times> 8 word list list" where
  "encode_all c [] room = (c, [])"
| "encode_all c (f # fs) room =
     (case enc c f room of
        (c, Inl _) \<Rightarrow> (c, [])
      | (c, Inr e) \<Rightarrow> let (c, bs) = encode_all c fs room in (c, ef_bytes e # bs))"

lemma encode_all_codes:
  "ready c \<Longrightarrow> \<forall>f\<in>set fs. length (pf_samples f) = n \<Longrightarrow> m \<le> room \<Longrightarrow>
   encode_all c fs room = (c, map (\<lambda>f. code c (pf_samples f)) fs)"
  by (induction fs) (simp_all add: encode_law)

lemma packet_frames:
  assumes "ready c" "\<forall>f\<in>set fs. length (pf_samples f) = n" "m \<le> room" "length fs \<le> mx"
  shows "parse c' (concat (snd (encode_all c fs room))) ts mx =
    Inr (map (\<lambda>i. \<lparr>ef_type = PJMEDIA_FRAME_TYPE_AUDIO, ef_bytes = code c (pf_samples (fs ! i)),
      ef_timestamp = ts + of_nat (n * i)\<rparr>) [0..<length fs])"
  using assms parse_law[of "map (\<lambda>f. code c (pf_samples f)) fs" mx c' ts] code_length[of c]
  by (simp add: encode_all_codes)

end

section \<open>G.711 keeps the contract\<close>

definition g711_ready :: "'p g711_private \<Rightarrow> bool" where
  "g711_ready priv \<longleftrightarrow> \<not> vad_enabled priv \<and> (g7_pt priv = PJMEDIA_RTP_PT_PCMU \<or> g7_pt priv = PJMEDIA_RTP_PT_PCMA)"

definition g711_code :: "'p g711_private \<Rightarrow> int list \<Rightarrow> 8 word list" where
  "g711_code priv s = map (if g7_pt priv = PJMEDIA_RTP_PT_PCMA then pjmedia_linear2alaw else pjmedia_linear2ulaw) s"

definition g711_near :: "int \<Rightarrow> int \<Rightarrow> bool" where
  "g711_near x y \<longleftrightarrow> 30 * \<bar>y - x\<bar> \<le> \<bar>x\<bar> + 317"

lemma g711_companding:
  assumes "- 32768 \<le> x" "x \<le> 32767"
  shows "g711_near x (pjmedia_alaw2linear (pjmedia_linear2alaw x))" "g711_near x (pjmedia_ulaw2linear (pjmedia_linear2ulaw x))"
  using table_err[OF alaw_runs_err linear2alaw_run[OF assms] assms]
    table_err[OF ulaw_runs_err linear2ulaw_run[OF assms] assms]
  by (simp_all add: g711_near_def err_ok_def alaw2linear_calc ulaw2linear_calc)

lemma g711_encode_ready:
  assumes "g711_ready c" "length (pf_samples f) \<le> room"
  shows "g711_encode c f room =
    (c, Inr \<lparr>ef_type = PJMEDIA_FRAME_TYPE_AUDIO, ef_bytes = g711_code c (pf_samples f), ef_timestamp = pf_timestamp f\<rparr>)"
  using assms
  by (auto simp: g711_encode_def g711_ready_def g711_code_def g711_compress_def case_prod_beta Let_def)

lemma g711_parse_frames:
  "\<forall>b\<in>set bs. length b = 80 \<Longrightarrow> k + length bs \<le> mx \<Longrightarrow>
   g711_parse_loop (concat bs) ts mx k =
     map (\<lambda>i. \<lparr>ef_type = PJMEDIA_FRAME_TYPE_AUDIO, ef_bytes = bs ! i, ef_timestamp = ts + of_nat (80 * (k + i))\<rparr>) [0..<length bs]"
proof (induction bs arbitrary: k)
  case Nil
  then show ?case by (subst g711_parse_loop.simps) (simp add: FRAME_SIZE_def)
next
  case (Cons b bs)
  have "g711_parse_loop (concat (b # bs)) ts mx k =
      \<lparr>ef_type = PJMEDIA_FRAME_TYPE_AUDIO, ef_bytes = b, ef_timestamp = ts + of_nat (80 * k)\<rparr> #
      g711_parse_loop (concat bs) ts mx (k + 1)"
    using Cons.prems by (subst g711_parse_loop.simps) (simp add: FRAME_SIZE_def SAMPLES_PER_FRAME_def)
  then show ?case using Cons.IH[of "k + 1"] Cons.prems
    by (simp add: upt_conv_Cons comp_def algebra_simps flip: map_Suc_upt del: upt_Suc)
qed

lemma g711_decode_code:
  assumes "g711_ready c" "length s = 80" "\<forall>x\<in>set s. - 32768 \<le> x \<and> x \<le> 32767" "160 \<le> room"
  shows "\<exists>c' s'. g711_decode alg c (g711_code c s) room = (c', Inr s') \<and> g711_ready c' \<and> g711_code c' = g711_code c \<and> list_all2 g711_near s s'"
proof -
  have "list_all2 g711_near s (map (\<lambda>x. pjmedia_alaw2linear (pjmedia_linear2alaw x)) s)"
    "list_all2 g711_near s (map (\<lambda>x. pjmedia_ulaw2linear (pjmedia_linear2ulaw x)) s)"
    using assms(3) by (auto simp: list_all2_conv_all_nth g711_companding)
  then show ?thesis
    using assms by (auto simp: g711_decode_def g711_ready_def g711_code_def g711_expand_def FRAME_SIZE_def comp_def
        PJMEDIA_RTP_PT_PCMA_def PJMEDIA_RTP_PT_PCMU_def fun_eq_iff)
qed

interpretation g711c: frame_codec g711_encode g711_parse "g711_decode alg" g711_ready 80 80 g711_code g711_near
  for alg :: "'p plc_alg"
proof
  fix c c' :: "'p g711_private" and f :: pcm_frame and s :: "int list" and bs :: "8 word list list" and room mx :: nat
    and ts :: "64 word"
  show "g711_encode c f room =
      (c, Inr \<lparr>ef_type = PJMEDIA_FRAME_TYPE_AUDIO, ef_bytes = g711_code c (pf_samples f), ef_timestamp = pf_timestamp f\<rparr>)"
    if "g711_ready c" "length (pf_samples f) = 80" "80 \<le> room"
    using g711_encode_ready[of c f room] that by simp
  show "g711_parse c (concat bs) ts mx =
      Inr (map (\<lambda>i. \<lparr>ef_type = PJMEDIA_FRAME_TYPE_AUDIO, ef_bytes = bs ! i, ef_timestamp = ts + of_nat (80 * i)\<rparr>) [0..<length bs])"
    if "\<forall>b\<in>set bs. length b = 80" "length bs \<le> mx"
    using g711_parse_frames[of bs 0 mx ts] that by (simp add: g711_parse_def)
  show "\<exists>c' s'. g711_decode alg c (g711_code c s) room = (c', Inr s') \<and> g711_ready c' \<and> g711_code c' = g711_code c \<and> list_all2 g711_near s s'"
    if "g711_ready c" "length s = 80" "\<forall>x\<in>set s. - 32768 \<le> x \<and> x \<le> 32767" "2 * 80 \<le> room"
    using g711_decode_code[of c s room alg] that by simp
qed (simp_all add: g711_code_def)

text \<open>
  A codec that is given back is reused with the state of its silence detector: the concealment is
  cleared, but the threshold the previous call adapted, its talk state and the time of its last
  packet are those the next call starts with.
\<close>

theorem recycled_codec_keeps_vad:
  "let (cs, c) = g711_alloc_codec (g711_dealloc_codec alg [] priv) pt new_plc new_vad
   in g7_vad c = g7_vad priv \<and> last_tx c = last_tx priv \<and>
      g7_vad (fst (g711_open c attr)) = g7_vad priv \<and> last_tx (fst (g711_open c attr)) = last_tx priv"
  by (simp add: g711_alloc_codec_def g711_dealloc_codec_def g711_open_def Let_def)

end
