(* ===== verification/Jitter_Buffer.thy ===== *)
theory Jitter_Buffer
  imports Pj_Prelude
begin

text \<open>
  The adaptive jitter buffer of the media stream (\<^verbatim>\<open>pjmedia/src/pjmedia/jbuf.c\<close>). The frame
  list is a ring of \<open>flist_max_count\<close> slots, each with a frame of \<open>flist_frame_size\<close> bytes and a
  type; a window of the ring starting at \<open>flist_head\<close> holds the frames with the consecutive
  sequence numbers from \<open>flist_origin\<close> on. The theory proves that the ring implements a list of
  frames with gaps, that the delay adaptation stays within its limits, and that putting a frame
  always terminates.

  The flat byte array \<^verbatim>\<open>flist_buffer\<close> is modelled slot by slot: slot \<open>i\<close> is the byte range from
  \<open>i * flist_frame_size\<close>. Unsigned fields are naturals with the wrap-around written out; the
  signed bookkeeping fields are integers. \<open>None\<close> is a division by zero, or a loop that does not
  end.
\<close>

section \<open>State\<close>

type_synonym byte = nat

datatype jb_frame_type =
    PJMEDIA_JB_MISSING_FRAME
  | PJMEDIA_JB_NORMAL_FRAME
  | PJMEDIA_JB_ZERO_PREFETCH_FRAME
  | PJMEDIA_JB_ZERO_EMPTY_FRAME

record jb_framelist =
  flist_buffer :: "byte list list"
  flist_frame_type :: "jb_frame_type list"
  flist_frame_size :: nat
  flist_max_count :: nat
  flist_empty :: bool
  flist_head :: nat
  flist_tail :: nat
  flist_origin :: nat

datatype pjmedia_jb_op = JB_OP_INIT | JB_OP_PUT | JB_OP_GET

datatype jb_status_t = JB_STATUS_INITIALIZING | JB_STATUS_PROCESSING

record jbuf =
  jb_name :: string
  jb_fl :: jb_framelist
  jb_frame_size :: nat
  jb_frame_ptime :: nat
  jb_max_count :: nat
  jb_level :: int
  jb_last_level :: int
  jb_last_jitter :: int
  jb_max_hist_jitter :: int
  jb_stable_hist :: int
  jb_op_count :: nat
  jb_last_op :: pjmedia_jb_op
  jb_last_seq_no :: int
  jb_prefetch :: int
  jb_prefetch_cnt :: int
  jb_min_prefetch :: int
  jb_max_prefetch :: int
  jb_status :: jb_status_t


definition PJMEDIA_JB_DEFAULT_INIT_DELAY :: int where
  "PJMEDIA_JB_DEFAULT_INIT_DELAY = 15"

definition PJ_ABS :: "int \<Rightarrow> int" where
  "PJ_ABS x = (if x > 0 then x else - x)"

definition PJ_MAX :: "'a::ord \<Rightarrow> 'a \<Rightarrow> 'a" where
  "PJ_MAX x y = (if x > y then x else y)"

definition PJ_MIN :: "'a::ord \<Rightarrow> 'a \<Rightarrow> 'a" where
  "PJ_MIN x y = (if x < y then x else y)"

section \<open>The frame list\<close>

definition zero_frame :: "nat \<Rightarrow> byte list" where
  "zero_frame n = replicate n 0"

definition jb_framelist_init :: "nat \<Rightarrow> nat \<Rightarrow> jb_framelist" where
  "jb_framelist_init frame_size max_count =
     \<lparr>flist_buffer = replicate max_count (zero_frame frame_size),
      flist_frame_type = replicate max_count PJMEDIA_JB_MISSING_FRAME,
      flist_frame_size = frame_size, flist_max_count = max_count, flist_empty = True,
      flist_head = 0, flist_tail = 0, flist_origin = 0\<rparr>"

definition jb_framelist_size :: "jb_framelist \<Rightarrow> nat" where
  "jb_framelist_size fl =
     (if flist_tail fl = flist_head fl then
        if flist_empty fl then 0 else flist_max_count fl
      else u32 (usub32 (flist_tail fl) (flist_head fl) + flist_max_count fl) mod flist_max_count fl)"

definition jb_framelist_get :: "jb_framelist \<Rightarrow> jb_framelist \<times> (byte list \<times> jb_frame_type) option" where
  "jb_framelist_get fl =
     (if \<not> flist_empty fl then
        let frame = flist_buffer fl ! flist_head fl;
            ftype = flist_frame_type fl ! flist_head fl;
            fl = fl\<lparr>flist_buffer := (flist_buffer fl)[flist_head fl := zero_frame (flist_frame_size fl)],
                    flist_frame_type := (flist_frame_type fl)[flist_head fl := PJMEDIA_JB_MISSING_FRAME]\<rparr>;
            fl = fl\<lparr>flist_origin := u32 (flist_origin fl + 1)\<rparr>;
            fl = fl\<lparr>flist_head := u32 (flist_head fl + 1) mod flist_max_count fl\<rparr>;
            fl = (if flist_head fl = flist_tail fl then fl\<lparr>flist_empty := True\<rparr> else fl)
        in (fl, Some (frame, ftype))
      else (fl, None))"

text \<open>Overwrite \<open>n\<close> consecutive cells of an array.\<close>

definition fill_cells :: "nat \<Rightarrow> nat \<Rightarrow> 'a \<Rightarrow> 'a list \<Rightarrow> 'a list" where
  "fill_cells i n z xs = take i xs @ replicate n z @ drop (i + n) xs"

definition clear_slots :: "nat \<Rightarrow> nat \<Rightarrow> jb_framelist \<Rightarrow> jb_framelist" where
  "clear_slots i n fl =
     fl\<lparr>flist_buffer := fill_cells i n (zero_frame (flist_frame_size fl)) (flist_buffer fl),
        flist_frame_type := fill_cells i n PJMEDIA_JB_MISSING_FRAME (flist_frame_type fl)\<rparr>"

definition jb_framelist_remove_head :: "jb_framelist \<Rightarrow> nat \<Rightarrow> jb_framelist" where
  "jb_framelist_remove_head fl cnt =
     (let cur_size = jb_framelist_size fl;
          cnt = (if cnt > cur_size then cur_size else cnt)
      in if cnt \<noteq> 0 then
           let tmp = u32 (flist_head fl + cnt);
               step1 = (if tmp > flist_max_count fl then flist_max_count fl - flist_head fl else cnt);
               step2 = (if tmp > flist_max_count fl then cnt - step1 else 0);
               fl = clear_slots (flist_head fl) step1 fl;
               fl = (if step2 \<noteq> 0 then clear_slots 0 step2 fl else fl);
               fl = fl\<lparr>flist_origin := u32 (flist_origin fl + cnt)\<rparr>;
               fl = fl\<lparr>flist_head := u32 (flist_head fl + cnt) mod flist_max_count fl\<rparr>
           in (if flist_head fl = flist_tail fl then fl\<lparr>flist_empty := True\<rparr> else fl)
         else fl)"

definition write_slot :: "nat \<Rightarrow> byte list \<Rightarrow> nat \<Rightarrow> jb_framelist \<Rightarrow> jb_framelist" where
  "write_slot i frame frame_size fl =
     fl\<lparr>flist_buffer := (flist_buffer fl)[i := take frame_size frame @ drop frame_size (flist_buffer fl ! i)],
        flist_frame_type := (flist_frame_type fl)[i := PJMEDIA_JB_NORMAL_FRAME]\<rparr>"

text \<open>The caller has cut \<open>frame_size\<close> to the size of a slot, as the assertion of the code requires.\<close>

definition jb_framelist_put_at ::
    "jb_framelist \<Rightarrow> nat \<Rightarrow> byte list \<Rightarrow> nat \<Rightarrow> (jb_framelist \<times> bool) option" where
  "jb_framelist_put_at fl index frame frame_size =
     (if \<not> flist_empty fl then
        if index < flist_origin fl then Some (fl, False)
        else if index > usub32 (u32 (flist_origin fl + flist_max_count fl)) 1 then Some (fl, False)
        else if flist_max_count fl = 0 then None
        else
          let where = u32 (usub32 index (flist_origin fl) + flist_head fl) mod flist_max_count fl;
              cur_size = jb_framelist_size fl;
              fl = (if index \<ge> u32 (flist_origin fl + cur_size) then
                      let diff = usub32 index (u32 (flist_origin fl + cur_size))
                      in fl\<lparr>flist_tail := u32 (flist_tail fl + diff + 1) mod flist_max_count fl\<rparr>
                    else fl)
          in Some (write_slot where frame frame_size fl, True)
      else if flist_max_count fl = 0 then None
      else
        let where = flist_tail fl;
            fl = fl\<lparr>flist_origin := index,
                    flist_tail := u32 (flist_tail fl + 1) mod flist_max_count fl,
                    flist_empty := False\<rparr>
        in Some (write_slot where frame frame_size fl, True))"

section \<open>The jitter buffer\<close>

definition pjmedia_jbuf_create :: "string \<Rightarrow> nat \<Rightarrow> nat \<Rightarrow> nat \<Rightarrow> jbuf" where
  "pjmedia_jbuf_create name frame_size ptime max_count =
     \<lparr>jb_name = name, jb_fl = jb_framelist_init frame_size max_count,
      jb_frame_size = frame_size, jb_frame_ptime = ptime, jb_max_count = max_count,
      jb_level = 0, jb_last_level = 0, jb_last_jitter = 0, jb_max_hist_jitter = 0,
      jb_stable_hist = 0, jb_op_count = 0, jb_last_op = JB_OP_INIT, jb_last_seq_no = -1,
      jb_prefetch = PJ_MIN PJMEDIA_JB_DEFAULT_INIT_DELAY (int (u32 (max_count * 4) div 5)),
      jb_prefetch_cnt = 0, jb_min_prefetch = 0,
      jb_max_prefetch = int (u32 (max_count * 4) div 5),
      jb_status = JB_STATUS_INITIALIZING\<rparr>"

definition pjmedia_jbuf_set_fixed :: "jbuf \<Rightarrow> nat \<Rightarrow> jbuf \<times> pj_status" where
  "pjmedia_jbuf_set_fixed jb prefetch =
     (if \<not> prefetch \<le> jb_max_count jb then (jb, PJ_EINVAL)
      else (jb\<lparr>jb_min_prefetch := int prefetch, jb_max_prefetch := int prefetch,
               jb_prefetch := int prefetch\<rparr>, PJ_SUCCESS))"

definition pjmedia_jbuf_set_adaptive :: "jbuf \<Rightarrow> nat \<Rightarrow> nat \<Rightarrow> nat \<Rightarrow> jbuf \<times> pj_status" where
  "pjmedia_jbuf_set_adaptive jb prefetch min_prefetch max_prefetch =
     (if \<not> (min_prefetch < max_prefetch \<and> prefetch \<ge> min_prefetch \<and> prefetch \<le> max_prefetch \<and>
             max_prefetch \<le> jb_max_count jb)
      then (jb, PJ_EINVAL)
      else (jb\<lparr>jb_prefetch := int prefetch, jb_min_prefetch := int min_prefetch,
               jb_max_prefetch := int max_prefetch\<rparr>, PJ_SUCCESS))"

definition pjmedia_jbuf_reset :: "jbuf \<Rightarrow> jbuf" where
  "pjmedia_jbuf_reset jb =
     jb\<lparr>jb_last_seq_no := -1, jb_level := 0, jb_last_level := 0, jb_last_jitter := 0,
        jb_last_op := JB_OP_INIT, jb_prefetch_cnt := 0, jb_stable_hist := 0,
        jb_status := JB_STATUS_INITIALIZING, jb_max_hist_jitter := 0,
        jb_fl := jb_framelist_remove_head (jb_fl jb) (jb_framelist_size (jb_fl jb))\<rparr>"

definition jbuf_calculate_jitter :: "jbuf \<Rightarrow> jbuf option" where
  "jbuf_calculate_jitter jb =
     (if jb_frame_ptime jb = 0 then None
      else
        let stable_history_limit = 1000 div jb_frame_ptime jb;
            last_jitter = PJ_ABS (jb_level jb - jb_last_level jb);
            max_hist_jitter = PJ_MAX (jb_max_hist_jitter jb) last_jitter;
            jb = jb\<lparr>jb_last_jitter := last_jitter, jb_last_level := jb_level jb,
                    jb_max_hist_jitter := max_hist_jitter, jb_op_count := u32 (jb_op_count jb + 1)\<rparr>
        in if last_jitter < jb_prefetch jb then
             let stable_hist = jb_stable_hist jb + last_jitter
             in if stable_hist > int stable_history_limit then
                  let seq_diff = cdiv (jb_prefetch jb - max_hist_jitter) 3;
                      seq_diff = (if seq_diff < 1 then 1 else seq_diff);
                      prefetch = jb_prefetch jb - seq_diff;
                      prefetch = (if prefetch < jb_min_prefetch jb then jb_min_prefetch jb else prefetch)
                  in Some (jb\<lparr>jb_prefetch := prefetch, jb_stable_hist := 0, jb_max_hist_jitter := 0\<rparr>)
                else Some (jb\<lparr>jb_stable_hist := stable_hist\<rparr>)
           else
             let prefetch = PJ_MIN last_jitter (int (u32 (jb_max_count jb * 4) div 5));
                 prefetch = (if prefetch > jb_max_prefetch jb then jb_max_prefetch jb else prefetch)
             in Some (jb\<lparr>jb_prefetch := prefetch, jb_stable_hist := 0, jb_max_hist_jitter := 0\<rparr>))"

definition jbuf_update :: "jbuf \<Rightarrow> pjmedia_jb_op \<Rightarrow> jbuf option" where
  "jbuf_update jb oper =
     (if jb_last_op jb \<noteq> oper then
        map_option (\<lambda>jb. jb\<lparr>jb_last_op := oper\<rparr>) (jbuf_calculate_jitter jb)
      else Some jb)"

text \<open>The loop of \<open>pjmedia_jbuf_put_frame\<close>: drop a quarter of the buffer until the frame fits.\<close>

partial_function (option) put_loop ::
    "nat \<Rightarrow> jb_framelist \<Rightarrow> nat \<Rightarrow> byte list \<Rightarrow> nat \<Rightarrow> jb_framelist option" where
  "put_loop max_count fl index frame frame_size =
     (case jb_framelist_put_at fl index frame frame_size of
        None \<Rightarrow> None
      | Some (fl, ok) \<Rightarrow>
          if ok then Some fl
          else put_loop max_count
                 (jb_framelist_remove_head fl (PJ_MAX (max_count div 4) 1))
                 index frame frame_size)"

declare put_loop.simps [code]

definition pjmedia_jbuf_put_frame :: "jbuf \<Rightarrow> byte list \<Rightarrow> nat \<Rightarrow> int \<Rightarrow> jbuf option" where
  "pjmedia_jbuf_put_frame jb frame frame_size frame_seq =
     (let jb = (if jb_last_seq_no jb = -1 then jb\<lparr>jb_last_seq_no := frame_seq - 1\<rparr> else jb);
          seq_diff = frame_seq - jb_last_seq_no jb;
          jb = jb\<lparr>jb_last_seq_no := PJ_MAX (jb_last_seq_no jb) frame_seq\<rparr>;
          jb = (if seq_diff > 0 then jb\<lparr>jb_level := jb_level jb + seq_diff\<rparr> else jb)
      in case (if jb_status jb = JB_STATUS_INITIALIZING
               then Some (jb\<lparr>jb_status := JB_STATUS_PROCESSING, jb_level := 0, jb_last_level := 0,
                             jb_last_jitter := 0\<rparr>)
               else jbuf_update jb JB_OP_PUT) of
           None \<Rightarrow> None
         | Some jb \<Rightarrow>
             let min_frame_size = PJ_MIN frame_size (jb_frame_size jb)
             in if seq_diff > 0 then
                  case put_loop (jb_max_count jb) (jb_fl jb) (int_to_u32 frame_seq) frame min_frame_size of
                    None \<Rightarrow> None
                  | Some fl \<Rightarrow>
                      let jb = jb\<lparr>jb_fl := fl\<rparr>
                      in Some (if jb_prefetch_cnt jb < jb_prefetch jb
                               then jb\<lparr>jb_prefetch_cnt := jb_prefetch_cnt jb + seq_diff\<rparr> else jb)
                else
                  map_option (\<lambda>(fl, ok). jb\<lparr>jb_fl := fl\<rparr>)
                    (jb_framelist_put_at (jb_fl jb) (int_to_u32 frame_seq) frame min_frame_size))"

definition pjmedia_jbuf_get_frame :: "jbuf \<Rightarrow> (jbuf \<times> byte list \<times> jb_frame_type) option" where
  "pjmedia_jbuf_get_frame jb =
     (case jbuf_update (jb\<lparr>jb_level := jb_level jb - 1\<rparr>) JB_OP_GET of
        None \<Rightarrow> None
      | Some jb \<Rightarrow>
          let jb = (if jb_framelist_size (jb_fl jb) = 0 then jb\<lparr>jb_prefetch_cnt := 0\<rparr> else jb)
          in if jb_prefetch_cnt jb < jb_prefetch jb then
               Some (jb, zero_frame (jb_frame_size jb),
                     if jb_framelist_size (jb_fl jb) = 0 then PJMEDIA_JB_ZERO_EMPTY_FRAME
                     else PJMEDIA_JB_ZERO_PREFETCH_FRAME)
             else case jb_framelist_get (jb_fl jb) of
                    (fl, None) \<Rightarrow>
                      Some (jb\<lparr>jb_fl := fl\<rparr>, zero_frame (jb_frame_size jb), PJMEDIA_JB_ZERO_EMPTY_FRAME)
                  | (fl, Some (frame, ftype)) \<Rightarrow>
                      Some (jb\<lparr>jb_fl := fl\<rparr>, frame,
                            if ftype = PJMEDIA_JB_NORMAL_FRAME then PJMEDIA_JB_NORMAL_FRAME
                            else PJMEDIA_JB_MISSING_FRAME))"


section \<open>The ring as a list of frames\<close>

type_synonym slot = "byte list \<times> jb_frame_type"

definition blank :: "nat \<Rightarrow> slot" where
  "blank n = (zero_frame n, PJMEDIA_JB_MISSING_FRAME)"

definition cell :: "jb_framelist \<Rightarrow> nat \<Rightarrow> slot" where
  "cell fl i = (flist_buffer fl ! i, flist_frame_type fl ! i)"

text \<open>
  \<open>fl_rep fl fs\<close>: the ring \<open>fl\<close> is in order and its window holds exactly the slots \<open>fs\<close>; every
  slot outside the window is blank, so that a gap left by a frame that arrives early reads as
  missing.
\<close>

definition fl_rep :: "jb_framelist \<Rightarrow> slot list \<Rightarrow> bool" where
  "fl_rep fl fs \<longleftrightarrow>
     0 < flist_max_count fl \<and> flist_max_count fl < 2 ^ 30 \<and>
     length (flist_buffer fl) = flist_max_count fl \<and>
     length (flist_frame_type fl) = flist_max_count fl \<and>
     flist_head fl < flist_max_count fl \<and>
     length fs \<le> flist_max_count fl \<and>
     flist_tail fl = (flist_head fl + length fs) mod flist_max_count fl \<and>
     (flist_empty fl \<longleftrightarrow> fs = []) \<and>
     (\<forall>s\<in>set fs. length (fst s) = flist_frame_size fl) \<and>
     (\<forall>i<flist_max_count fl. cell fl ((flist_head fl + i) mod flist_max_count fl) =
        (if i < length fs then fs ! i else blank (flist_frame_size fl)))"

definition frames :: "jb_framelist \<Rightarrow> slot list" where
  "frames fl = map (\<lambda>i. cell fl ((flist_head fl + i) mod flist_max_count fl)) [0..<jb_framelist_size fl]"

definition fl_inv :: "jb_framelist \<Rightarrow> bool" where
  "fl_inv fl \<longleftrightarrow> fl_rep fl (frames fl)"

lemma mod_less_double: "h < m \<Longrightarrow> i \<le> m \<Longrightarrow> (h + i) mod m = (if h + i < m then h + i else h + i - m)" for m :: nat
  by (simp add: mod_if)

lemma ring_inj: "h < m \<Longrightarrow> i < m \<Longrightarrow> j < m \<Longrightarrow> (h + i) mod m = (h + j) mod m \<longleftrightarrow> i = j" for m :: nat
  by (auto simp: mod_less_double split: if_splits)

lemma ring_meet:
  "h < m \<Longrightarrow> 0 < c \<Longrightarrow> c \<le> n \<Longrightarrow> n \<le> m \<Longrightarrow> (h + c) mod m = (h + n) mod m \<longleftrightarrow> c = n" for m :: nat
  by (auto simp: mod_less_double split: if_splits)

lemma fl_repD:
  assumes "fl_rep fl fs"
  shows "0 < flist_max_count fl" "flist_max_count fl < 2 ^ 30"
    "length (flist_buffer fl) = flist_max_count fl" "length (flist_frame_type fl) = flist_max_count fl"
    "flist_head fl < flist_max_count fl" "length fs \<le> flist_max_count fl"
    "flist_tail fl = (flist_head fl + length fs) mod flist_max_count fl"
    "flist_empty fl \<longleftrightarrow> fs = []"
    "\<And>s. s \<in> set fs \<Longrightarrow> length (fst s) = flist_frame_size fl"
    "\<And>i. i < flist_max_count fl \<Longrightarrow> cell fl ((flist_head fl + i) mod flist_max_count fl) =
        (if i < length fs then fs ! i else blank (flist_frame_size fl))"
  using assms by (auto simp: fl_rep_def)

lemma fl_rep_size: "fl_rep fl fs \<Longrightarrow> jb_framelist_size fl = length fs"
  using fl_repD(1-8) [of fl fs]
  by (auto simp: jb_framelist_size_def mod_less_double usub32_def u32_def split: if_splits)

lemma fl_rep_frames:
  assumes "fl_rep fl fs"
  shows "frames fl = fs"
proof (rule nth_equalityI)
  show "length (frames fl) = length fs" by (simp add: frames_def fl_rep_size[OF assms])
  show "frames fl ! i = fs ! i" if "i < length (frames fl)" for i
    using that fl_repD(6,10)[OF assms] by (simp add: frames_def fl_rep_size[OF assms])
qed

lemma fl_invI: "fl_rep fl fs \<Longrightarrow> fl_inv fl"
  by (simp add: fl_inv_def fl_rep_frames)

lemma fl_rep_init:
  "0 < m \<Longrightarrow> m < 2 ^ 30 \<Longrightarrow> fl_rep (jb_framelist_init n m) []"
  by (simp add: fl_rep_def jb_framelist_init_def cell_def blank_def)

lemma fl_rep_get_Nil: "fl_rep fl [] \<Longrightarrow> jb_framelist_get fl = (fl, None)"
  by (simp add: jb_framelist_get_def fl_repD(8))

lemma cell_update:
  "i < length (flist_buffer fl) \<Longrightarrow> length (flist_frame_type fl) = length (flist_buffer fl) \<Longrightarrow>
   cell (fl\<lparr>flist_buffer := (flist_buffer fl)[j := b], flist_frame_type := (flist_frame_type fl)[j := t]\<rparr>) i =
   (if i = j then (b, t) else cell fl i)"
  by (simp add: cell_def)

lemma cell_cong:
  "flist_buffer a = flist_buffer b \<Longrightarrow> flist_frame_type a = flist_frame_type b \<Longrightarrow> cell a = cell b"
  by (auto simp: cell_def fun_eq_iff)

lemma fl_rep_get_Cons:
  assumes rep: "fl_rep fl (f # fs)"
  obtains fl' where "jb_framelist_get fl = (fl', Some f)" "fl_rep fl' fs"
    "flist_origin fl' = u32 (flist_origin fl + 1)" "flist_frame_size fl' = flist_frame_size fl"
    "flist_max_count fl' = flist_max_count fl"
proof -
  note D = fl_repD[OF rep]
  let ?m = "flist_max_count fl" and ?h = "flist_head fl"
  define fl1 where "fl1 = fl\<lparr>flist_buffer := (flist_buffer fl)[?h := zero_frame (flist_frame_size fl)],
      flist_frame_type := (flist_frame_type fl)[?h := PJMEDIA_JB_MISSING_FRAME]\<rparr>"
  define fl' where "fl' = fl1\<lparr>flist_origin := u32 (flist_origin fl + 1), flist_head := (?h + 1) mod ?m,
      flist_empty := (fs = [])\<rparr>"
  have hd: "(flist_buffer fl ! ?h, flist_frame_type fl ! ?h) = f"
    using D(10)[of 0] D(1,5) by (simp add: cell_def)
  have emp: "(?h + 1) mod ?m = flist_tail fl \<longleftrightarrow> fs = []"
    using D(5,6,7) ring_meet[of ?h ?m 1 "Suc (length fs)"] by simp
  have "jb_framelist_get fl = (fl', Some f)"
    using D(1,2,5,8) hd emp
    by (auto simp: jb_framelist_get_def fl'_def fl1_def Let_def)
  moreover have "fl_rep fl' fs"
  proof -
    have "cell fl' ((flist_head fl' + i) mod ?m) = (if i < length fs then fs ! i else blank (flist_frame_size fl))"
      if i: "i < ?m" for i
    proof -
      have c: "cell fl' = cell fl1" by (rule cell_cong) (simp_all add: fl'_def)
      have e: "(flist_head fl' + i) mod ?m = (?h + Suc i) mod ?m"
        by (simp add: fl'_def mod_add_left_eq)
      show ?thesis
      proof (cases "Suc i < ?m")
        case True
        then have "(?h + Suc i) mod ?m \<noteq> ?h" using ring_inj[of ?h ?m "Suc i" 0] D(1,5) by simp
        moreover have "(?h + Suc i) mod ?m < ?m" using D(1) by simp
        ultimately show ?thesis using D(3,4) D(10)[OF True]
          unfolding c e fl1_def by (subst cell_update) (auto simp: D)
      next
        case False
        then have "Suc i = ?m" using i by simp
        then have "(?h + Suc i) mod ?m = ?h" using D(5) by simp
        moreover have "\<not> i < length fs" using False i D(6) by simp
        ultimately show ?thesis using D(3,4,5)
          unfolding c e fl1_def by (subst cell_update) (auto simp: blank_def)
      qed
    qed
    then show ?thesis using D unfolding fl_rep_def
      by (simp add: fl'_def fl1_def mod_add_left_eq)
  qed
  ultimately show thesis by (rule that) (simp_all add: fl'_def fl1_def)
qed

lemma fill_cells_nth:
  "i + n \<le> length xs \<Longrightarrow> j < length xs \<Longrightarrow>
   fill_cells i n z xs ! j = (if i \<le> j \<and> j < i + n then z else xs ! j)"
  by (auto simp: fill_cells_def nth_append)

lemma length_fill_cells [simp]: "i + n \<le> length xs \<Longrightarrow> length (fill_cells i n z xs) = length xs"
  by (simp add: fill_cells_def)

lemma cell_clear:
  "i + n \<le> length (flist_buffer fl) \<Longrightarrow> length (flist_frame_type fl) = length (flist_buffer fl) \<Longrightarrow>
   j < length (flist_buffer fl) \<Longrightarrow>
   cell (clear_slots i n fl) j = (if i \<le> j \<and> j < i + n then blank (flist_frame_size fl) else cell fl j)"
  by (simp add: cell_def clear_slots_def fill_cells_nth blank_def)

lemma clear_slots_frame [simp]:
  "flist_frame_size (clear_slots i n fl) = flist_frame_size fl"
  "flist_max_count (clear_slots i n fl) = flist_max_count fl"
  "flist_empty (clear_slots i n fl) = flist_empty fl"
  "flist_head (clear_slots i n fl) = flist_head fl"
  "flist_tail (clear_slots i n fl) = flist_tail fl"
  "flist_origin (clear_slots i n fl) = flist_origin fl"
  "i + n \<le> length (flist_buffer fl) \<Longrightarrow>
     length (flist_buffer (clear_slots i n fl)) = length (flist_buffer fl)"
  "i + n \<le> length (flist_frame_type fl) \<Longrightarrow>
     length (flist_frame_type (clear_slots i n fl)) = length (flist_frame_type fl)"
  by (simp_all add: clear_slots_def)

text \<open>The two steps of \<open>jb_framelist_remove_head\<close> together blank the \<open>cnt\<close> slots after the head.\<close>

definition clear_window :: "nat \<Rightarrow> jb_framelist \<Rightarrow> jb_framelist" where
  "clear_window cnt fl =
     (if flist_head fl + cnt > flist_max_count fl
      then clear_slots 0 (cnt - (flist_max_count fl - flist_head fl))
             (clear_slots (flist_head fl) (flist_max_count fl - flist_head fl) fl)
      else clear_slots (flist_head fl) cnt fl)"

lemma clear_window_frame [simp]:
  "flist_frame_size (clear_window n fl) = flist_frame_size fl"
  "flist_max_count (clear_window n fl) = flist_max_count fl"
  "flist_empty (clear_window n fl) = flist_empty fl"
  "flist_head (clear_window n fl) = flist_head fl"
  "flist_tail (clear_window n fl) = flist_tail fl"
  "flist_origin (clear_window n fl) = flist_origin fl"
  by (simp_all add: clear_window_def)

lemma clear_window_cells:
  assumes "fl_rep fl fs" "cnt \<le> flist_max_count fl"
  shows "length (flist_buffer (clear_window cnt fl)) = flist_max_count fl"
    "length (flist_frame_type (clear_window cnt fl)) = flist_max_count fl"
    "j < flist_max_count fl \<Longrightarrow>
     cell (clear_window cnt fl) ((flist_head fl + j) mod flist_max_count fl) =
       (if j < cnt then blank (flist_frame_size fl)
        else cell fl ((flist_head fl + j) mod flist_max_count fl))"
proof -
  note D = fl_repD(1-8)[OF assms(1)]
  show "length (flist_buffer (clear_window cnt fl)) = flist_max_count fl"
    "length (flist_frame_type (clear_window cnt fl)) = flist_max_count fl"
    using D assms(2) by (simp_all add: clear_window_def)
  assume j: "j < flist_max_count fl"
  have "(flist_head fl + j) mod flist_max_count fl < flist_max_count fl" using D(1) by simp
  then show "cell (clear_window cnt fl) ((flist_head fl + j) mod flist_max_count fl) =
       (if j < cnt then blank (flist_frame_size fl)
        else cell fl ((flist_head fl + j) mod flist_max_count fl))"
    using D assms(2) j
    by (auto simp: clear_window_def cell_clear mod_less_double)
qed

lemma remove_head_clear_window:
  assumes "fl_rep fl fs"
  shows "jb_framelist_remove_head fl cnt =
     (let c = min cnt (length fs)
      in if c = 0 then fl
         else (clear_window c fl)\<lparr>flist_origin := u32 (flist_origin fl + c),
                 flist_head := (flist_head fl + c) mod flist_max_count fl,
                 flist_empty := (c = length fs)\<rparr>)"
proof -
  note D = fl_repD(1-8)[OF assms]
  define c where "c = min cnt (length fs)"
  have c: "c \<le> length fs" "(if length fs < cnt then length fs else cnt) = c" by (auto simp: c_def)
  have lt: "flist_head fl + c < 2 ^ 32" using c D by simp
  have emp: "(flist_head fl + c) mod flist_max_count fl = flist_tail fl \<longleftrightarrow> c = length fs" if "c \<noteq> 0"
    using ring_meet[of "flist_head fl" "flist_max_count fl" c "length fs"] D c that by simp
  have ne: "c \<noteq> 0 \<Longrightarrow> \<not> flist_empty fl" using c D(8) by auto
  show ?thesis
  proof (cases "c = 0")
    case True
    then show ?thesis
      by (simp add: jb_framelist_remove_head_def fl_rep_size[OF assms] c(2) flip: c_def)
  next
    case False
    then show ?thesis
      using lt emp ne
      by (auto simp: jb_framelist_remove_head_def fl_rep_size[OF assms] c(2) clear_window_def Let_def
            simp flip: c_def)
  qed
qed

lemma fl_rep_remove_head:
  assumes rep: "fl_rep fl fs"
  shows "fl_rep (jb_framelist_remove_head fl cnt) (drop cnt fs)"
proof -
  note D = fl_repD[OF rep]
  define c where "c = min cnt (length fs)"
  have c: "c \<le> length fs" and dr: "drop cnt fs = drop c fs" by (auto simp: c_def min_def)
  let ?m = "flist_max_count fl" and ?h = "flist_head fl"
  let ?g = "(clear_window c fl)\<lparr>flist_origin := u32 (flist_origin fl + c),
                 flist_head := (?h + c) mod ?m, flist_empty := (c = length fs)\<rparr>"
  show ?thesis
  proof (cases "c = 0")
    case True
    then show ?thesis using rep dr by (simp add: remove_head_clear_window[OF rep] Let_def flip: c_def)
  next
    case False
    have cm: "c \<le> ?m" using c D(6) by simp
    note W = clear_window_cells[OF rep cm]
    have "cell ?g ((flist_head ?g + i) mod ?m) =
        (if i < length (drop c fs) then drop c fs ! i else blank (flist_frame_size fl))"
      if i: "i < ?m" for i
    proof -
      have cg: "cell ?g = cell (clear_window c fl)" by (rule cell_cong) simp_all
      have e: "(flist_head ?g + i) mod ?m = (?h + (c + i)) mod ?m"
        by (simp add: mod_add_left_eq add.assoc)
      show ?thesis
      proof (cases "c + i < ?m")
        case True
        then show ?thesis using W(3)[OF True] D(10)[OF True] c unfolding cg e
          by (auto simp: less_diff_conv add.commute)
      next
        case False
        then have "(?h + (c + i)) mod ?m = (?h + (c + i - ?m)) mod ?m"
          by (metis add.assoc le_add_diff_inverse2 mod_add_self2 not_less)
        moreover have "c + i - ?m < c" "c + i - ?m < ?m" "\<not> i < length fs - c"
          using False i cm D(6) by auto
        ultimately show ?thesis using W(3)[of "c + i - ?m"] c unfolding cg e by simp
      qed
    qed
    moreover have tl: "flist_tail ?g = (flist_head ?g + length (drop c fs)) mod flist_max_count ?g"
      using c D(7) mod_add_left_eq[of "?h + c" ?m "length fs - c"] by (simp del: add_diff_assoc) simp
    ultimately have "fl_rep ?g (drop c fs)"
      using D(1-6,8,9) W(1,2) c False unfolding fl_rep_def tl
      by (auto simp del: add_diff_assoc dest: in_set_dropD)
    then show ?thesis using False dr by (simp add: remove_head_clear_window[OF rep] Let_def flip: c_def)
  qed
qed

lemma remove_head_fields:
  assumes "fl_rep fl fs"
  shows "flist_frame_size (jb_framelist_remove_head fl cnt) = flist_frame_size fl"
    "flist_max_count (jb_framelist_remove_head fl cnt) = flist_max_count fl"
    "flist_origin (jb_framelist_remove_head fl cnt) =
      (if cnt = 0 \<or> fs = [] then flist_origin fl else u32 (flist_origin fl + min cnt (length fs)))"
  unfolding remove_head_clear_window[OF assms] Let_def by (auto simp: min_def)

section \<open>Putting a frame\<close>

text \<open>
  What \<open>jb_framelist_put_at\<close> does to the list: position \<open>k\<close> becomes a normal frame; when \<open>k\<close> is
  beyond the end, the frames skipped over are missing ones.
\<close>

definition put_frames :: "nat \<Rightarrow> slot list \<Rightarrow> nat \<Rightarrow> byte list \<Rightarrow> nat \<Rightarrow> slot list" where
  "put_frames sz fs k frame n =
     (let fs' = fs @ replicate (k + 1 - length fs) (blank sz)
      in fs'[k := (take n frame @ drop n (fst (fs' ! k)), PJMEDIA_JB_NORMAL_FRAME)])"

lemma length_put_frames: "length (put_frames sz fs k frame n) = max (length fs) (k + 1)"
  by (simp add: put_frames_def Let_def)

lemma put_frames_nth:
  "i < max (length fs) (k + 1) \<Longrightarrow>
   put_frames sz fs k frame n ! i =
     (let old = (if i < length fs then fs ! i else blank sz)
      in if i = k then (take n frame @ drop n (fst old), PJMEDIA_JB_NORMAL_FRAME) else old)"
  by (auto simp: put_frames_def Let_def nth_append nth_list_update)

lemma put_frames_sizes:
  assumes "\<forall>s\<in>set fs. length (fst s) = sz" "n \<le> sz" "n \<le> length frame"
  shows "\<forall>s\<in>set (put_frames sz fs k frame n). length (fst s) = sz"
proof
  fix s assume "s \<in> set (put_frames sz fs k frame n)"
  then obtain i where "i < max (length fs) (k + 1)" "s = put_frames sz fs k frame n ! i"
    by (metis in_set_conv_nth length_put_frames)
  then show "length (fst s) = sz"
    using assms by (auto simp: put_frames_nth Let_def blank_def zero_frame_def)
qed

lemma write_slot_fields [simp]:
  "flist_frame_size (write_slot i f n fl) = flist_frame_size fl"
  "flist_max_count (write_slot i f n fl) = flist_max_count fl"
  "flist_empty (write_slot i f n fl) = flist_empty fl"
  "flist_head (write_slot i f n fl) = flist_head fl"
  "flist_tail (write_slot i f n fl) = flist_tail fl"
  "flist_origin (write_slot i f n fl) = flist_origin fl"
  "length (flist_buffer (write_slot i f n fl)) = length (flist_buffer fl)"
  "length (flist_frame_type (write_slot i f n fl)) = length (flist_frame_type fl)"
  by (simp_all add: write_slot_def)

lemma cell_write_slot:
  "i < length (flist_buffer fl) \<Longrightarrow> length (flist_frame_type fl) = length (flist_buffer fl) \<Longrightarrow>
   cell (write_slot j f n fl) i =
     (if i = j then (take n f @ drop n (fst (cell fl i)), PJMEDIA_JB_NORMAL_FRAME) else cell fl i)"
  by (simp add: cell_def write_slot_def)

text \<open>Writing position \<open>k\<close> of the ring and moving the tail after it puts the frame in the list.\<close>

lemma fl_rep_write:
  assumes rep: "fl_rep fl fs" and k: "k < flist_max_count fl"
    and n: "n \<le> flist_frame_size fl" "n \<le> length frame"
  shows "fl_rep (write_slot ((flist_head fl + k) mod flist_max_count fl) frame n
                  (fl\<lparr>flist_origin := org, flist_empty := False,
                      flist_tail := (flist_head fl + max (length fs) (k + 1)) mod flist_max_count fl\<rparr>))
               (put_frames (flist_frame_size fl) fs k frame n)" (is "fl_rep (write_slot ?w _ _ ?g) ?fs")
proof -
  note D = fl_repD[OF rep]
  let ?m = "flist_max_count fl" and ?h = "flist_head fl"
  have "cell (write_slot ?w frame n ?g) ((?h + i) mod ?m) =
      (if i < length ?fs then ?fs ! i else blank (flist_frame_size fl))" if i: "i < ?m" for i
  proof -
    have lt: "(?h + i) mod ?m < ?m" using D(1) by simp
    have "cell (write_slot ?w frame n ?g) ((?h + i) mod ?m) =
      (let old = cell fl ((?h + i) mod ?m)
       in if i = k then (take n frame @ drop n (fst old), PJMEDIA_JB_NORMAL_FRAME) else old)"
      using cell_write_slot[of "(?h + i) mod ?m" ?g ?w frame n] lt D(3,4) ring_inj[OF D(5) i k]
        cell_cong[of ?g fl] by (simp add: Let_def)
    then show ?thesis using D(10)[OF i]
      by (auto simp: length_put_frames put_frames_nth Let_def less_max_iff_disj)
  qed
  moreover have "?fs \<noteq> []" using length_put_frames[of "flist_frame_size fl" fs k frame n] by force
  moreover have "\<forall>s\<in>set ?fs. length (fst s) = flist_frame_size fl"
    using put_frames_sizes[OF _ n] D(9) by blast
  ultimately show ?thesis
    using D(1-6) k unfolding fl_rep_def by (simp add: length_put_frames)
qed

lemma put_at_late:
  "fl_rep fl fs \<Longrightarrow> fs \<noteq> [] \<Longrightarrow> index < flist_origin fl \<Longrightarrow>
   jb_framelist_put_at fl index frame n = Some (fl, False)"
  by (simp add: jb_framelist_put_at_def fl_repD(8))

lemma put_at_soon:
  assumes "fl_rep fl fs" "fs \<noteq> []" "flist_origin fl + flist_max_count fl < 2 ^ 32"
    "flist_origin fl + flist_max_count fl \<le> index"
  shows "jb_framelist_put_at fl index frame n = Some (fl, False)"
proof -
  have "index > usub32 (u32 (flist_origin fl + flist_max_count fl)) 1"
    using assms(3,4) fl_repD(1)[OF assms(1)] by (simp add: usub32_ge)
  then show ?thesis
    using assms(2,4) fl_repD(8)[OF assms(1)] unfolding jb_framelist_put_at_def by auto
qed

lemma put_at_empty:
  assumes rep: "fl_rep fl []" and n: "n \<le> flist_frame_size fl" "n \<le> length frame"
  obtains fl' where "jb_framelist_put_at fl index frame n = Some (fl', True)"
    "fl_rep fl' (put_frames (flist_frame_size fl) [] 0 frame n)" "flist_origin fl' = index"
    "flist_frame_size fl' = flist_frame_size fl" "flist_max_count fl' = flist_max_count fl"
proof -
  note D = fl_repD[OF rep]
  let ?f = "write_slot ((flist_head fl + 0) mod flist_max_count fl) frame n
                  (fl\<lparr>flist_origin := index, flist_empty := False,
                      flist_tail := (flist_head fl + max (length ([] :: slot list)) (0 + 1)) mod flist_max_count fl\<rparr>)"
  have "jb_framelist_put_at fl index frame n = Some (?f, True)"
    using D(1,2,5,7,8) by (auto simp: jb_framelist_put_at_def write_slot_def Let_def)
  then show thesis using fl_rep_write[OF rep D(1) n] by (rule that) simp_all
qed

lemma put_at_window:
  assumes rep: "fl_rep fl fs" and ne: "fs \<noteq> []" and n: "n \<le> flist_frame_size fl" "n \<le> length frame"
    and bound: "flist_origin fl + flist_max_count fl < 2 ^ 32"
    and idx: "flist_origin fl \<le> index" "index < flist_origin fl + flist_max_count fl"
  obtains fl' where "jb_framelist_put_at fl index frame n = Some (fl', True)"
    "fl_rep fl' (put_frames (flist_frame_size fl) fs (index - flist_origin fl) frame n)"
    "flist_origin fl' = flist_origin fl"
    "flist_frame_size fl' = flist_frame_size fl" "flist_max_count fl' = flist_max_count fl"
proof -
  note D = fl_repD[OF rep]
  let ?m = "flist_max_count fl" and ?h = "flist_head fl" and ?o = "flist_origin fl"
  let ?k = "index - ?o" and ?l = "length fs"
  have k: "?k < ?m" using idx by simp
  let ?f = "write_slot ((?h + ?k) mod ?m) frame n
              (fl\<lparr>flist_origin := ?o, flist_empty := False,
                 flist_tail := (?h + max ?l (?k + 1)) mod ?m\<rparr>)"
  have e: "\<not> flist_empty fl" using D(8) ne by simp
  have top: "\<not> index > usub32 (u32 (?o + ?m)) 1"
    using bound idx D(1) by (simp add: usub32_ge)
  have w: "u32 (usub32 index ?o + ?h) = ?h + ?k"
    using idx bound D(2,5) by (simp add: usub32_ge)
  have sz: "u32 (?o + ?l) = ?o + ?l" using bound D(6) by simp
  have tl: "(if index \<ge> ?o + ?l
             then u32 (flist_tail fl + usub32 index (?o + ?l) + 1) mod ?m else flist_tail fl)
            = (?h + max ?l (?k + 1)) mod ?m"
  proof (cases "index \<ge> ?o + ?l")
    case True
    have t: "flist_tail fl < ?m" using D(1,7) by simp
    have "u32 (flist_tail fl + usub32 index (?o + ?l) + 1) = flist_tail fl + (index - (?o + ?l) + 1)"
      using True idx bound t D(2) by (simp add: usub32_ge)
    also have "\<dots> mod ?m = (?h + ?l + (index - (?o + ?l) + 1)) mod ?m"
      unfolding D(7) by (rule mod_add_left_eq)
    also have "?h + ?l + (index - (?o + ?l) + 1) = ?h + max ?l (?k + 1)" using True by simp
    finally show ?thesis using True by simp
  next
    case False
    then have "max ?l (?k + 1) = ?l" using idx by simp
    then show ?thesis using False D(7) by simp
  qed
  have upd: "fl\<lparr>flist_origin := ?o, flist_empty := False, flist_tail := t\<rparr> = fl\<lparr>flist_tail := t\<rparr>" for t
    using e by simp
  have same: "fl\<lparr>flist_tail := flist_tail fl\<rparr> = fl" by simp
  have "jb_framelist_put_at fl index frame n = Some (?f, True)"
    using e idx(1) top D(1) unfolding jb_framelist_put_at_def upd tl[symmetric] w sz
    by (simp add: Let_def sz fl_rep_size[OF rep] same)
  then show thesis using fl_rep_write[OF rep k n] by (rule that) simp_all
qed

section \<open>The put loop\<close>

definition new_slot :: "nat \<Rightarrow> byte list \<Rightarrow> nat \<Rightarrow> slot" where
  "new_slot sz frame n = (take n frame @ drop n (zero_frame sz), PJMEDIA_JB_NORMAL_FRAME)"

lemma put_frames_beyond:
  "length fs \<le> k \<Longrightarrow>
   put_frames sz fs k frame n = fs @ replicate (k - length fs) (blank sz) @ [new_slot sz frame n]"
  by (rule nth_equalityI)
     (auto simp: length_put_frames put_frames_nth nth_append new_slot_def blank_def Let_def nth_Cons')

text \<open>
  The list after a frame with a newer sequence number has been put: the first \<open>d\<close> frames have been
  dropped to make room; the numbers between the last frame and the new one are missing frames,
  unless nothing is left of the old list.
\<close>

definition push_frames :: "nat \<Rightarrow> nat \<Rightarrow> slot list \<Rightarrow> nat \<Rightarrow> slot \<Rightarrow> slot list" where
  "push_frames sz d fs gap s = (if d < length fs then drop d fs @ replicate gap (blank sz) @ [s] else [s])"

lemma put_loop_pushes:
  assumes "fl_rep fl fs" "n \<le> flist_frame_size fl" "n \<le> length frame"
    and "fs \<noteq> [] \<Longrightarrow> flist_origin fl + length fs \<le> index" and "index + 2 ^ 30 < 2 ^ 32"
  shows "\<exists>fl' d. put_loop max_count fl index frame n = Some fl' \<and> d \<le> length fs \<and>
           fl_rep fl' (push_frames (flist_frame_size fl) d fs (index - (flist_origin fl + length fs))
                         (new_slot (flist_frame_size fl) frame n)) \<and>
           flist_origin fl' = (if d < length fs then flist_origin fl + d else index) \<and>
           flist_frame_size fl' = flist_frame_size fl \<and> flist_max_count fl' = flist_max_count fl \<and>
           (index < flist_origin fl + flist_max_count fl \<longrightarrow> d = 0)"
  using assms
proof (induction "length fs" arbitrary: fl fs rule: less_induct)
  case less
  note rep = less.prems(1) and n = less.prems(2,3) and idx = less.prems(4,5)
  note D = fl_repD[OF rep]
  let ?sz = "flist_frame_size fl" and ?o = "flist_origin fl"
  show ?case
  proof (cases "fs = []")
    case True
    obtain fl' where "jb_framelist_put_at fl index frame n = Some (fl', True)"
      "fl_rep fl' (put_frames ?sz [] 0 frame n)" "flist_origin fl' = index"
      "flist_frame_size fl' = ?sz" "flist_max_count fl' = flist_max_count fl"
      using put_at_empty[of fl n frame index] rep n True by blast
    then show ?thesis using True
      by (subst put_loop.simps) (auto simp: push_frames_def put_frames_beyond)
  next
    case ne: False
    have bound: "?o + flist_max_count fl < 2 ^ 32" using idx ne D(2) by simp
    show ?thesis
    proof (cases "index < ?o + flist_max_count fl")
      case True
      obtain fl' where fl': "jb_framelist_put_at fl index frame n = Some (fl', True)"
        "fl_rep fl' (put_frames ?sz fs (index - ?o) frame n)" "flist_origin fl' = ?o"
        "flist_frame_size fl' = ?sz" "flist_max_count fl' = flist_max_count fl"
        using put_at_window[OF rep ne n bound _ True] idx(1)[OF ne] by (metis add_leE)
      have "length fs \<le> index - ?o" using idx(1)[OF ne] by simp
      then have "fl_rep fl' (push_frames ?sz 0 fs (index - (?o + length fs)) (new_slot ?sz frame n))"
        using fl'(2) ne by (simp add: put_frames_beyond push_frames_def)
      with fl' ne show ?thesis
        by (intro exI[of _ fl'] exI[of _ 0]) (subst put_loop.simps, auto)
    next
      case False
      define c where "c = PJ_MAX (max_count div 4) 1"
      have c: "0 < c" by (simp add: c_def PJ_MAX_def)
      let ?g = "jb_framelist_remove_head fl c" and ?e = "min c (length fs)"
      have put: "put_loop max_count fl index frame n = put_loop max_count ?g index frame n"
        by (subst put_loop.simps) (use put_at_soon[OF rep ne bound] False in \<open>simp add: c_def\<close>)
      have g: "fl_rep ?g (drop c fs)" "flist_frame_size ?g = ?sz" "flist_max_count ?g = flist_max_count fl"
        using fl_rep_remove_head[OF rep] remove_head_fields[OF rep] by simp_all
      have og: "flist_origin ?g = ?o + ?e"
        using remove_head_fields(3)[OF rep, of c] ne bound D(6) c by auto
      have "length (drop c fs) < length fs" using ne c by auto
      moreover have "drop c fs \<noteq> [] \<Longrightarrow> flist_origin ?g + length (drop c fs) \<le> index"
        using og idx(1)[OF ne] by auto
      ultimately obtain fl' d where IH: "put_loop max_count ?g index frame n = Some fl'"
        "d \<le> length (drop c fs)"
        "fl_rep fl' (push_frames ?sz d (drop c fs) (index - (flist_origin ?g + length (drop c fs)))
                         (new_slot ?sz frame n))"
        "flist_origin fl' = (if d < length (drop c fs) then flist_origin ?g + d else index)"
        "flist_frame_size fl' = ?sz" "flist_max_count fl' = flist_max_count fl"
        using less.hyps[of "drop c fs" ?g] g n idx(2) by auto
      have "push_frames ?sz d (drop c fs) (index - (flist_origin ?g + length (drop c fs))) s
          = push_frames ?sz (?e + d) fs (index - (?o + length fs)) s" for s
      proof (cases "d < length (drop c fs)")
        case True
        then have "?e = c" by auto
        then show ?thesis using True og by (auto simp: push_frames_def add.commute)
      qed (auto simp: push_frames_def)
      moreover have "?e + d < length fs \<longleftrightarrow> d < length (drop c fs)" by auto
      ultimately show ?thesis using put IH og False
        by (intro exI[of _ fl'] exI[of _ "?e + d"]) auto
    qed
  qed
qed

section \<open>The jitter buffer: invariant\<close>

definition max_delay :: "nat \<Rightarrow> int" where
  "max_delay max_count = int (u32 (max_count * 4) div 5)"

definition jb_inv :: "jbuf \<Rightarrow> bool" where
  "jb_inv jb \<longleftrightarrow>
     fl_inv (jb_fl jb) \<and> flist_frame_size (jb_fl jb) = jb_frame_size jb \<and>
     flist_max_count (jb_fl jb) = jb_max_count jb \<and> 0 < jb_frame_ptime jb \<and>
     - 1 \<le> jb_last_seq_no jb \<and> jb_last_seq_no jb < 2 ^ 31 \<and>
     (frames (jb_fl jb) \<noteq> [] \<longrightarrow>
        int (flist_origin (jb_fl jb) + length (frames (jb_fl jb))) \<le> jb_last_seq_no jb + 1) \<and>
     0 \<le> jb_min_prefetch jb \<and> 0 \<le> jb_prefetch jb \<and> jb_min_prefetch jb \<le> jb_max_prefetch jb \<and>
     jb_prefetch jb \<le> jb_max_prefetch jb \<and> jb_max_prefetch jb \<le> int (jb_max_count jb) \<and>
     (jb_min_prefetch jb \<le> max_delay (jb_max_count jb) \<longrightarrow> jb_min_prefetch jb \<le> jb_prefetch jb)"

text \<open>The part of the state that the delay estimation never touches.\<close>

definition same_buffer :: "jbuf \<Rightarrow> jbuf \<Rightarrow> bool" where
  "same_buffer a b \<longleftrightarrow>
     jb_fl a = jb_fl b \<and> jb_frame_size a = jb_frame_size b \<and> jb_max_count a = jb_max_count b \<and>
     jb_frame_ptime a = jb_frame_ptime b \<and> jb_last_seq_no a = jb_last_seq_no b \<and>
     jb_min_prefetch a = jb_min_prefetch b \<and> jb_max_prefetch a = jb_max_prefetch b \<and>
     jb_prefetch_cnt a = jb_prefetch_cnt b \<and> jb_status a = jb_status b"

definition delay_ok :: "jbuf \<Rightarrow> bool" where
  "delay_ok jb \<longleftrightarrow>
     0 \<le> jb_min_prefetch jb \<and> 0 \<le> jb_prefetch jb \<and> jb_min_prefetch jb \<le> jb_max_prefetch jb \<and>
     jb_prefetch jb \<le> jb_max_prefetch jb \<and>
     (jb_min_prefetch jb \<le> max_delay (jb_max_count jb) \<longrightarrow> jb_min_prefetch jb \<le> jb_prefetch jb)"

lemma max_delay_nonneg [simp]: "0 \<le> max_delay m"
  by (simp add: max_delay_def)

lemma PJ_ABS_abs [simp]: "PJ_ABS x = \<bar>x\<bar>"
  by (simp add: PJ_ABS_def)

lemma PJ_MAX_max [simp]: "PJ_MAX x y = max x (y::'a::linorder)"
  by (auto simp: PJ_MAX_def)

lemma PJ_MIN_min [simp]: "PJ_MIN x y = min x (y::'a::linorder)"
  by (auto simp: PJ_MIN_def)

lemma calculate_jitter_ok:
  assumes "0 < jb_frame_ptime jb" "delay_ok jb"
  shows "\<exists>jb'. jbuf_calculate_jitter jb = Some jb' \<and> same_buffer jb' jb \<and> delay_ok jb' \<and>
           jb_level jb' = jb_level jb"
  using assms
  by (simp add: jbuf_calculate_jitter_def Let_def same_buffer_def delay_ok_def flip: max_delay_def)
     (auto simp: min_def)

lemma same_bufferD:
  assumes "same_buffer a b"
  shows "jb_fl a = jb_fl b" "jb_frame_size a = jb_frame_size b" "jb_max_count a = jb_max_count b"
    "jb_frame_ptime a = jb_frame_ptime b" "jb_last_seq_no a = jb_last_seq_no b"
    "jb_min_prefetch a = jb_min_prefetch b" "jb_max_prefetch a = jb_max_prefetch b"
    "jb_prefetch_cnt a = jb_prefetch_cnt b" "jb_status a = jb_status b"
  using assms by (simp_all add: same_buffer_def)

lemma jbuf_update_ok:
  assumes "0 < jb_frame_ptime jb" "delay_ok jb"
  shows "\<exists>jb'. jbuf_update jb op = Some jb' \<and> same_buffer jb' jb \<and> delay_ok jb' \<and>
           jb_level jb' = jb_level jb"
  using calculate_jitter_ok[OF assms] assms
  by (cases "jb_last_op jb = op") (auto simp: jbuf_update_def same_buffer_def delay_ok_def)

lemma jb_invD:
  assumes "jb_inv jb"
  shows "fl_rep (jb_fl jb) (frames (jb_fl jb))" "flist_frame_size (jb_fl jb) = jb_frame_size jb"
    "flist_max_count (jb_fl jb) = jb_max_count jb" "0 < jb_frame_ptime jb"
    "- 1 \<le> jb_last_seq_no jb" "jb_last_seq_no jb < 2 ^ 31"
    "frames (jb_fl jb) \<noteq> [] \<Longrightarrow>
       int (flist_origin (jb_fl jb) + length (frames (jb_fl jb))) \<le> jb_last_seq_no jb + 1"
    "delay_ok jb" "jb_max_prefetch jb \<le> int (jb_max_count jb)"
  using assms by (simp_all add: jb_inv_def fl_inv_def delay_ok_def)

lemma jb_invI:
  assumes "fl_rep (jb_fl jb) fs" "flist_frame_size (jb_fl jb) = jb_frame_size jb"
    "flist_max_count (jb_fl jb) = jb_max_count jb" "0 < jb_frame_ptime jb"
    "- 1 \<le> jb_last_seq_no jb" "jb_last_seq_no jb < 2 ^ 31"
    "fs \<noteq> [] \<Longrightarrow> int (flist_origin (jb_fl jb) + length fs) \<le> jb_last_seq_no jb + 1"
    "delay_ok jb" "jb_max_prefetch jb \<le> int (jb_max_count jb)"
  shows "jb_inv jb"
  using assms fl_rep_frames[OF assms(1)] fl_invI[OF assms(1)] by (simp add: jb_inv_def delay_ok_def)

lemma max_delay_le: "m < 2 ^ 30 \<Longrightarrow> max_delay m \<le> int m"
  by (simp add: max_delay_def u32_def)

lemma jb_inv_create:
  "0 < ptime \<Longrightarrow> 0 < m \<Longrightarrow> m < 2 ^ 30 \<Longrightarrow> jb_inv (pjmedia_jbuf_create name sz ptime m)"
  by (rule jb_invI[OF _])
     (use fl_rep_init[of m sz] max_delay_le[of m] in
      \<open>auto simp: pjmedia_jbuf_create_def jb_framelist_init_def delay_ok_def
        PJMEDIA_JB_DEFAULT_INIT_DELAY_def simp flip: max_delay_def\<close>)

lemma jb_inv_set_fixed: "jb_inv jb \<Longrightarrow> jb_inv (fst (pjmedia_jbuf_set_fixed jb p))"
  by (auto simp: jb_inv_def pjmedia_jbuf_set_fixed_def)

lemma jb_inv_set_adaptive: "jb_inv jb \<Longrightarrow> jb_inv (fst (pjmedia_jbuf_set_adaptive jb p mn mx))"
  by (auto simp: jb_inv_def pjmedia_jbuf_set_adaptive_def)

lemma jb_inv_reset:
  assumes "jb_inv jb"
  shows "jb_inv (pjmedia_jbuf_reset jb)" "frames (jb_fl (pjmedia_jbuf_reset jb)) = []"
proof -
  note D = jb_invD[OF assms]
  have rep: "fl_rep (jb_fl (pjmedia_jbuf_reset jb)) []"
    using fl_rep_remove_head[OF D(1), of "jb_framelist_size (jb_fl jb)"] fl_rep_size[OF D(1)]
    by (simp add: pjmedia_jbuf_reset_def)
  show "frames (jb_fl (pjmedia_jbuf_reset jb)) = []" using fl_rep_frames[OF rep] .
  show "jb_inv (pjmedia_jbuf_reset jb)"
    by (rule jb_invI[OF rep])
       (use D remove_head_fields[OF D(1)] in \<open>auto simp: pjmedia_jbuf_reset_def delay_ok_def\<close>)
qed

section \<open>Put and get\<close>

text \<open>The first half of \<open>pjmedia_jbuf_put_frame\<close>, up to the delay estimation.\<close>

definition put_prepare :: "jbuf \<Rightarrow> int \<Rightarrow> jbuf option" where
  "put_prepare jb frame_seq =
     (let last = (if jb_last_seq_no jb = -1 then frame_seq - 1 else jb_last_seq_no jb);
          jb = jb\<lparr>jb_last_seq_no := max last frame_seq,
                  jb_level := (if frame_seq - last > 0 then jb_level jb + (frame_seq - last) else jb_level jb)\<rparr>
      in if jb_status jb = JB_STATUS_INITIALIZING
         then Some (jb\<lparr>jb_status := JB_STATUS_PROCESSING, jb_level := 0, jb_last_level := 0,
                       jb_last_jitter := 0\<rparr>)
         else jbuf_update jb JB_OP_PUT)"

definition put_diff :: "jbuf \<Rightarrow> int \<Rightarrow> int" where
  "put_diff jb frame_seq = (if jb_last_seq_no jb = -1 then 1 else frame_seq - jb_last_seq_no jb)"

lemma put_frame_prepare:
  "pjmedia_jbuf_put_frame jb frame frame_size frame_seq =
     (case put_prepare jb frame_seq of
        None \<Rightarrow> None
      | Some jb' \<Rightarrow>
          if put_diff jb frame_seq > 0 then
            case put_loop (jb_max_count jb') (jb_fl jb') (int_to_u32 frame_seq) frame
                   (min frame_size (jb_frame_size jb')) of
              None \<Rightarrow> None
            | Some fl \<Rightarrow>
                Some (jb'\<lparr>jb_fl := fl, jb_prefetch_cnt :=
                  (if jb_prefetch_cnt jb' < jb_prefetch jb'
                   then jb_prefetch_cnt jb' + put_diff jb frame_seq else jb_prefetch_cnt jb')\<rparr>)
          else
            map_option (\<lambda>(fl, ok). jb'\<lparr>jb_fl := fl\<rparr>)
              (jb_framelist_put_at (jb_fl jb') (int_to_u32 frame_seq) frame (min frame_size (jb_frame_size jb'))))"
  by (simp add: pjmedia_jbuf_put_frame_def put_prepare_def put_diff_def Let_def
        split: option.split)

lemma put_prepare_ok:
  assumes "jb_inv jb"
  shows "\<exists>jb'. put_prepare jb seq = Some jb' \<and> jb_fl jb' = jb_fl jb \<and>
     jb_frame_size jb' = jb_frame_size jb \<and> jb_max_count jb' = jb_max_count jb \<and>
     jb_frame_ptime jb' = jb_frame_ptime jb \<and> jb_max_prefetch jb' = jb_max_prefetch jb \<and>
     jb_min_prefetch jb' = jb_min_prefetch jb \<and>
     jb_prefetch_cnt jb' = jb_prefetch_cnt jb \<and> jb_status jb' = JB_STATUS_PROCESSING \<and>
     jb_last_seq_no jb' = (if jb_last_seq_no jb = -1 then seq else max (jb_last_seq_no jb) seq) \<and>
     delay_ok jb'"
proof -
  note D = jb_invD[OF assms]
  have up: "\<exists>jb'. jbuf_update (jb\<lparr>jb_last_seq_no := s, jb_level := l\<rparr>) JB_OP_PUT = Some jb' \<and>
      same_buffer jb' (jb\<lparr>jb_last_seq_no := s, jb_level := l\<rparr>) \<and> delay_ok jb'" for s l
    using jbuf_update_ok[of "jb\<lparr>jb_last_seq_no := s, jb_level := l\<rparr>" JB_OP_PUT] D(4,8)
    by (auto simp: delay_ok_def)
  show ?thesis
  proof (cases "jb_status jb")
    case JB_STATUS_INITIALIZING
    then show ?thesis using D(8) by (simp add: put_prepare_def Let_def delay_ok_def)
  next
    case JB_STATUS_PROCESSING
    define last where "last = (if jb_last_seq_no jb = -1 then seq - 1 else jb_last_seq_no jb)"
    define l where "l = (if seq - last > 0 then jb_level jb + (seq - last) else jb_level jb)"
    obtain jb' where u: "jbuf_update (jb\<lparr>jb_last_seq_no := max last seq, jb_level := l\<rparr>) JB_OP_PUT = Some jb'"
      "same_buffer jb' (jb\<lparr>jb_last_seq_no := max last seq, jb_level := l\<rparr>)" "delay_ok jb'"
      using up by blast
    have "put_prepare jb seq = Some jb'"
      using JB_STATUS_PROCESSING u(1) unfolding put_prepare_def last_def[symmetric] Let_def
      by (simp add: l_def)
    moreover have "max last seq = (if jb_last_seq_no jb = -1 then seq else max (jb_last_seq_no jb) seq)"
      by (simp add: last_def)
    ultimately show ?thesis
      using u(3) same_bufferD[OF u(2)] JB_STATUS_PROCESSING by (intro exI[of _ jb']) simp
  qed
qed

text \<open>
  A frame with a newer sequence number: the call returns, the frame becomes the last one of the
  list, and the list ends with the sequence number of the frame.
\<close>

lemma put_newer:
  assumes inv: "jb_inv jb" and seq: "jb_last_seq_no jb < seq" "seq < 2 ^ 31"
    and n: "n \<le> length frame"
  shows "\<exists>jb' d. pjmedia_jbuf_put_frame jb frame n seq = Some jb' \<and> jb_inv jb' \<and>
     d \<le> length (frames (jb_fl jb)) \<and>
     frames (jb_fl jb') =
       push_frames (jb_frame_size jb) d (frames (jb_fl jb))
         (nat seq - (flist_origin (jb_fl jb) + length (frames (jb_fl jb))))
         (new_slot (jb_frame_size jb) frame (min n (jb_frame_size jb))) \<and>
     flist_origin (jb_fl jb') + length (frames (jb_fl jb')) = nat seq + 1 \<and>
     (nat seq < flist_origin (jb_fl jb) + jb_max_count jb \<longrightarrow> d = 0) \<and>
     jb_last_seq_no jb' = seq \<and> jb_max_count jb' = jb_max_count jb \<and>
     jb_frame_size jb' = jb_frame_size jb \<and> jb_status jb' = JB_STATUS_PROCESSING"
proof -
  note D = jb_invD[OF inv]
  let ?fl = "jb_fl jb" and ?fs = "frames (jb_fl jb)" and ?sz = "jb_frame_size jb"
  have seq0: "0 \<le> seq" using seq D(5) by simp
  obtain jb1 where p: "put_prepare jb seq = Some jb1" "jb_fl jb1 = ?fl" "jb_frame_size jb1 = ?sz"
    "jb_max_count jb1 = jb_max_count jb" "jb_frame_ptime jb1 = jb_frame_ptime jb"
    "jb_max_prefetch jb1 = jb_max_prefetch jb" "jb_last_seq_no jb1 = seq" "delay_ok jb1"
    "jb_status jb1 = JB_STATUS_PROCESSING"
    using put_prepare_ok[OF inv, of seq] seq by auto
  have diff: "put_diff jb seq > 0" using seq by (simp add: put_diff_def)
  have below: "?fs \<noteq> [] \<Longrightarrow> flist_origin ?fl + length ?fs \<le> nat seq" using D(7) seq by auto
  have bnd: "min n ?sz \<le> flist_frame_size ?fl" "min n ?sz \<le> length frame" "nat seq + 2 ^ 30 < 2 ^ 32"
    using n seq D(2) by auto
  obtain fl' d where L: "put_loop (jb_max_count jb) ?fl (nat seq) frame (min n ?sz) = Some fl'"
    "d \<le> length ?fs"
    "fl_rep fl' (push_frames ?sz d ?fs (nat seq - (flist_origin ?fl + length ?fs)) (new_slot ?sz frame (min n ?sz)))"
    "flist_origin fl' = (if d < length ?fs then flist_origin ?fl + d else nat seq)"
    "flist_frame_size fl' = ?sz" "flist_max_count fl' = jb_max_count jb"
    "nat seq < flist_origin ?fl + jb_max_count jb \<Longrightarrow> d = 0"
    using put_loop_pushes[OF D(1) bnd(1,2) below bnd(3), of "jb_max_count jb"] unfolding D(2,3)
    by blast
  note fr = fl_rep_frames[OF L(3)]
  have len: "flist_origin fl' + length (frames fl') = nat seq + 1"
    using L(2,4) below unfolding fr by (cases "?fs = []") (simp_all add: push_frames_def)
  define c where "c = (if jb_prefetch_cnt jb1 < jb_prefetch jb1
    then jb_prefetch_cnt jb1 + put_diff jb seq else jb_prefetch_cnt jb1)"
  let ?jb' = "jb1\<lparr>jb_fl := fl', jb_prefetch_cnt := c\<rparr>"
  have put: "pjmedia_jbuf_put_frame jb frame n seq = Some ?jb'"
    unfolding put_frame_prepare using p(1-4) diff L(1) seq seq0 by (simp add: c_def)
  have "jb_inv ?jb'"
    by (rule jb_invI[of _ "frames fl'"])
       (use L(3,5,6) fr len p D(4,9) seq seq0 in \<open>simp_all add: delay_ok_def\<close>)
  then show ?thesis using put L(2,7) fr len p
    by (intro exI[of _ ?jb'] exI[of _ d]) simp
qed

text \<open>
  A frame that is not newer than the last one goes to its place in the window, or is ignored when
  its place has been played.
\<close>

lemma put_older:
  assumes inv: "jb_inv jb" and seq: "0 \<le> seq" "seq \<le> jb_last_seq_no jb"
    and n: "n \<le> length frame" and ne: "frames (jb_fl jb) \<noteq> []"
  shows "\<exists>jb'. pjmedia_jbuf_put_frame jb frame n seq = Some jb' \<and> jb_inv jb' \<and>
     flist_origin (jb_fl jb') = flist_origin (jb_fl jb) \<and> jb_last_seq_no jb' = jb_last_seq_no jb \<and>
     frames (jb_fl jb') =
       (if flist_origin (jb_fl jb) \<le> nat seq \<and> nat seq < flist_origin (jb_fl jb) + jb_max_count jb
        then put_frames (jb_frame_size jb) (frames (jb_fl jb)) (nat seq - flist_origin (jb_fl jb)) frame
               (min n (jb_frame_size jb))
        else frames (jb_fl jb))"
proof -
  note D = jb_invD[OF inv]
  let ?fl = "jb_fl jb" and ?fs = "frames (jb_fl jb)" and ?sz = "jb_frame_size jb"
  let ?in = "flist_origin ?fl \<le> nat seq \<and> nat seq < flist_origin ?fl + jb_max_count jb"
  obtain jb1 where p: "put_prepare jb seq = Some jb1" "jb_fl jb1 = ?fl" "jb_frame_size jb1 = ?sz"
    "jb_max_count jb1 = jb_max_count jb" "jb_frame_ptime jb1 = jb_frame_ptime jb"
    "jb_max_prefetch jb1 = jb_max_prefetch jb" "jb_last_seq_no jb1 = jb_last_seq_no jb" "delay_ok jb1"
    using put_prepare_ok[OF inv, of seq] seq by auto
  have diff: "\<not> put_diff jb seq > 0" using seq by (simp add: put_diff_def)
  have bnd: "min n ?sz \<le> flist_frame_size ?fl" "min n ?sz \<le> length frame"
    "flist_origin ?fl + flist_max_count ?fl < 2 ^ 32"
    using n D(2,6) D(7)[OF ne] fl_repD(2)[OF D(1)] by auto
  obtain fl' ok where L: "jb_framelist_put_at ?fl (nat seq) frame (min n ?sz) = Some (fl', ok)"
    "fl_rep fl' (if ?in then put_frames ?sz ?fs (nat seq - flist_origin ?fl) frame (min n ?sz) else ?fs)"
    "flist_origin fl' = flist_origin ?fl" "flist_frame_size fl' = ?sz" "flist_max_count fl' = jb_max_count jb"
  proof (cases ?in)
    case True
    then show ?thesis
      using put_at_window[OF D(1) ne bnd, of "nat seq" thesis] D(2,3) that by simp
  next
    case False
    then have "jb_framelist_put_at ?fl (nat seq) frame (min n ?sz) = Some (?fl, False)"
      using put_at_late[OF D(1) ne] put_at_soon[OF D(1) ne bnd(3)] by (metis D(3) not_less)
    then show ?thesis using that[of ?fl False] False D(1-3) by auto
  qed
  have put: "pjmedia_jbuf_put_frame jb frame n seq = Some (jb1\<lparr>jb_fl := fl'\<rparr>)"
    unfolding put_frame_prepare using p(1-4) diff L(1) seq D(6) by simp
  have len: "int (flist_origin ?fl + length (frames fl')) \<le> jb_last_seq_no jb + 1"
    using fl_rep_frames[OF L(2)] D(7)[OF ne] seq by (auto simp: length_put_frames)
  have "jb_inv (jb1\<lparr>jb_fl := fl'\<rparr>)"
    by (rule jb_invI[of _ "frames fl'"])
       (use L(2-5) fl_rep_frames[OF L(2)] len p D(4-6,9) in \<open>simp_all add: delay_ok_def\<close>)
  then show ?thesis using put p L(3) fl_rep_frames[OF L(2)] by simp
qed

text \<open>
  A late frame that arrives while the buffer is empty is accepted, whatever has been played
  before.
\<close>

lemma put_older_empty:
  assumes inv: "jb_inv jb" and seq: "0 \<le> seq" "seq \<le> jb_last_seq_no jb"
    and n: "n \<le> length frame" and emp: "frames (jb_fl jb) = []"
  shows "\<exists>jb'. pjmedia_jbuf_put_frame jb frame n seq = Some jb' \<and> jb_inv jb' \<and>
     flist_origin (jb_fl jb') = nat seq \<and> jb_last_seq_no jb' = jb_last_seq_no jb \<and>
     frames (jb_fl jb') = [new_slot (jb_frame_size jb) frame (min n (jb_frame_size jb))]"
proof -
  note D = jb_invD[OF inv]
  let ?fl = "jb_fl jb" and ?sz = "jb_frame_size jb"
  obtain jb1 where p: "put_prepare jb seq = Some jb1" "jb_fl jb1 = ?fl" "jb_frame_size jb1 = ?sz"
    "jb_max_count jb1 = jb_max_count jb" "jb_frame_ptime jb1 = jb_frame_ptime jb"
    "jb_max_prefetch jb1 = jb_max_prefetch jb" "jb_last_seq_no jb1 = jb_last_seq_no jb" "delay_ok jb1"
    using put_prepare_ok[OF inv, of seq] seq by auto
  have diff: "\<not> put_diff jb seq > 0" using seq by (simp add: put_diff_def)
  have bnd: "min n ?sz \<le> flist_frame_size ?fl" "min n ?sz \<le> length frame" using n D(2) by auto
  obtain fl' where L: "jb_framelist_put_at ?fl (nat seq) frame (min n ?sz) = Some (fl', True)"
    "fl_rep fl' [new_slot ?sz frame (min n ?sz)]" "flist_origin fl' = nat seq"
    "flist_frame_size fl' = ?sz" "flist_max_count fl' = jb_max_count jb"
    using put_at_empty[OF D(1)[unfolded emp] bnd, of "nat seq" thesis] D(2,3)
    by (simp add: put_frames_beyond)
  have put: "pjmedia_jbuf_put_frame jb frame n seq = Some (jb1\<lparr>jb_fl := fl'\<rparr>)"
    unfolding put_frame_prepare using p(1-4) diff L(1) seq D(6) by simp
  have "jb_inv (jb1\<lparr>jb_fl := fl'\<rparr>)"
    by (rule jb_invI[of _ "frames fl'"])
       (use L(2-5) fl_rep_frames[OF L(2)] p D(4-6,9) seq in \<open>simp_all add: delay_ok_def\<close>)
  then show ?thesis using put p L(3) fl_rep_frames[OF L(2)] by simp
qed

lemma get_frame_cases:
  assumes inv: "jb_inv jb"
  obtains jb1 jb' frame ftype where
    "jbuf_update (jb\<lparr>jb_level := jb_level jb - 1\<rparr>) JB_OP_GET = Some jb1"
    "pjmedia_jbuf_get_frame jb = Some (jb', frame, ftype)" "jb_inv jb'"
    "(frame, ftype) =
       (if frames (jb_fl jb) = [] then (zero_frame (jb_frame_size jb), PJMEDIA_JB_ZERO_EMPTY_FRAME)
        else if jb_prefetch_cnt jb < jb_prefetch jb1
        then (zero_frame (jb_frame_size jb), PJMEDIA_JB_ZERO_PREFETCH_FRAME)
        else let (f, t) = hd (frames (jb_fl jb))
             in (f, if t = PJMEDIA_JB_NORMAL_FRAME then t else PJMEDIA_JB_MISSING_FRAME))"
    "frames (jb_fl jb') =
       (if jb_prefetch_cnt jb < jb_prefetch jb1 then frames (jb_fl jb) else tl (frames (jb_fl jb)))"
    "frames (jb_fl jb) \<noteq> [] \<Longrightarrow> flist_origin (jb_fl jb') =
       (if jb_prefetch_cnt jb < jb_prefetch jb1 then flist_origin (jb_fl jb) else flist_origin (jb_fl jb) + 1)"
proof -
  note D = jb_invD[OF inv]
  let ?fl = "jb_fl jb" and ?fs = "frames (jb_fl jb)"
  obtain jb1 where u: "jbuf_update (jb\<lparr>jb_level := jb_level jb - 1\<rparr>) JB_OP_GET = Some jb1"
    "same_buffer jb1 (jb\<lparr>jb_level := jb_level jb - 1\<rparr>)" "delay_ok jb1"
    using jbuf_update_ok[of "jb\<lparr>jb_level := jb_level jb - 1\<rparr>" JB_OP_GET] D(4,8)
    by (auto simp: delay_ok_def)
  note S = same_bufferD[OF u(2), simplified]
  have inv1: "jb_inv (jb1\<lparr>jb_prefetch_cnt := c\<rparr>)" for c
    by (rule jb_invI[of _ ?fs]) (use D S u(3) in \<open>simp_all add: delay_ok_def\<close>)
  have inv1': "jb_inv jb1" using inv1[of "jb_prefetch_cnt jb1"] by simp
  have size: "jb_framelist_size (jb_fl jb1) = length ?fs" using fl_rep_size[OF D(1)] S by simp
  show thesis
  proof (cases "?fs = []")
    case True
    have g: "jb_framelist_get ?fl = (?fl, None)" using D(1) fl_rep_get_Nil True by simp
    have "pjmedia_jbuf_get_frame jb = Some (jb1\<lparr>jb_prefetch_cnt := 0\<rparr>, zero_frame (jb_frame_size jb),
        PJMEDIA_JB_ZERO_EMPTY_FRAME)"
      using u(1) size True S g by (simp add: pjmedia_jbuf_get_frame_def Let_def)
    from u(1) this inv1 show ?thesis by (rule that) (use True S in simp_all)
  next
    case ne: False
    show ?thesis
    proof (cases "jb_prefetch_cnt jb < jb_prefetch jb1")
      case True
      have "pjmedia_jbuf_get_frame jb = Some (jb1, zero_frame (jb_frame_size jb),
          PJMEDIA_JB_ZERO_PREFETCH_FRAME)"
        using u(1) size True S ne by (simp add: pjmedia_jbuf_get_frame_def)
      from u(1) this inv1' show ?thesis by (rule that) (use True ne S in simp_all)
    next
      case False
      obtain f fs where fs: "?fs = f # fs" using ne by (cases ?fs) auto
      obtain fl' where g: "jb_framelist_get ?fl = (fl', Some f)" "fl_rep fl' fs"
        "flist_origin fl' = u32 (flist_origin ?fl + 1)" "flist_frame_size fl' = flist_frame_size ?fl"
        "flist_max_count fl' = flist_max_count ?fl"
        using fl_rep_get_Cons[of ?fl f fs thesis] D(1) fs by simp
      have bnd: "flist_origin ?fl + 1 < 2 ^ 32" using D(6) D(7)[OF ne] fs by simp
      have get: "pjmedia_jbuf_get_frame jb = Some (jb1\<lparr>jb_fl := fl'\<rparr>, fst f,
          if snd f = PJMEDIA_JB_NORMAL_FRAME then PJMEDIA_JB_NORMAL_FRAME else PJMEDIA_JB_MISSING_FRAME)"
        using u(1) size False S ne g(1)
        by (cases f) (simp add: pjmedia_jbuf_get_frame_def)
      have "jb_inv (jb1\<lparr>jb_fl := fl'\<rparr>)"
        by (rule jb_invI[OF _]) (use g D S fs bnd D(7)[OF ne] u(3) in \<open>simp_all add: delay_ok_def\<close>)
      with u(1) get show ?thesis
        by (rule that) (use False ne fs g bnd fl_rep_frames[OF g(2)] in \<open>simp_all split: prod.split\<close>)
    qed
  qed
qed

section \<open>Playing out a frame list\<close>

text \<open>
  What the jitter buffer relies on: a queue of slots whose head can be taken or discarded. The
  client lemmas follow from these laws alone.
\<close>

primrec drain :: "('b \<Rightarrow> 'b \<times> 'f option) \<Rightarrow> nat \<Rightarrow> 'b \<Rightarrow> 'b \<times> 'f list" where
  "drain get 0 b = (b, [])"
| "drain get (Suc n) b =
     (case get b of
        (b, None) \<Rightarrow> (b, [])
      | (b, Some f) \<Rightarrow> let (b, fs) = drain get n b in (b, f # fs))"

locale playout_queue =
  fixes inv :: "'b \<Rightarrow> bool" and content :: "'b \<Rightarrow> 'f list" and size_of :: "'b \<Rightarrow> nat"
    and get :: "'b \<Rightarrow> 'b \<times> 'f option" and remove_head :: "'b \<Rightarrow> nat \<Rightarrow> 'b"
  assumes size_law: "inv b \<Longrightarrow> size_of b = length (content b)"
    and get_empty: "inv b \<Longrightarrow> content b = [] \<Longrightarrow> get b = (b, None)"
    and get_head: "inv b \<Longrightarrow> content b = f # fs \<Longrightarrow> \<exists>b'. get b = (b', Some f) \<and> inv b' \<and> content b' = fs"
    and remove_law: "inv b \<Longrightarrow> inv (remove_head b n) \<and> content (remove_head b n) = drop n (content b)"
begin

lemma drain_content:
  "inv b \<Longrightarrow> snd (drain get n b) = take n (content b) \<and> inv (fst (drain get n b)) \<and>
     content (fst (drain get n b)) = drop n (content b)"
proof (induction n arbitrary: b)
  case (Suc n)
  show ?case
  proof (cases "content b")
    case Nil
    then show ?thesis using get_empty[OF Suc.prems] Suc.prems by simp
  next
    case (Cons f fs)
    obtain b' where "get b = (b', Some f)" "inv b'" "content b' = fs"
      using get_head[OF Suc.prems Cons] by blast
    then show ?thesis using Suc.IH[of b'] Cons by (simp add: case_prod_beta Let_def)
  qed
qed simp

lemma remove_then_drain:
  "inv b \<Longrightarrow> snd (drain get n (remove_head b k)) = take n (drop k (content b))"
  using drain_content remove_law by simp

lemma drain_all: "inv b \<Longrightarrow> size_of (fst (drain get (size_of b) b)) = 0"
  using drain_content size_law by simp

end

interpretation jq: playout_queue fl_inv frames jb_framelist_size jb_framelist_get jb_framelist_remove_head
proof
  fix fl :: jb_framelist and f :: slot and fs :: "slot list" and n :: nat
  assume inv: "fl_inv fl"
  then have rep: "fl_rep fl (frames fl)" by (simp add: fl_inv_def)
  show "jb_framelist_size fl = length (frames fl)" using fl_rep_size[OF rep] .
  show "fl_inv (jb_framelist_remove_head fl n) \<and>
      frames (jb_framelist_remove_head fl n) = drop n (frames fl)"
    using fl_rep_remove_head[OF rep] fl_invI fl_rep_frames by blast
  show "jb_framelist_get fl = (fl, None)" if "frames fl = []"
    using fl_rep_get_Nil rep that by simp
  show "\<exists>fl'. jb_framelist_get fl = (fl', Some f) \<and> fl_inv fl' \<and> frames fl' = fs" if "frames fl = f # fs"
    using fl_rep_get_Cons[of fl f fs] rep that fl_invI fl_rep_frames by metis
qed

section \<open>The buffer by sequence numbers\<close>

definition seq_slot :: "jbuf \<Rightarrow> nat \<Rightarrow> slot option" where
  "seq_slot jb s =
     (if flist_origin (jb_fl jb) \<le> s \<and> s < flist_origin (jb_fl jb) + jb_framelist_size (jb_fl jb)
      then Some (frames (jb_fl jb) ! (s - flist_origin (jb_fl jb))) else None)"

lemma frames_length: "jb_inv jb \<Longrightarrow> jb_framelist_size (jb_fl jb) = length (frames (jb_fl jb))"
  using jb_invD(1) fl_rep_size by blast

text \<open>The calls of the media stream, in any order.\<close>

datatype jb_call =
    Put_Frame "byte list" nat int
  | Get_Frame
  | Reset
  | Set_Fixed nat
  | Set_Adaptive nat nat nat

definition jb_exec :: "jbuf \<Rightarrow> jb_call \<Rightarrow> jbuf option" where
  "jb_exec jb c =
     (case c of
        Put_Frame frame n seq \<Rightarrow> pjmedia_jbuf_put_frame jb frame n seq
      | Get_Frame \<Rightarrow> map_option fst (pjmedia_jbuf_get_frame jb)
      | Reset \<Rightarrow> Some (pjmedia_jbuf_reset jb)
      | Set_Fixed p \<Rightarrow> Some (fst (pjmedia_jbuf_set_fixed jb p))
      | Set_Adaptive p mn mx \<Rightarrow> Some (fst (pjmedia_jbuf_set_adaptive jb p mn mx)))"

fun jb_run :: "jbuf \<Rightarrow> jb_call list \<Rightarrow> jbuf option" where
  "jb_run jb [] = Some jb"
| "jb_run jb (c # cs) = (case jb_exec jb c of None \<Rightarrow> None | Some jb \<Rightarrow> jb_run jb cs)"

fun call_ok :: "jb_call \<Rightarrow> bool" where
  "call_ok (Put_Frame frame n seq) \<longleftrightarrow> n \<le> length frame \<and> 0 \<le> seq \<and> seq < 2 ^ 31"
| "call_ok _ \<longleftrightarrow> True"

lemma jb_inv_put:
  assumes "jb_inv jb" "n \<le> length frame" "0 \<le> seq" "seq < 2 ^ 31"
  shows "\<exists>jb'. pjmedia_jbuf_put_frame jb frame n seq = Some jb' \<and> jb_inv jb'"
  using put_newer[of jb seq n frame] put_older[of jb seq n frame] put_older_empty[of jb seq n frame] assms
  by (metis not_le)

lemma jb_inv_exec: "jb_inv jb \<Longrightarrow> call_ok c \<Longrightarrow> \<exists>jb'. jb_exec jb c = Some jb' \<and> jb_inv jb'"
  using jb_inv_put jb_inv_reset(1) jb_inv_set_fixed jb_inv_set_adaptive get_frame_cases[of jb]
  by (cases c) (fastforce simp: jb_exec_def)+


section \<open>Properties\<close>



text \<open>
  C28. Putting a frame with a newer sequence number always succeeds: it is stored under its
  sequence number as the last frame of the buffer, every frame between the new start of the buffer
  and it that was there is kept, the numbers skipped read as missing frames, and nothing is
  dropped when the frame fits into the window.
\<close>

theorem put_newer_frame:
  assumes inv: "jb_inv jb" and seq: "jb_last_seq_no jb < seq" "seq < 2 ^ 31" and n: "n \<le> length frame"
  shows "\<exists>jb'. pjmedia_jbuf_put_frame jb frame n seq = Some jb' \<and> jb_inv jb' \<and> jb_last_seq_no jb' = seq \<and>
     flist_origin (jb_fl jb') \<le> nat seq \<and>
     (\<forall>s. seq_slot jb' s =
        (if s < flist_origin (jb_fl jb') \<or> nat seq < s then None
         else if s = nat seq then Some (new_slot (jb_frame_size jb) frame (min n (jb_frame_size jb)))
         else case seq_slot jb s of None \<Rightarrow> Some (blank (jb_frame_size jb)) | Some x \<Rightarrow> Some x)) \<and>
     (frames (jb_fl jb) \<noteq> [] \<longrightarrow> flist_origin (jb_fl jb) \<le> flist_origin (jb_fl jb') \<and>
        (nat seq < flist_origin (jb_fl jb) + jb_max_count jb \<longrightarrow>
           flist_origin (jb_fl jb') = flist_origin (jb_fl jb)))"
proof -
  let ?o = "flist_origin (jb_fl jb)" and ?fs = "frames (jb_fl jb)"
  obtain jb' d where P: "pjmedia_jbuf_put_frame jb frame n seq = Some jb'" "jb_inv jb'" "d \<le> length ?fs"
    "frames (jb_fl jb') = push_frames (jb_frame_size jb) d ?fs (nat seq - (?o + length ?fs))
         (new_slot (jb_frame_size jb) frame (min n (jb_frame_size jb)))"
    "flist_origin (jb_fl jb') + length (frames (jb_fl jb')) = nat seq + 1"
    "nat seq < ?o + jb_max_count jb \<Longrightarrow> d = 0" "jb_last_seq_no jb' = seq"
    using put_newer[OF inv seq n] by blast
  have below: "?fs \<noteq> [] \<Longrightarrow> ?o + length ?fs \<le> nat seq"
    using jb_invD(7)[OF inv] seq by auto
  note L = frames_length[OF inv] frames_length[OF P(2)]
  show ?thesis
  proof (cases "d < length ?fs")
    case True
    have o': "flist_origin (jb_fl jb') = ?o + d"
      using P(4,5) True below by (cases "?fs = []") (auto simp: push_frames_def)
    have "seq_slot jb' s =
        (if s < flist_origin (jb_fl jb') \<or> nat seq < s then None
         else if s = nat seq then Some (new_slot (jb_frame_size jb) frame (min n (jb_frame_size jb)))
         else case seq_slot jb s of None \<Rightarrow> Some (blank (jb_frame_size jb)) | Some x \<Rightarrow> Some x)" for s
      using True below P(4,5) o'
      by (auto simp: seq_slot_def L push_frames_def nth_append nth_Cons' less_diff_conv)
    moreover have "flist_origin (jb_fl jb') \<le> nat seq"
      using P(5) P(4) by (simp add: push_frames_def split: if_splits)
    ultimately show ?thesis using P o' by auto
  next
    case False
    then have one: "frames (jb_fl jb') = [new_slot (jb_frame_size jb) frame (min n (jb_frame_size jb))]"
      using P(4) by (simp add: push_frames_def)
    have o': "flist_origin (jb_fl jb') = nat seq" using P(5) one by simp
    have "?fs \<noteq> [] \<Longrightarrow> d \<noteq> 0" using False by (cases "?fs") auto
    then show ?thesis using P(1,2,6,7) one o' below
      by (intro exI[of _ jb']) (auto simp: seq_slot_def L)
  qed
qed

theorem put_newer_frame_witness:
  "\<exists>jb'. pjmedia_jbuf_put_frame (pjmedia_jbuf_create ''jb'' 2 20 4) [7, 8] 2 5 = Some jb' \<and>
     seq_slot jb' 5 = Some ([7, 8], PJMEDIA_JB_NORMAL_FRAME)"
proof -
  let ?jb = "pjmedia_jbuf_create ''jb'' 2 20 4"
  have inv: "jb_inv ?jb" by (rule jb_inv_create) simp_all
  have last: "jb_last_seq_no ?jb < 5" and sz: "jb_frame_size ?jb = 2"
    by (simp_all add: pjmedia_jbuf_create_def)
  from put_newer_frame[OF inv last, of 2 "[7, 8]"]
  obtain jb' where P: "pjmedia_jbuf_put_frame ?jb [7, 8] 2 5 = Some jb'" "flist_origin (jb_fl jb') \<le> 5"
    "\<forall>s. seq_slot jb' s =
        (if s < flist_origin (jb_fl jb') \<or> nat 5 < s then None
         else if s = nat 5 then Some (new_slot (jb_frame_size ?jb) [7, 8] (min 2 (jb_frame_size ?jb)))
         else case seq_slot ?jb s of None \<Rightarrow> Some (blank (jb_frame_size ?jb)) | Some x \<Rightarrow> Some x)"
    by force
  have "seq_slot jb' 5 = Some ([7, 8], PJMEDIA_JB_NORMAL_FRAME)"
    using P(2) spec[OF P(3), of 5] sz by (simp add: new_slot_def zero_frame_def)
  then show ?thesis using P(1) by blast
qed

text \<open>
  A frame that is not newer than the last one never moves the window: when its number lies in
  the window it is written into its place and every other frame stays; otherwise, being too late
  or too early, the buffer is unchanged.
\<close>

theorem put_older_frame:
  assumes inv: "jb_inv jb" and seq: "0 \<le> seq" "seq \<le> jb_last_seq_no jb" and n: "n \<le> length frame"
    and ne: "frames (jb_fl jb) \<noteq> []"
  shows "\<exists>jb'. pjmedia_jbuf_put_frame jb frame n seq = Some jb' \<and> jb_inv jb' \<and>
     flist_origin (jb_fl jb') = flist_origin (jb_fl jb) \<and>
     (if flist_origin (jb_fl jb) \<le> nat seq \<and> nat seq < flist_origin (jb_fl jb) + jb_max_count jb
      then map_option snd (seq_slot jb' (nat seq)) = Some PJMEDIA_JB_NORMAL_FRAME \<and>
           map_option (take (min n (jb_frame_size jb)) \<circ> fst) (seq_slot jb' (nat seq)) =
             Some (take (min n (jb_frame_size jb)) frame) \<and>
           (\<forall>s. s \<noteq> nat seq \<longrightarrow> seq_slot jb s \<noteq> None \<longrightarrow> seq_slot jb' s = seq_slot jb s)
      else seq_slot jb' = seq_slot jb)"
proof -
  let ?o = "flist_origin (jb_fl jb)" and ?fs = "frames (jb_fl jb)" and ?sz = "jb_frame_size jb"
  let ?in = "?o \<le> nat seq \<and> nat seq < ?o + jb_max_count jb"
  obtain jb' where P: "pjmedia_jbuf_put_frame jb frame n seq = Some jb'" "jb_inv jb'"
    "flist_origin (jb_fl jb') = ?o"
    "frames (jb_fl jb') = (if ?in then put_frames ?sz ?fs (nat seq - ?o) frame (min n ?sz) else ?fs)"
    using put_older[OF inv seq n ne] by blast
  note L = frames_length[OF inv] frames_length[OF P(2)]
  show ?thesis
  proof (cases ?in)
    case True
    have "seq_slot jb' s = seq_slot jb s" if "s \<noteq> nat seq" "seq_slot jb s \<noteq> None" for s
    proof -
      have s: "?o \<le> s" "s < ?o + length ?fs"
        using that(2) by (auto simp: seq_slot_def L split: if_splits)
      have ne': "s - ?o \<noteq> nat seq - ?o" using s that(1) True by auto
      have i: "s - ?o < max (length ?fs) (nat seq - ?o + 1)" using s by auto
      show ?thesis using s ne' put_frames_nth[OF i] P(3,4) True
        by (auto simp: seq_slot_def L length_put_frames Let_def)
    qed
    moreover define old where "old = fst (if nat seq - ?o < length ?fs then ?fs ! (nat seq - ?o) else blank ?sz)"
    have "nat seq < ?o + max (length ?fs) (Suc (nat seq - ?o))" using True by auto
    then have "seq_slot jb' (nat seq) =
        Some (take (min n ?sz) frame @ drop (min n ?sz) old, PJMEDIA_JB_NORMAL_FRAME)"
      using put_frames_nth[of "nat seq - ?o" ?fs "nat seq - ?o" ?sz frame "min n ?sz"] P(3,4) True
      by (simp add: seq_slot_def L length_put_frames Let_def old_def)
    ultimately show ?thesis using P True n by (auto simp: min_def)
  next
    case False
    then show ?thesis using P by (auto simp: seq_slot_def L fun_eq_iff)
  qed
qed

text \<open>
  C29. Getting a frame: silence with the matching type while the buffer is empty or still filling
  up to the delay, and otherwise the frame of the first sequence number of the buffer, which is
  removed, every later frame staying under its number.
\<close>

theorem get_frame_in_order:
  assumes inv: "jb_inv jb"
  shows "\<exists>jb1 jb' frame ftype. jbuf_update (jb\<lparr>jb_level := jb_level jb - 1\<rparr>) JB_OP_GET = Some jb1 \<and>
     pjmedia_jbuf_get_frame jb = Some (jb', frame, ftype) \<and> jb_inv jb' \<and>
     (case seq_slot jb (flist_origin (jb_fl jb)) of
        None \<Rightarrow> ftype = PJMEDIA_JB_ZERO_EMPTY_FRAME \<and> frame = zero_frame (jb_frame_size jb) \<and>
               seq_slot jb' = seq_slot jb
      | Some (f, t) \<Rightarrow>
          if jb_prefetch_cnt jb < jb_prefetch jb1
          then ftype = PJMEDIA_JB_ZERO_PREFETCH_FRAME \<and> frame = zero_frame (jb_frame_size jb) \<and>
               seq_slot jb' = seq_slot jb
          else frame = f \<and> (ftype = PJMEDIA_JB_NORMAL_FRAME \<longleftrightarrow> t = PJMEDIA_JB_NORMAL_FRAME) \<and>
               (ftype = PJMEDIA_JB_MISSING_FRAME \<longleftrightarrow> t \<noteq> PJMEDIA_JB_NORMAL_FRAME) \<and>
               seq_slot jb' = (seq_slot jb)(flist_origin (jb_fl jb) := None))"
proof (cases "frames (jb_fl jb)")
  case Nil
  show ?thesis
    by (rule get_frame_cases[OF inv])
       (use Nil frames_length[OF inv] in \<open>auto simp: seq_slot_def fun_eq_iff frames_length\<close>)
next
  case (Cons f fs)
  have s0: "seq_slot jb (flist_origin (jb_fl jb)) = Some f"
    by (simp add: seq_slot_def frames_length[OF inv] Cons)
  show ?thesis
    by (rule get_frame_cases[OF inv])
       (use Cons frames_length[OF inv] s0 in
         \<open>auto simp: seq_slot_def fun_eq_iff frames_length nth_Cons' split: prod.splits if_splits\<close>)
qed

text \<open>A buffer with four slots that holds the frames 5 and 7, for the examples.\<close>

definition jb_57 :: "jbuf" where
  "jb_57 = \<lparr>jb_name = ''jb'',
   jb_fl = \<lparr>flist_buffer = [[7, 8], [0, 0], [9, 9], [0, 0]],
     flist_frame_type = [PJMEDIA_JB_NORMAL_FRAME, PJMEDIA_JB_MISSING_FRAME, PJMEDIA_JB_NORMAL_FRAME,
       PJMEDIA_JB_MISSING_FRAME], flist_frame_size = 2, flist_max_count = 4, flist_empty = False,
     flist_head = 0, flist_tail = 3, flist_origin = 5\<rparr>,
   jb_frame_size = 2, jb_frame_ptime = 20, jb_max_count = 4, jb_level = 2, jb_last_level = 2,
   jb_last_jitter = 2, jb_max_hist_jitter = 2, jb_stable_hist = 2, jb_op_count = 1, jb_last_op = JB_OP_PUT,
   jb_last_seq_no = 7, jb_prefetch = 3, jb_prefetch_cnt = 3, jb_min_prefetch = 0, jb_max_prefetch = 3,
   jb_status = JB_STATUS_PROCESSING\<rparr>"

lemma all_less_4: "(\<forall>i<4. P i) \<longleftrightarrow> P 0 \<and> P 1 \<and> P 2 \<and> P (3::nat)"
  by (auto simp: numeral_eq_Suc All_less_Suc)

lemma zero_frame_2: "zero_frame 2 = [0, 0]"
  by (simp add: zero_frame_def numeral_eq_Suc)

lemma jb_57_rep: "fl_rep (jb_fl jb_57)
    [([7, 8], PJMEDIA_JB_NORMAL_FRAME), ([0, 0], PJMEDIA_JB_MISSING_FRAME), ([9, 9], PJMEDIA_JB_NORMAL_FRAME)]"
  by (simp add: fl_rep_def jb_57_def cell_def blank_def zero_frame_2 all_less_4)

lemma jb_57_inv: "jb_inv jb_57"
  by (rule jb_invI[OF jb_57_rep]) (simp_all add: jb_57_def delay_ok_def)

theorem put_older_frame_witness:
  "\<exists>jb'. pjmedia_jbuf_put_frame jb_57 [1, 1] 2 6 = Some jb' \<and>
     map_option snd (seq_slot jb' 6) = Some PJMEDIA_JB_NORMAL_FRAME"
  using put_older_frame[OF jb_57_inv, of 6 2 "[1, 1]"] fl_rep_frames[OF jb_57_rep]
  by (force simp: jb_57_def)

theorem get_frame_in_order_witness:
  "\<exists>jb' frame ftype. pjmedia_jbuf_get_frame jb_57 = Some (jb', frame, ftype) \<and> jb_inv jb'"
  using get_frame_in_order[OF jb_57_inv] by blast

fun traffic :: "jb_call \<Rightarrow> bool" where
  "traffic (Put_Frame _ _ _) \<longleftrightarrow> True"
| "traffic Get_Frame \<longleftrightarrow> True"
| "traffic Reset \<longleftrightarrow> True"
| "traffic _ \<longleftrightarrow> False"

definition limits :: "jbuf \<Rightarrow> int \<times> int \<times> nat" where
  "limits jb = (jb_min_prefetch jb, jb_max_prefetch jb, jb_max_count jb)"

lemma put_frame_limits:
  assumes "jb_inv jb" "pjmedia_jbuf_put_frame jb frame n seq = Some jb'"
  shows "limits jb' = limits jb"
  using put_prepare_ok[OF assms(1), of seq] assms(2) unfolding put_frame_prepare
  by (auto simp: limits_def split: option.splits if_splits)

lemma get_frame_limits:
  assumes "jb_inv jb" "pjmedia_jbuf_get_frame jb = Some (jb', frame, t)"
  shows "limits jb' = limits jb"
proof -
  obtain jb1 where "jbuf_update (jb\<lparr>jb_level := jb_level jb - 1\<rparr>) JB_OP_GET = Some jb1"
    "same_buffer jb1 (jb\<lparr>jb_level := jb_level jb - 1\<rparr>)"
    using jbuf_update_ok[of "jb\<lparr>jb_level := jb_level jb - 1\<rparr>" JB_OP_GET] jb_invD(4,8)[OF assms(1)]
    by (auto simp: delay_ok_def)
  then show ?thesis using assms(2)
    by (auto simp: pjmedia_jbuf_get_frame_def limits_def same_buffer_def Let_def
        split: if_splits prod.splits option.splits)
qed

lemma exec_limits:
  assumes "jb_inv jb" "traffic c" "jb_exec jb c = Some jb'"
  shows "limits jb' = limits jb"
  using assms put_frame_limits get_frame_limits
  by (cases c) (auto simp: jb_exec_def limits_def pjmedia_jbuf_reset_def split: prod.splits)

lemma run_limits:
  "jb_inv jb \<Longrightarrow> \<forall>c\<in>set cs. call_ok c \<and> traffic c \<Longrightarrow>
   \<exists>jb'. jb_run jb cs = Some jb' \<and> jb_inv jb' \<and> limits jb' = limits jb"
proof (induction cs arbitrary: jb)
  case (Cons c cs)
  then obtain jb1 where "jb_exec jb c = Some jb1" "jb_inv jb1" "limits jb1 = limits jb"
    using jb_inv_exec exec_limits by (metis list.set_intros(1))
  then show ?case using Cons.IH[of jb1] Cons.prems by simp
qed simp

text \<open>
  In fixed mode, with a delay of at most four fifths of the slots, no sequence of put, get and
  reset calls changes the delay.
\<close>

theorem fixed_delay_kept:
  assumes inv: "jb_inv jb" and p: "5 * p \<le> 4 * jb_max_count jb"
    and calls: "\<forall>c\<in>set cs. call_ok c \<and> traffic c"
  shows "\<exists>jb'. jb_run (fst (pjmedia_jbuf_set_fixed jb p)) cs = Some jb' \<and>
           snd (pjmedia_jbuf_set_fixed jb p) = PJ_SUCCESS \<and> jb_prefetch jb' = int p"
proof -
  let ?jb = "fst (pjmedia_jbuf_set_fixed jb p)"
  have lim: "limits ?jb = (int p, int p, jb_max_count jb)" "snd (pjmedia_jbuf_set_fixed jb p) = PJ_SUCCESS"
    using p by (simp_all add: pjmedia_jbuf_set_fixed_def limits_def)
  obtain jb' where r: "jb_run ?jb cs = Some jb'" "jb_inv jb'" "limits jb' = limits ?jb"
    using run_limits[OF jb_inv_set_fixed[OF inv] calls] by blast
  have "jb_max_count jb < 2 ^ 30" using fl_repD(2)[OF jb_invD(1)[OF inv]] jb_invD(3)[OF inv] by simp
  then have "int p \<le> max_delay (jb_max_count jb)" using p by (simp add: max_delay_def u32_def)
  then show ?thesis using r lim jb_invD(8)[OF r(2)] by (auto simp: limits_def delay_ok_def)
qed

theorem fixed_delay_kept_witness:
  "\<exists>jb'. jb_run (fst (pjmedia_jbuf_set_fixed jb_57 3)) [Get_Frame, Get_Frame, Put_Frame [1] 1 20] = Some jb' \<and>
     jb_prefetch jb' = 3"
  using fixed_delay_kept[OF jb_57_inv, of 3 "[Get_Frame, Get_Frame, Put_Frame [1] 1 20]"]
  by (auto simp: jb_57_def)

text \<open>
  Above four fifths of the slots a fixed delay is not kept: a jitter of at least the delay makes
  the estimation lower it to four fifths of the slots.
\<close>

theorem fixed_delay_lost:
  assumes inv: "jb_inv jb" and p: "p \<le> jb_max_count jb" "4 * jb_max_count jb < 5 * p"
    and jit: "int p \<le> \<bar>jb_level jb - jb_last_level jb\<bar>"
  shows "\<exists>jb'. jbuf_calculate_jitter (fst (pjmedia_jbuf_set_fixed jb p)) = Some jb' \<and>
           jb_prefetch jb' = int (4 * jb_max_count jb div 5) \<and> jb_prefetch jb' < int p"
proof -
  have m: "jb_max_count jb < 2 ^ 30" using fl_repD(2)[OF jb_invD(1)[OF inv]] jb_invD(3)[OF inv] by simp
  have "4 * jb_max_count jb div 5 < p" using p(2) by (simp add: div_less_iff_less_mult mult.commute)
  then show ?thesis using p jit m jb_invD(4)[OF inv]
    by (auto simp: jbuf_calculate_jitter_def pjmedia_jbuf_set_fixed_def Let_def mult.commute)
qed

theorem fixed_delay_lost_witness:
  "\<exists>jb'. jbuf_calculate_jitter (fst (pjmedia_jbuf_set_fixed (jb_57\<lparr>jb_level := 6\<rparr>) 4)) = Some jb' \<and>
     jb_prefetch jb' = 3"
proof -
  have "jb_inv (jb_57\<lparr>jb_level := 6\<rparr>)"
    using jb_57_inv by (simp add: jb_inv_def)
  from fixed_delay_lost[OF this, of 4] show ?thesis by (auto simp: jb_57_def)
qed

text \<open>
  The rejection of frames whose place has been played depends on the buffer not being empty: a
  late frame that arrives after the buffer has run empty is stored and becomes the next frame to be
  played.
\<close>

theorem late_frame_on_empty_buffer:
  assumes inv: "jb_inv jb" and seq: "0 \<le> seq" "seq \<le> jb_last_seq_no jb" and n: "n \<le> length frame"
    and emp: "frames (jb_fl jb) = []"
  shows "\<exists>jb'. pjmedia_jbuf_put_frame jb frame n seq = Some jb' \<and> flist_origin (jb_fl jb') = nat seq \<and>
     seq_slot jb' (nat seq) = Some (new_slot (jb_frame_size jb) frame (min n (jb_frame_size jb)))"
proof -
  obtain jb' where "pjmedia_jbuf_put_frame jb frame n seq = Some jb'" "jb_inv jb'"
     "flist_origin (jb_fl jb') = nat seq"
     "frames (jb_fl jb') = [new_slot (jb_frame_size jb) frame (min n (jb_frame_size jb))]"
    using put_older_empty[OF inv seq n emp] by blast
  then show ?thesis by (auto simp: seq_slot_def frames_length)
qed

theorem late_frame_on_empty_buffer_witness:
  "\<exists>jb'. pjmedia_jbuf_put_frame ((pjmedia_jbuf_reset jb_57)\<lparr>jb_last_seq_no := 7\<rparr>) [1, 2] 2 3 = Some jb' \<and>
     flist_origin (jb_fl jb') = 3"
proof -
  have "jb_inv ((pjmedia_jbuf_reset jb_57)\<lparr>jb_last_seq_no := 7\<rparr>)"
    "frames (jb_fl ((pjmedia_jbuf_reset jb_57)\<lparr>jb_last_seq_no := 7\<rparr>)) = []"
    using jb_inv_reset[OF jb_57_inv] by (simp_all add: jb_inv_def)
  from late_frame_on_empty_buffer[OF this(1) _ _ _ this(2), of 3 2 "[1, 2]"] show ?thesis by auto
qed

text \<open>
  Discarding \<open>k\<close> frames and playing out \<open>n\<close> gives exactly the frames \<open>k, ..., k + n - 1\<close> of the
  list, in order, each once, and playing out as many frames as the size says leaves it empty.
\<close>

theorem framelist_playout:
  assumes "fl_inv fl"
  shows "snd (drain jb_framelist_get n (jb_framelist_remove_head fl k)) = take n (drop k (frames fl)) \<and>
     jb_framelist_size (fst (drain jb_framelist_get (jb_framelist_size fl) fl)) = 0"
  using jq.remove_then_drain[OF assms] jq.drain_all[OF assms] by simp

theorem framelist_playout_witness:
  "snd (drain jb_framelist_get 5 (jb_framelist_remove_head (jb_fl jb_57) 1)) =
     [([0, 0], PJMEDIA_JB_MISSING_FRAME), ([9, 9], PJMEDIA_JB_NORMAL_FRAME)]"
  using framelist_playout[OF fl_invI[OF jb_57_rep], of 5 1] fl_rep_frames[OF jb_57_rep] by simp

end
