(* ===== verification/Media_Stream.thy ===== *)
theory Media_Stream
  imports G711_Codec Rtcp_Session Jitter_Buffer Pj_String
begin

unbundle bit_operations_syntax

text \<open>
  The media stream (\<^verbatim>\<open>pjmedia/src/pjmedia/stream.c\<close>): it takes PCM frames from the sound device, encodes
  them and sends RTP packets, it receives packets, keeps them in the jitter buffer and decodes them
  when the sound device asks, it sends and receives the DTMF digits of RFC 2833, and it sends the RTCP
  reports. The stream is a record of the sessions of the other theories. The codec is called through
  its function table, which is an argument. What the transport is given to send, and the digits the
  callback is given, are the outputs of an operation. Timestamps of the system clock and random numbers
  are arguments. \<open>None\<close> is a failed assertion, a division by zero, an access outside of a buffer, or a
  loop that does not end.
\<close>

section \<open>Data\<close>

record channel =
  ch_pt :: nat
  ch_paused :: bool
  ch_out_pkt_size :: nat
  ch_rtp :: pjmedia_rtp_session

record dtmf =
  dt_event :: int
  dt_start_ts :: "32 word"

record stream_dir =
  dir_encoding :: bool
  dir_decoding :: bool

record 'c media_stream =
  s_samples_per_frame :: nat
  s_clock_rate :: nat
  s_enc :: channel
  s_dec :: channel
  s_dir :: stream_dir
  s_codec :: 'c
  s_param :: codec_param
  s_enc_buf :: "int list option"
  s_enc_samples_per_frame :: nat
  s_enc_buf_pos :: nat
  s_enc_buf_count :: nat
  s_vad_enabled :: bool
  s_frame_size :: nat
  s_is_streaming :: bool
  s_tx_duration :: "32 word"
  s_jb :: jbuf
  s_jb_last_frm :: jb_frame_type
  s_rtcp :: rtcp_session
  s_rtcp_last_tx :: "32 word"
  s_rtcp_interval :: "32 word"
  s_tx_event_pt :: int
  s_tx_dtmf_count :: nat
  s_tx_dtmf_buf :: "dtmf list"
  s_rx_event_pt :: int
  s_last_dtmf :: int
  s_last_dtmf_dur :: "32 word"
  s_rx_dtmf_count :: nat
  s_rx_dtmf_buf :: string
  s_dtmf_cb :: bool

datatype stream_out = Send_Rtp "8 word list" | Send_Rtcp rtcp_pkt | Dtmf_Callback char

datatype stream_error =
    PJMEDIA_RTP_EREMNORFC2833
  | PJMEDIA_RTP_EINDTMF
  | STREAM_ETOOMANY
  | Codec_Error codec_error
  | Alloc_Error int
  | Attach_Error int

text \<open>The readings of the clock during one operation.\<close>

record clocks =
  ck_ts1 :: "64 word"
  ck_ts2 :: "64 word"
  ck_tod :: pj_time_val

definition PJMEDIA_DTMF_DURATION :: "32 word" where "PJMEDIA_DTMF_DURATION = 1600"
definition PJMEDIA_MAX_MTU :: nat where "PJMEDIA_MAX_MTU = 1500"
definition PJMEDIA_MAX_FRAME_DURATION_MS :: nat where "PJMEDIA_MAX_FRAME_DURATION_MS = 200"
definition PJMEDIA_RTCP_INTERVAL :: nat where "PJMEDIA_RTCP_INTERVAL = 5000"
definition ZERO_PCM_MAX_SIZE :: nat where "ZERO_PCM_MAX_SIZE = 1920"
definition BYTES_PER_SAMPLE :: nat where "BYTES_PER_SAMPLE = 2"
definition DTMF_BUF_SIZE :: nat where "DTMF_BUF_SIZE = 32"

definition digitmap :: string where
  "digitmap = ''0123456789*#ABCD''"

section \<open>Memory\<close>

definition write_at :: "nat \<Rightarrow> 'a list \<Rightarrow> 'a list \<Rightarrow> 'a list option" where
  "write_at i xs buf =
     (if i + length xs \<le> length buf then Some (take i buf @ xs @ drop (i + length xs) buf) else None)"

text \<open>\<^verbatim>\<open>pj_array_erase\<close> moves the elements after the position, of the first \<open>n\<close>, down by one.\<close>

definition array_erase :: "'a list \<Rightarrow> nat \<Rightarrow> nat \<Rightarrow> 'a list" where
  "array_erase arr n pos =
     (if pos < n - 1 then take pos arr @ take (n - pos - 1) (drop (pos + 1) arr) @ drop (n - 1) arr else arr)"

section \<open>Playing: the frames of the sound device\<close>

text \<open>The concealment loop: \<open>recover\<close> is called until it fails or the frame is full.\<close>

partial_function (option) plc_loop ::
    "('c \<Rightarrow> nat \<Rightarrow> 'c \<times> (codec_error + int list)) \<Rightarrow> 'c \<Rightarrow> int list \<Rightarrow> nat \<Rightarrow> nat \<Rightarrow> nat \<Rightarrow>
     ('c \<times> int list \<times> nat) option" where
  "plc_loop recover c buf samples_count samples_required samples_per_frame =
     (case recover c (usub32 (2 * length buf) (samples_count * 2)) of
        (c, Inl e) \<Rightarrow> Some (c, buf, samples_count)
      | (c, Inr out) \<Rightarrow> do {
          buf \<leftarrow> write_at samples_count out buf;
          let samples_count = samples_count + samples_per_frame;
          if samples_count < samples_required
          then plc_loop recover c buf samples_count samples_required samples_per_frame
          else Some (c, buf, samples_count)
        })"

definition zero_rest :: "int list \<Rightarrow> nat \<Rightarrow> nat \<Rightarrow> int list option" where
  "zero_rest buf samples_count samples_required =
     write_at samples_count (replicate (samples_required - samples_count) 0) buf"

definition plc_op :: "'c codec_op \<Rightarrow> 'c media_stream \<Rightarrow> ('c \<Rightarrow> nat \<Rightarrow> 'c \<times> (codec_error + int list)) option" where
  "plc_op codec_op s = (if cp_plc (s_param s) then op_recover codec_op else None)"

text \<open>One frame from the jitter buffer. The result tells whether the loop of \<open>get_frame\<close> is left.\<close>

definition play_missing ::
    "'c codec_op \<Rightarrow> 'c media_stream \<Rightarrow> int list \<Rightarrow> nat \<Rightarrow> nat \<Rightarrow> ('c media_stream \<times> int list) option" where
  "play_missing codec_op s buf samples_count samples_required =
     (case plc_op codec_op s of
        None \<Rightarrow> do { buf \<leftarrow> zero_rest buf samples_count samples_required; Some (s, buf) }
      | Some recover \<Rightarrow>
          (case recover (s_codec s) (usub32 (2 * length buf) (samples_count * 2)) of
             (c, Inl e) \<Rightarrow> do { buf \<leftarrow> zero_rest buf samples_count samples_required; Some (s\<lparr>s_codec := c\<rparr>, buf) }
           | (c, Inr out) \<Rightarrow> do { buf \<leftarrow> write_at samples_count out buf; Some (s\<lparr>s_codec := c\<rparr>, buf) }))"

definition play_empty ::
    "'c codec_op \<Rightarrow> 'c media_stream \<Rightarrow> bool \<Rightarrow> int list \<Rightarrow> nat \<Rightarrow> nat \<Rightarrow> nat \<Rightarrow>
     ('c media_stream \<times> int list \<times> nat) option" where
  "play_empty codec_op s conceal buf samples_count samples_required samples_per_frame = do {
     (c, buf, samples_count) \<leftarrow> (case plc_op codec_op s of
         Some recover \<Rightarrow> if conceal
           then plc_loop recover (s_codec s) buf samples_count samples_required samples_per_frame
           else Some (s_codec s, buf, samples_count)
       | None \<Rightarrow> Some (s_codec s, buf, samples_count));
     if samples_count < samples_required then do {
       buf \<leftarrow> zero_rest buf samples_count samples_required;
       Some (s\<lparr>s_codec := c\<rparr>, buf, samples_required)
     } else Some (s\<lparr>s_codec := c\<rparr>, buf, samples_count)
   }"

definition play_normal ::
    "'c codec_op \<Rightarrow> 'c media_stream \<Rightarrow> byte list \<Rightarrow> int list \<Rightarrow> nat \<Rightarrow> nat \<Rightarrow> ('c media_stream \<times> int list) option" where
  "play_normal codec_op s frame buf samples_count samples_per_frame =
     (case op_decode codec_op (s_codec s) (map of_nat (take (s_frame_size s) frame))
             (usub32 (2 * length buf) (samples_count * BYTES_PER_SAMPLE)) of
        (c, Inl e) \<Rightarrow> do { buf \<leftarrow> write_at samples_count (replicate samples_per_frame 0) buf; Some (s\<lparr>s_codec := c\<rparr>, buf) }
      | (c, Inr out) \<Rightarrow> do { buf \<leftarrow> write_at samples_count out buf; Some (s\<lparr>s_codec := c\<rparr>, buf) })"

partial_function (option) play_loop ::
    "'c codec_op \<Rightarrow> 'c media_stream \<Rightarrow> int list \<Rightarrow> nat \<Rightarrow> nat \<Rightarrow> nat \<Rightarrow> ('c media_stream \<times> int list \<times> nat) option" where
  "play_loop codec_op s buf samples_count samples_required samples_per_frame =
     (if samples_count < samples_required then do {
        (jb, frame, frame_type) \<leftarrow> pjmedia_jbuf_get_frame (s_jb s);
        let s = s\<lparr>s_jb := jb\<rparr>;
        if frame_type = PJMEDIA_JB_MISSING_FRAME then do {
          (s, buf) \<leftarrow> play_missing codec_op s buf samples_count samples_required;
          play_loop codec_op (s\<lparr>s_jb_last_frm := frame_type\<rparr>) buf (samples_count + samples_per_frame)
            samples_required samples_per_frame
        } else if frame_type = PJMEDIA_JB_ZERO_EMPTY_FRAME then do {
          (s, buf, samples_count) \<leftarrow> play_empty codec_op s (frame_type \<noteq> s_jb_last_frm s) buf samples_count
            samples_required samples_per_frame;
          Some (s\<lparr>s_jb_last_frm := frame_type\<rparr>, buf, samples_count)
        } else if frame_type = PJMEDIA_JB_ZERO_PREFETCH_FRAME then do {
          (s, buf, samples_count) \<leftarrow> play_empty codec_op s True buf samples_count samples_required samples_per_frame;
          Some (s\<lparr>s_jb_last_frm := frame_type\<rparr>, buf, samples_count)
        } else do {
          (s, buf) \<leftarrow> play_normal codec_op s frame buf samples_count samples_per_frame;
          play_loop codec_op (s\<lparr>s_jb_last_frm := frame_type\<rparr>) buf (samples_count + samples_per_frame)
            samples_required samples_per_frame
        }
      } else Some (s, buf, samples_count))"

record play_frame =
  pl_type :: frame_type
  pl_buf :: "int list"
  pl_size :: nat

definition samples_per_frame_of :: "codec_param \<Rightarrow> nat" where
  "samples_per_frame_of p = u32 (cp_frm_ptime p * cp_clock_rate p * cp_channel_cnt p) div 1000"

text \<open>
  \<open>registered\<close> is the result of \<^verbatim>\<open>pj_thread_is_registered\<close>; the size of the frame passed in is the
  size of its buffer.
\<close>

definition get_frame ::
    "'c codec_op \<Rightarrow> bool \<Rightarrow> 'c media_stream \<Rightarrow> play_frame \<Rightarrow> ('c media_stream \<times> play_frame) option" where
  "get_frame codec_op registered s frame =
     (if \<not> registered then Some (s, frame)
      else if ch_paused (s_dec s) then Some (s, frame\<lparr>pl_type := PJMEDIA_FRAME_TYPE_NONE\<rparr>)
      else do {
        (s, buf, samples_count) \<leftarrow> play_loop codec_op s (pl_buf frame) 0 (s_samples_per_frame s) (samples_per_frame_of (s_param s));
        if samples_count = 0
        then Some (s, \<lparr>pl_type = PJMEDIA_FRAME_TYPE_NONE, pl_buf = buf, pl_size = 0\<rparr>)
        else Some (s, \<lparr>pl_type = PJMEDIA_FRAME_TYPE_AUDIO, pl_buf = buf, pl_size = samples_count * BYTES_PER_SAMPLE\<rparr>)
      })"

section \<open>Recording: frames, digits and reports that are sent\<close>

abbreviation enc_ts :: "'c media_stream \<Rightarrow> 32 word" where
  "enc_ts s \<equiv> hdr_ts (out_hdr (ch_rtp (s_enc s)))"

text \<open>The four bytes of \<^verbatim>\<open>pjmedia_rtp_dtmf_event\<close>.\<close>

definition dtmf_event_bytes :: "8 word \<Rightarrow> 8 word \<Rightarrow> 16 word \<Rightarrow> 8 word list" where
  "dtmf_event_bytes event e_vol duration = [event, e_vol] @ be16 duration"

definition create_dtmf_payload :: "'c media_stream \<Rightarrow> 'c media_stream \<times> 8 word list" where
  "create_dtmf_payload s =
     (let digit = s_tx_dtmf_buf s ! 0;
          cur_ts = enc_ts s;
          duration = cur_ts - dt_start_ts digit;
          event = of_int (dt_event digit)
      in if duration \<ge> PJMEDIA_DTMF_DURATION then
           let buf = array_erase (s_tx_dtmf_buf s) (s_tx_dtmf_count s) 0
           in (s\<lparr>s_tx_dtmf_count := s_tx_dtmf_count s - 1, s_tx_dtmf_buf := buf[0 := (buf ! 0)\<lparr>dt_start_ts := cur_ts\<rparr>]\<rparr>,
               dtmf_event_bytes event (10 OR 0x80) (ucast duration))
         else (s, dtmf_event_bytes event 10 (ucast duration)))"

definition check_tx_rtcp :: "'c media_stream \<Rightarrow> 32 word \<Rightarrow> clocks \<Rightarrow> ('c media_stream \<times> stream_out list) option" where
  "check_tx_rtcp s timestamp ck =
     (if s_rtcp_last_tx s = 0 then Some (s\<lparr>s_rtcp_last_tx := timestamp\<rparr>, [])
      else if timestamp - s_rtcp_last_tx s \<ge> s_rtcp_interval s then do {
        (rtcp, pkt) \<leftarrow> pjmedia_rtcp_build_rtcp (s_rtcp s) (ck_ts1 ck) (ck_ts2 ck) (ck_tod ck);
        Some (s\<lparr>s_rtcp := rtcp, s_rtcp_last_tx := timestamp\<rparr>, [Send_Rtcp pkt])
      } else Some (s, []))"

text \<open>
  \<^verbatim>\<open>rebuffer\<close>, for an encoder with another frame length than the port: the frame is appended to the
  buffer, and the frame that comes back has the samples of one encoder frame, if there are that many.
\<close>

definition rebuffer :: "'c media_stream \<Rightarrow> int list \<Rightarrow> pcm_frame \<Rightarrow> ('c media_stream \<times> pcm_frame) option" where
  "rebuffer s enc_buf frame = do {
     let samples = (if pf_type frame = PJMEDIA_FRAME_TYPE_AUDIO then pf_samples frame else []);
     let enc_buf = (if s_enc_buf_pos s \<noteq> 0 \<and> s_enc_buf_count s \<noteq> 0
                    then take (s_enc_buf_count s) (drop (s_enc_buf_pos s) enc_buf) @ drop (s_enc_buf_count s) enc_buf
                    else enc_buf);
     if \<not> s_enc_buf_count s + length samples < length enc_buf then None
     else do {
       enc_buf \<leftarrow> write_at (s_enc_buf_count s) samples enc_buf;
       let enc_buf_count = s_enc_buf_count s + length samples;
       let cnt = u32 (cp_enc_ptime (s_param s) * s_clock_rate s) div 1000;
       if enc_buf_count \<ge> cnt then
         Some (s\<lparr>s_enc_buf := Some enc_buf, s_enc_buf_pos := cnt, s_enc_buf_count := enc_buf_count - cnt\<rparr>,
               frame\<lparr>pf_type := PJMEDIA_FRAME_TYPE_AUDIO, pf_samples := take cnt enc_buf\<rparr>)
       else
         Some (s\<lparr>s_enc_buf := Some enc_buf, s_enc_buf_pos := 0, s_enc_buf_count := enc_buf_count\<rparr>,
               frame\<lparr>pf_type := PJMEDIA_FRAME_TYPE_NONE, pf_samples := samples\<rparr>)
     }
   }"

text \<open>
  The loop that encodes the parts of a frame. \<open>out\<close> is what was encoded so far; the offset of a part
  is in samples of the codec, which may have another width than the 16 bits of the buffer.
\<close>

partial_function (option) encode_loop ::
    "'c codec_op \<Rightarrow> 'c \<Rightarrow> pcm_frame \<Rightarrow> nat \<Rightarrow> nat \<Rightarrow> nat \<Rightarrow> nat \<Rightarrow> nat \<Rightarrow> 8 word list \<Rightarrow>
     ('c \<times> (codec_error + 8 word list)) option" where
  "encode_loop codec_op c frame ts ts_len codec_samples_per_frame bytes_per_sample out_pkt_size out =
     (if ts < ts_len then
        let start = ts * bytes_per_sample div 2; len = codec_samples_per_frame * bytes_per_sample div 2
        in if start + len > length (pf_samples frame) then None
           else
             (case op_encode codec_op c
                \<lparr>pf_type = PJMEDIA_FRAME_TYPE_AUDIO, pf_samples = take len (drop start (pf_samples frame)),
                  pf_timestamp = pf_timestamp frame + of_nat ts\<rparr>
                (usub32 (usub32 out_pkt_size 12) (length out)) of
                (c, Inl e) \<Rightarrow> Some (c, Inl e)
              | (c, Inr f) \<Rightarrow>
                  if ef_type f \<noteq> PJMEDIA_FRAME_TYPE_AUDIO \<or> ef_bytes f = [] then Some (c, Inr (out @ ef_bytes f))
                  else encode_loop codec_op c frame (ts + codec_samples_per_frame) ts_len codec_samples_per_frame
                         bytes_per_sample out_pkt_size (out @ ef_bytes f))
      else Some (c, Inr out))"

definition codec_frame :: "codec_param \<Rightarrow> nat" where
  "codec_frame p =
     (let n = u32 (cp_enc_ptime p * cp_clock_rate p) div 1000
      in if n = 0 then u32 (cp_frm_ptime p * cp_clock_rate p) div 1000 else n)"

text \<open>
  The payload of the packet and the header of the session: a digit that is waiting, the encoded frame,
  or nothing but the passing of time.
\<close>

definition encapsulate :: "'c media_stream \<Rightarrow> int \<Rightarrow> 8 word list \<Rightarrow> nat \<Rightarrow> 'c media_stream \<times> 8 word list \<times> pjmedia_rtp_hdr option" where
  "encapsulate s pt payload ts_len =
     (let (rtp, hdr) = pjmedia_rtp_encode_rtp (ch_rtp (s_enc s)) pt 0 (int (length payload)) (int ts_len)
      in (s\<lparr>s_enc := (s_enc s)\<lparr>ch_rtp := rtp\<rparr>\<rparr>, payload, hdr))"

definition make_packet ::
    "'c codec_op \<Rightarrow> 'c media_stream \<Rightarrow> pcm_frame \<Rightarrow> nat \<Rightarrow>
     ('c media_stream \<times> (stream_error + 8 word list \<times> pjmedia_rtp_hdr option)) option" where
  "make_packet codec_op s frame ts_len =
     (if s_tx_dtmf_count s \<noteq> 0 then
        let (s, payload) = create_dtmf_payload s; (s, r) = encapsulate s (s_tx_event_pt s) payload ts_len
        in Some (s, Inr r)
      else if pf_type frame \<noteq> PJMEDIA_FRAME_TYPE_NONE then
        (case encode_loop codec_op (s_codec s) frame 0 ts_len (codec_frame (s_param s))
                (cp_pcm_bits_per_sample (s_param s) div 8) (ch_out_pkt_size (s_enc s)) [] of
           None \<Rightarrow> None
         | Some (c, Inl e) \<Rightarrow> Some (s\<lparr>s_codec := c\<rparr>, Inl (Codec_Error e))
         | Some (c, Inr payload) \<Rightarrow>
             let (s, r) = encapsulate (s\<lparr>s_codec := c\<rparr>) (int (ch_pt (s_enc s))) payload ts_len in Some (s, Inr r))
      else let (s, r) = encapsulate s 0 [] ts_len in Some (s, Inr r))"

definition put_frame_imp ::
    "'c codec_op \<Rightarrow> 'c media_stream \<Rightarrow> pcm_frame \<Rightarrow> clocks \<Rightarrow>
     ('c media_stream \<times> stream_out list \<times> (stream_error + unit)) option" where
  "put_frame_imp codec_op s frame ck =
     (if ch_paused (s_enc s) then Some (s\<lparr>s_enc_buf_pos := 0, s_enc_buf_count := 0\<rparr>, [], Inr ())
      else do {
        let ts_len = (if pf_type frame = PJMEDIA_FRAME_TYPE_AUDIO then length (pf_samples frame) else 0);
        let s = s\<lparr>s_tx_duration := s_tx_duration s + of_nat ts_len\<rparr>;
        (s, r) \<leftarrow> make_packet codec_op s frame ts_len;
        case r of
          Inl e \<Rightarrow> Some (s, [], Inl e)
        | Inr (payload, hdr) \<Rightarrow> do {
            (s, reports) \<leftarrow> (if dir_encoding (s_dir s) \<or> \<not> dir_decoding (s_dir s)
                             then check_tx_rtcp s (enc_ts s) ck else Some (s, []));
            if payload = [] then Some (s\<lparr>s_is_streaming := False\<rparr>, reports, Inr ())
            else
              let hdr = the hdr;
                  hdr = (if s_is_streaming s then hdr else hdr\<lparr>hdr_m := 1\<rparr>);
                  pkt = hdr_bytes hdr @ payload
              in Some (s\<lparr>s_is_streaming := True, s_rtcp := pjmedia_rtcp_tx_rtp (s_rtcp s) (of_nat (length payload))\<rparr>,
                       reports @ [Send_Rtp pkt], Inr ())
          }
      })"

partial_function (option) put_frame_loop ::
    "'c codec_op \<Rightarrow> 'c media_stream \<Rightarrow> int list \<Rightarrow> pcm_frame \<Rightarrow> clocks \<Rightarrow> stream_out list \<Rightarrow> stream_error + unit \<Rightarrow>
     ('c media_stream \<times> stream_out list \<times> (stream_error + unit)) option" where
  "put_frame_loop codec_op s enc_buf frame ck outs status = do {
     (s, frame) \<leftarrow> rebuffer s enc_buf frame;
     (s, os, st) \<leftarrow> put_frame_imp codec_op s frame ck;
     let status = (if st \<noteq> Inr () then st else status);
     if s_enc_buf_count s \<ge> s_enc_samples_per_frame s
     then put_frame_loop codec_op s (the (s_enc_buf s)) (frame\<lparr>pf_type := PJMEDIA_FRAME_TYPE_NONE\<rparr>) ck (outs @ os) status
     else Some (s, outs @ os, status)
   }"

text \<open>A missing frame is replaced by silence, so that the encoder decides whether to send it.\<close>

definition put_frame ::
    "'c codec_op \<Rightarrow> 'c media_stream \<Rightarrow> pcm_frame \<Rightarrow> clocks \<Rightarrow>
     ('c media_stream \<times> stream_out list \<times> (stream_error + unit)) option" where
  "put_frame codec_op s frame ck =
     (let samples_per_frame = s_enc_samples_per_frame s;
          frame = (if pf_type frame = PJMEDIA_FRAME_TYPE_NONE \<and> samples_per_frame \<le> ZERO_PCM_MAX_SIZE
                   then frame\<lparr>pf_type := PJMEDIA_FRAME_TYPE_AUDIO, pf_samples := replicate samples_per_frame 0\<rparr>
                   else frame)
      in case s_enc_buf s of
           Some enc_buf \<Rightarrow> put_frame_loop codec_op s enc_buf frame ck [] (Inr ())
         | None \<Rightarrow> put_frame_imp codec_op s frame ck)"

section \<open>Receiving\<close>

definition dtmf_new_digit :: "'c media_stream \<Rightarrow> char \<Rightarrow> 'c media_stream \<times> stream_out list" where
  "dtmf_new_digit s digit =
     (if s_dtmf_cb s then (s, [Dtmf_Callback digit])
      else
        let (buf, n) = (if s_rx_dtmf_count s \<ge> DTMF_BUF_SIZE
                        then (array_erase (s_rx_dtmf_buf s) (s_rx_dtmf_count s) 0, s_rx_dtmf_count s - 1)
                        else (s_rx_dtmf_buf s, s_rx_dtmf_count s))
        in (s\<lparr>s_rx_dtmf_buf := buf[n := digit], s_rx_dtmf_count := n + 1\<rparr>, []))"

definition handle_incoming_dtmf :: "'c media_stream \<Rightarrow> 8 word list \<Rightarrow> 'c media_stream \<times> stream_out list" where
  "handle_incoming_dtmf s payload =
     (if length payload < 4 then (s, [])
      else
        let event = uint (payload ! 0); duration = ucast (rd16 payload 2)
        in if s_last_dtmf s \<noteq> - 1 \<and> event = s_last_dtmf s \<and> duration \<ge> s_last_dtmf_dur s
           then (s\<lparr>s_last_dtmf_dur := duration\<rparr>, [])
           else if event > 15 then (s, [])
           else dtmf_new_digit (s\<lparr>s_last_dtmf := event, s_last_dtmf_dur := duration\<rparr>) (digitmap ! nat event))"

fun put_frames_jb :: "jbuf \<Rightarrow> enc_frame list \<Rightarrow> nat \<Rightarrow> jbuf option" where
  "put_frames_jb jb [] samples_per_frame = Some jb"
| "put_frames_jb jb (f # fs) samples_per_frame =
     (if samples_per_frame = 0 then None
      else do {
        jb \<leftarrow> pjmedia_jbuf_put_frame jb (map unat (ef_bytes f)) (length (ef_bytes f))
                (sint (of_nat (unat (ef_timestamp f) div samples_per_frame) :: 32 word));
        put_frames_jb jb fs samples_per_frame
      })"

definition accept_packet ::
    "'c codec_op \<Rightarrow> 'c media_stream \<Rightarrow> pjmedia_rtp_hdr \<Rightarrow> 8 word list \<Rightarrow> bool \<Rightarrow> 'c media_stream option" where
  "accept_packet codec_op s hdr payload restart =
     (if restart then Some (s\<lparr>s_jb := pjmedia_jbuf_reset (s_jb s)\<rparr>)
      else
        let frames = (case op_parse codec_op (s_codec s) payload (ucast (hdr_ts hdr)) 16 of Inl e \<Rightarrow> [] | Inr fs \<Rightarrow> fs)
        in map_option (\<lambda>jb. s\<lparr>s_jb := jb\<rparr>) (put_frames_jb (s_jb s) frames (samples_per_frame_of (s_param s))))"

definition on_rx_rtp ::
    "'c codec_op \<Rightarrow> (rat \<Rightarrow> rat) \<Rightarrow> 'c media_stream \<Rightarrow> 8 word list \<Rightarrow> int \<Rightarrow> clocks \<Rightarrow>
     ('c media_stream \<times> stream_out list) option" where
  "on_rx_rtp codec_op rnd s pkt bytes_read ck =
     (if bytes_read < 12 then Some (s, [])
      else
        (case pjmedia_rtp_decode_rtp pkt bytes_read of
           None \<Rightarrow> None
         | Some (Inl e) \<Rightarrow>
             Some (s\<lparr>s_rtcp := upd_rx (\<lambda>st. st\<lparr>ss_discard := ss_discard st + 1\<rparr>) (s_rtcp s)\<rparr>, [])
         | Some (Inr (hdr, offset, payloadlen)) \<Rightarrow> do {
             let payload = take payloadlen (drop offset pkt);
             rtcp \<leftarrow> pjmedia_rtcp_rx_rtp rnd (s_rtcp s) (ucast (hdr_seq hdr)) (hdr_ts hdr) (of_nat payloadlen) (ck_ts1 ck);
             let s = s\<lparr>s_rtcp := rtcp\<rparr>;
             if ch_paused (s_dec s) then Some (s, [])
             else if int (unat (hdr_pt hdr)) = s_rx_event_pt s then Some (handle_incoming_dtmf s payload)
             else do {
               let (rtp, seq_st) = pjmedia_rtp_session_update (ch_rtp (s_dec s)) hdr \<lparr>st_flag = no_flags, st_diff = 0\<rparr>;
               let s = s\<lparr>s_dec := (s_dec s)\<lparr>ch_rtp := rtp\<rparr>\<rparr>;
               if fl_bad (st_flag seq_st) then Some (s, [])
               else do {
                 s \<leftarrow> accept_packet codec_op s hdr payload (fl_restart (st_flag seq_st));
                 if dir_decoding (s_dir s) \<and> \<not> dir_encoding (s_dir s) then check_tx_rtcp s (hdr_ts hdr) ck
                 else Some (s, [])
               }
             }
           }))"

definition on_rx_rtcp :: "'c media_stream \<Rightarrow> 8 word list \<Rightarrow> int \<Rightarrow> clocks \<Rightarrow> 'c media_stream option" where
  "on_rx_rtcp s pkt bytes_read ck =
     (if bytes_read < 0 then Some s
      else map_option (\<lambda>rtcp. s\<lparr>s_rtcp := rtcp\<rparr>)
             (pjmedia_rtcp_rx_rtcp (s_rtcp s) pkt (nat bytes_read) (ck_ts1 ck) (ck_ts2 ck) (ck_tod ck)))"

section \<open>Creation and control\<close>

record stream_info =
  si_dir :: stream_dir
  si_fmt_pt :: nat
  si_fmt_clock_rate :: nat
  si_param :: "codec_param option"
  si_tx_pt :: nat
  si_tx_event_pt :: int
  si_rx_event_pt :: int
  si_ssrc :: "32 word"
  si_jb_init :: int
  si_jb_min_pre :: int
  si_jb_max_pre :: int
  si_jb_max :: int

definition create_channel :: "codec_param \<Rightarrow> nat \<Rightarrow> 32 word \<Rightarrow> 32 word \<Rightarrow> 32 word \<Rightarrow> channel" where
  "create_channel p pt ssrc rand_ssrc rand_seq =
     (let out_pkt_size = u32 (12 + u32 (cp_avg_bps p div 8 * PJMEDIA_MAX_FRAME_DURATION_MS) div 1000)
      in \<lparr>ch_pt = pt, ch_paused = True,
          ch_out_pkt_size = (if out_pkt_size > PJMEDIA_MAX_MTU then PJMEDIA_MAX_MTU else out_pkt_size),
          ch_rtp = pjmedia_rtp_session_init (int pt) ssrc rand_ssrc rand_seq\<rparr>)"

text \<open>The encoding buffer, for an encoder whose frame length differs: its size in samples.\<close>

definition enc_buf_samples :: "codec_param \<Rightarrow> nat \<Rightarrow> nat \<Rightarrow> nat option" where
  "enc_buf_samples p clock_rate samples_per_frame =
     (if cp_enc_ptime p \<noteq> 0 \<and> cp_enc_ptime p \<noteq> cp_frm_ptime p then
        if clock_rate = 0 then None
        else
          let ptime = u32 (samples_per_frame * 1000) div clock_rate;
              ptime = (if cp_enc_ptime p > ptime then cp_enc_ptime p else ptime);
              ptime = (if cp_frm_ptime p > ptime then cp_frm_ptime p else ptime)
          in Some (u32 (clock_rate * u32 (ptime * 2)) div 1000)
      else Some 0)"

definition jb_default :: "int \<Rightarrow> nat \<Rightarrow> int \<Rightarrow> nat \<Rightarrow> nat" where
  "jb_default v dflt least frm_ptime = (if v \<ge> least then nat v else dflt div frm_ptime)"

record create_env =
  ce_codec_rand :: nat
  ce_rand_ssrc_dec :: "32 word"
  ce_rand_seq_dec :: "32 word"
  ce_rand_ssrc_enc :: "32 word"
  ce_rand_seq_enc :: "32 word"
  ce_now :: pj_time_val
  ce_ts :: "64 word"
  ce_freq :: "64 word"

text \<open>
  \<open>alloc\<close> is the answer of the codec manager, \<open>dflt\<close> its default parameter, \<open>attach\<close> the answer of the
  transport. A failure leads to the cleanup, which leaves no stream. \<open>enc_buf_init\<close> is the uninitialised
  memory of the encoding buffer.
\<close>

definition pjmedia_stream_create ::
    "'c codec_op \<Rightarrow> stream_info \<Rightarrow> int + 'c \<Rightarrow> int + codec_param \<Rightarrow> int option \<Rightarrow> (nat \<Rightarrow> int list) \<Rightarrow> create_env \<Rightarrow>
     (stream_error + 'c media_stream) option" where
  "pjmedia_stream_create codec_op info alloc dflt attach enc_buf_init ce =
     (case alloc of
        Inl e \<Rightarrow> Some (Inl (Alloc_Error e))
      | Inr c \<Rightarrow>
          (case (case si_param info of Some p \<Rightarrow> Inr p | None \<Rightarrow> dflt) of
             Inl e \<Rightarrow> Some (Inl (Alloc_Error e))
           | Inr p \<Rightarrow>
               let p = (if cp_frm_per_pkt p < 1 then p\<lparr>cp_frm_per_pkt := 1\<rparr> else p);
                   clock_rate = si_fmt_clock_rate info;
                   spf = u32 (clock_rate * cp_frm_ptime p * cp_frm_per_pkt p) div 1000
               in (case op_open codec_op c p of
                     (c, p, Inl e) \<Rightarrow> Some (Inl (Codec_Error e))
                   | (c, p, Inr _) \<Rightarrow> do {
                       ebs \<leftarrow> enc_buf_samples p clock_rate spf;
                       let asym = (cp_enc_ptime p \<noteq> 0 \<and> cp_enc_ptime p \<noteq> cp_frm_ptime p);
                       let vad = cp_vad p;
                       let (c, p) = (if vad then (fst (op_modify codec_op c (p\<lparr>cp_vad := False\<rparr>)), p\<lparr>cp_vad := False\<rparr>) else (c, p));
                       let frame_size = u32 (u32 (cp_avg_bps p + 7) div 8 * cp_frm_ptime p) div 1000;
                       let rtcp = pjmedia_rtcp_init (of_nat clock_rate) (of_nat spf) (si_ssrc info) (ce_now ce) (ce_ts ce) (ce_freq ce);
                       if cp_frm_ptime p = 0 then None
                       else do {
                         let jb_max = jb_default (si_jb_max info) 360 1 (cp_frm_ptime p);
                         let jb_min_pre = jb_default (si_jb_min_pre info) 60 0 (cp_frm_ptime p);
                         let jb_max_pre = jb_default (si_jb_max_pre info) 240 1 (cp_frm_ptime p);
                         let jb_init = (if si_jb_init info \<ge> 0 then nat (si_jb_init info) else (jb_min_pre + jb_max_pre) div 2);
                         let jb = pjmedia_jbuf_create ''strm'' frame_size (cp_frm_ptime p) jb_max;
                         let jb = fst (pjmedia_jbuf_set_adaptive jb jb_init jb_min_pre jb_max_pre);
                         case attach of
                           Some e \<Rightarrow> Some (Inl (Attach_Error e))
                         | None \<Rightarrow> Some (Inr
                             \<lparr>s_samples_per_frame = spf, s_clock_rate = clock_rate,
                              s_enc = create_channel p (si_tx_pt info) (si_ssrc info) (ce_rand_ssrc_enc ce) (ce_rand_seq_enc ce),
                              s_dec = create_channel p (si_fmt_pt info) (si_ssrc info) (ce_rand_ssrc_dec ce) (ce_rand_seq_dec ce),
                              s_dir = si_dir info, s_codec = c, s_param = p,
                              s_enc_buf = (if asym then Some (enc_buf_init ebs) else None),
                              s_enc_samples_per_frame = (if asym then u32 (cp_enc_ptime p * clock_rate) div 1000 else spf),
                              s_enc_buf_pos = 0, s_enc_buf_count = 0, s_vad_enabled = vad, s_frame_size = frame_size,
                              s_is_streaming = False, s_tx_duration = 0, s_jb = jb, s_jb_last_frm = PJMEDIA_JB_MISSING_FRAME,
                              s_rtcp = rtcp, s_rtcp_last_tx = 0,
                              s_rtcp_interval = of_nat (u32 ((PJMEDIA_RTCP_INTERVAL + ce_codec_rand ce mod 8000) * clock_rate) div 1000),
                              s_tx_event_pt = (if si_tx_event_pt info \<noteq> 0 then si_tx_event_pt info else - 1),
                              s_tx_dtmf_count = 0, s_tx_dtmf_buf = replicate DTMF_BUF_SIZE \<lparr>dt_event = 0, dt_start_ts = 0\<rparr>,
                              s_rx_event_pt = (if si_rx_event_pt info \<noteq> 0 then si_rx_event_pt info else - 1),
                              s_last_dtmf = - 1, s_last_dtmf_dur = 0, s_rx_dtmf_count = 0,
                              s_rx_dtmf_buf = replicate DTMF_BUF_SIZE NUL, s_dtmf_cb = False\<rparr>)
                       }
                     })))"

definition pjmedia_stream_start :: "'c media_stream \<Rightarrow> 'c media_stream" where
  "pjmedia_stream_start s =
     (let s = (if dir_encoding (s_dir s) then s\<lparr>s_enc := (s_enc s)\<lparr>ch_paused := False\<rparr>\<rparr> else s)
      in if dir_decoding (s_dir s) then s\<lparr>s_dec := (s_dec s)\<lparr>ch_paused := False\<rparr>\<rparr> else s)"

definition pjmedia_stream_pause :: "'c media_stream \<Rightarrow> stream_dir \<Rightarrow> 'c media_stream" where
  "pjmedia_stream_pause s d =
     (let s = (if dir_encoding d then s\<lparr>s_enc := (s_enc s)\<lparr>ch_paused := True\<rparr>\<rparr> else s)
      in if dir_decoding d
         then s\<lparr>s_dec := (s_dec s)\<lparr>ch_paused := True\<rparr>, s_jb := pjmedia_jbuf_reset (s_jb s)\<rparr> else s)"

definition pjmedia_stream_resume :: "'c media_stream \<Rightarrow> stream_dir \<Rightarrow> 'c media_stream" where
  "pjmedia_stream_resume s d =
     (let s = (if dir_encoding d then s\<lparr>s_enc := (s_enc s)\<lparr>ch_paused := False\<rparr>\<rparr> else s)
      in if dir_decoding d then s\<lparr>s_dec := (s_dec s)\<lparr>ch_paused := False\<rparr>\<rparr> else s)"

definition pjmedia_stream_get_stat :: "'c media_stream \<Rightarrow> rtcp_stat" where
  "pjmedia_stream_get_stat s = rc_stat (s_rtcp s)"

section \<open>DTMF digits\<close>

definition digit_event :: "char \<Rightarrow> int option" where
  "digit_event c =
     (let dig = int (tolower c)
      in if 48 \<le> dig \<and> dig \<le> 57 then Some (dig - 48)
         else if 97 \<le> dig \<and> dig \<le> 100 then Some (dig - 97 + 12)
         else if dig = 42 then Some 10
         else if dig = 35 then Some 11
         else None)"

text \<open>The events are stored behind the digits in the queue as long as they are valid.\<close>

fun store_digits :: "dtmf list \<Rightarrow> nat \<Rightarrow> string \<Rightarrow> dtmf list \<times> bool" where
  "store_digits buf i [] = (buf, True)"
| "store_digits buf i (c # cs) =
     (case digit_event c of
        None \<Rightarrow> (buf, False)
      | Some e \<Rightarrow> store_digits (buf[i := (buf ! i)\<lparr>dt_event := e\<rparr>]) (i + 1) cs)"

definition pjmedia_stream_dial_dtmf :: "'c media_stream \<Rightarrow> string \<Rightarrow> 'c media_stream \<times> (stream_error + unit)" where
  "pjmedia_stream_dial_dtmf s digits =
     (if s_tx_event_pt s < 0 then (s, Inl PJMEDIA_RTP_EREMNORFC2833)
      else if s_tx_dtmf_count s + length digits \<ge> DTMF_BUF_SIZE then (s, Inl STREAM_ETOOMANY)
      else
        let (buf, valid) = store_digits (s_tx_dtmf_buf s) (s_tx_dtmf_count s) digits
        in if \<not> valid then (s\<lparr>s_tx_dtmf_buf := buf\<rparr>, Inl PJMEDIA_RTP_EINDTMF)
           else
             (s\<lparr>s_tx_dtmf_buf := (if s_tx_dtmf_count s = 0 then buf[0 := (buf ! 0)\<lparr>dt_start_ts := enc_ts s\<rparr>] else buf),
                s_tx_dtmf_count := s_tx_dtmf_count s + length digits\<rparr>, Inr ()))"

definition pjmedia_stream_check_dtmf :: "'c media_stream \<Rightarrow> bool" where
  "pjmedia_stream_check_dtmf s \<longleftrightarrow> s_rx_dtmf_count s \<noteq> 0"

text \<open>
  With assertions compiled in the function never gets past \<^verbatim>\<open>pj_assert(sizeof(stream->rx_dtmf_buf[0]) == 0)\<close>.
\<close>

definition pjmedia_stream_get_dtmf :: "bool \<Rightarrow> 'c media_stream \<Rightarrow> nat \<Rightarrow> ('c media_stream \<times> string) option" where
  "pjmedia_stream_get_dtmf assertions s len =
     (if assertions then None
      else
        let len = (if s_rx_dtmf_count s < len then s_rx_dtmf_count s else len)
        in if len = 0 then Some (s, [])
           else
             let rest = s_rx_dtmf_count s - len;
                 buf = (if rest \<noteq> 0
                        then take rest (drop len (s_rx_dtmf_buf s)) @ drop rest (s_rx_dtmf_buf s)
                        else s_rx_dtmf_buf s)
             in Some (s\<lparr>s_rx_dtmf_count := rest, s_rx_dtmf_buf := buf\<rparr>, take len (s_rx_dtmf_buf s)))"

definition pjmedia_stream_set_dtmf_callback :: "'c media_stream \<Rightarrow> bool \<Rightarrow> 'c media_stream" where
  "pjmedia_stream_set_dtmf_callback s cb = s\<lparr>s_dtmf_cb := cb\<rparr>"

end
