(* ===== verification/Stream_Dtmf.thy ===== *)
theory Stream_Dtmf
  imports Media_Stream
begin

unbundle bit_operations_syntax

text \<open>
  DTMF digits from one stream to another: what \<open>pjmedia_stream_dial_dtmf\<close> queues at one end, the
  callbacks of the other end store, packet by packet.
\<close>

section \<open>Two streams\<close>

definition rtp_packets :: "stream_out list \<Rightarrow> 8 word list list" where
  "rtp_packets os = concat (map (\<lambda>out. case out of Send_Rtp pkt \<Rightarrow> [pkt] | _ \<Rightarrow> []) os)"

fun deliver_rtp ::
    "'d codec_op \<Rightarrow> (rat \<Rightarrow> rat) \<Rightarrow> 'd media_stream \<Rightarrow> 8 word list list \<Rightarrow> clocks \<Rightarrow> 'd media_stream option" where
  "deliver_rtp codec_op rnd r [] ck = Some r"
| "deliver_rtp codec_op rnd r (pkt # pkts) ck = do {
     (r, outs) \<leftarrow> on_rx_rtp codec_op rnd r pkt (int (length pkt)) ck;
     deliver_rtp codec_op rnd r pkts ck
   }"

text \<open>The sender is given the frames of its sound device; what it sends arrives in order.\<close>

fun transmit ::
    "'c codec_op \<Rightarrow> 'd codec_op \<Rightarrow> (rat \<Rightarrow> rat) \<Rightarrow> 'c media_stream \<Rightarrow> 'd media_stream \<Rightarrow>
     (pcm_frame \<times> clocks \<times> clocks) list \<Rightarrow> ('c media_stream \<times> 'd media_stream) option" where
  "transmit op1 op2 rnd s r [] = Some (s, r)"
| "transmit op1 op2 rnd s r (f # fs) = do {
     (s, outs, status) \<leftarrow> put_frame op1 s (fst f) (fst (snd f));
     r \<leftarrow> deliver_rtp op2 rnd r (rtp_packets outs) (snd (snd f));
     transmit op1 op2 rnd s r fs
   }"

section \<open>The sender\<close>

lemma decode_packet:
  assumes "hdr_v h = RTP_VERSION" "hdr_x h = 0" "hdr_cc h = 0" "payload \<noteq> []"
  shows "pjmedia_rtp_decode_rtp (hdr_bytes h @ payload) (12 + int (length payload)) = Some (Inr (h, 12, length payload))"
  using assms by (simp add: pjmedia_rtp_decode_rtp_def hdr_of_hdr_bytes)

text \<open>What the transmission of digits relies on at the sender.\<close>

definition tx_ready :: "'c media_stream \<Rightarrow> bool" where
  "tx_ready s \<longleftrightarrow>
     \<not> ch_paused (s_enc s) \<and> s_enc_buf s = None \<and> rc_ts_freq (s_rtcp s) \<noteq> 0 \<and>
     hdr_v (out_hdr (ch_rtp (s_enc s))) = RTP_VERSION \<and> hdr_x (out_hdr (ch_rtp (s_enc s))) = 0 \<and>
     hdr_cc (out_hdr (ch_rtp (s_enc s))) = 0 \<and> 0 \<le> s_tx_event_pt s \<and> s_tx_event_pt s < 128 \<and>
     length (s_tx_dtmf_buf s) = DTMF_BUF_SIZE \<and> s_tx_dtmf_count s \<le> DTMF_BUF_SIZE"

lemma build_rtcp_returns:
  assumes "rc_ts_freq sess \<noteq> 0"
  shows "\<exists>sess' p. pjmedia_rtcp_build_rtcp sess ts1 ts2 tod = Some (sess', p) \<and> rc_ts_freq sess' = rc_ts_freq sess"
  using assms
  by (auto simp: pjmedia_rtcp_build_rtcp_def fraction_lost_def pjmedia_rtcp_get_ntp_time_def report_lsr_def udiv_def Let_def)

lemma check_tx_rtcp_returns:
  assumes "rc_ts_freq (s_rtcp s) \<noteq> 0"
  shows "\<exists>rtcp last os. check_tx_rtcp s ts ck = Some (s\<lparr>s_rtcp := rtcp, s_rtcp_last_tx := last\<rparr>, os) \<and>
    rtp_packets os = [] \<and> rc_ts_freq rtcp \<noteq> 0"
proof -
  obtain rtcp p where b: "pjmedia_rtcp_build_rtcp (s_rtcp s) (ck_ts1 ck) (ck_ts2 ck) (ck_tod ck) = Some (rtcp, p)"
    "rc_ts_freq rtcp = rc_ts_freq (s_rtcp s)"
    using build_rtcp_returns[OF assms] by blast
  consider "s_rtcp_last_tx s = 0" | "s_rtcp_last_tx s \<noteq> 0" "ts - s_rtcp_last_tx s \<ge> s_rtcp_interval s"
    | "s_rtcp_last_tx s \<noteq> 0" "\<not> ts - s_rtcp_last_tx s \<ge> s_rtcp_interval s" by blast
  then show ?thesis
  proof cases
    case 1
    then show ?thesis using assms
      by (intro exI[of _ "s_rtcp s"] exI[of _ ts] exI[of _ "[]"]) (simp add: check_tx_rtcp_def rtp_packets_def)
  next
    case 2
    then show ?thesis using b assms
      by (intro exI[of _ rtcp] exI[of _ ts] exI[of _ "[Send_Rtcp p]"]) (simp add: check_tx_rtcp_def rtp_packets_def)
  next
    case 3
    then show ?thesis using assms
      by (intro exI[of _ "s_rtcp s"] exI[of _ "s_rtcp_last_tx s"] exI[of _ "[]"])
        (simp add: check_tx_rtcp_def rtp_packets_def)
  qed
qed

text \<open>
  What is left of \<open>put_frame_imp\<close> once the packet is made: reports that may be due, the marker bit at the
  start of a talk spurt, the packet and the statistics.
\<close>

lemma put_frame_imp_sends:
  fixes s :: "'c media_stream" and f :: pcm_frame
  defines "ts_len \<equiv> (if pf_type f = PJMEDIA_FRAME_TYPE_AUDIO then length (pf_samples f) else 0)"
  assumes "\<not> ch_paused (s_enc s)"
    "make_packet codec_op (s\<lparr>s_tx_duration := s_tx_duration s + of_nat ts_len\<rparr>) f ts_len = Some (s1, Inr (payload, Some hdr))"
    "payload \<noteq> []" "rc_ts_freq (s_rtcp s1) \<noteq> 0"
  shows "\<exists>rtcp last os. put_frame_imp codec_op s f ck =
      Some (s1\<lparr>s_is_streaming := True, s_rtcp := rtcp, s_rtcp_last_tx := last\<rparr>,
            os @ [Send_Rtp (hdr_bytes (if s_is_streaming s1 then hdr else hdr\<lparr>hdr_m := 1\<rparr>) @ payload)], Inr ()) \<and>
    rtp_packets os = [] \<and> rc_ts_freq rtcp \<noteq> 0"
proof -
  let ?report = "dir_encoding (s_dir s1) \<or> \<not> dir_decoding (s_dir s1)"
  obtain rtcp last os where k: "check_tx_rtcp s1 (enc_ts s1) ck = Some (s1\<lparr>s_rtcp := rtcp, s_rtcp_last_tx := last\<rparr>, os)"
    "rtp_packets os = []" "rc_ts_freq rtcp \<noteq> 0"
    using check_tx_rtcp_returns[OF assms(5)] by blast
  define s2 where "s2 = (if ?report then s1\<lparr>s_rtcp := rtcp, s_rtcp_last_tx := last\<rparr> else s1)"
  define os' where "os' = (if ?report then os else [])"
  have c: "(if ?report then check_tx_rtcp s1 (enc_ts s1) ck else Some (s1, [])) = Some (s2, os')"
    using k(1) by (simp add: s2_def os'_def)
  have st: "s_is_streaming s2 = s_is_streaming s1" by (simp add: s2_def)
  let ?s' = "s2\<lparr>s_is_streaming := True, s_rtcp := pjmedia_rtcp_tx_rtp (s_rtcp s2) (of_nat (length payload))\<rparr>"
  have "put_frame_imp codec_op s f ck =
      Some (?s', os' @ [Send_Rtp (hdr_bytes (if s_is_streaming s1 then hdr else hdr\<lparr>hdr_m := 1\<rparr>) @ payload)], Inr ())"
    using assms(2-4) c st
    by (simp add: put_frame_imp_def ts_len_def[symmetric] Let_def split del: if_split cong: if_cong)
  moreover have "?s' = s1\<lparr>s_is_streaming := True,
      s_rtcp := pjmedia_rtcp_tx_rtp (s_rtcp s2) (of_nat (length payload)), s_rtcp_last_tx := s_rtcp_last_tx s2\<rparr>"
    by (simp add: s2_def)
  moreover have "rtp_packets os' = []" using k(2) by (simp add: os'_def rtp_packets_def)
  moreover have "rc_ts_freq (pjmedia_rtcp_tx_rtp (s_rtcp s2) (of_nat (length payload))) \<noteq> 0"
    using k(3) assms(5) by (simp add: s2_def pjmedia_rtcp_tx_rtp_def)
  ultimately show ?thesis by (metis (no_types))
qed

lemma create_dtmf_payload_shape:
  "\<exists>n buf. fst (create_dtmf_payload s) = s\<lparr>s_tx_dtmf_count := n, s_tx_dtmf_buf := buf\<rparr>"
proof (cases "enc_ts s - dt_start_ts (s_tx_dtmf_buf s ! 0) \<ge> PJMEDIA_DTMF_DURATION")
  case False
  then show ?thesis
    by (intro exI[of _ "s_tx_dtmf_count s"] exI[of _ "s_tx_dtmf_buf s"]) (simp add: create_dtmf_payload_def Let_def)
qed (auto simp: create_dtmf_payload_def Let_def)

lemma encode_rtp_event:
  assumes "0 \<le> pt" "pt < 128" "n \<noteq> 0" "pjmedia_rtp_encode_rtp ses pt 0 n t = (ses', hdr)"
  shows "hdr = Some (out_hdr ses')" "hdr_ts (out_hdr ses') = hdr_ts (out_hdr ses) + of_int t"
    "int (unat (hdr_pt (out_hdr ses'))) = pt" "hdr_v (out_hdr ses') = hdr_v (out_hdr ses)"
    "hdr_x (out_hdr ses') = hdr_x (out_hdr ses)" "hdr_cc (out_hdr ses') = hdr_cc (out_hdr ses)"
proof -
  have "uint (of_int pt :: 7 word) = pt" using assms(1,2) by (simp add: uint_word_of_int mod_pos_pos_trivial)
  then show "hdr = Some (out_hdr ses')" "hdr_ts (out_hdr ses') = hdr_ts (out_hdr ses) + of_int t"
    "int (unat (hdr_pt (out_hdr ses'))) = pt" "hdr_v (out_hdr ses') = hdr_v (out_hdr ses)"
    "hdr_x (out_hdr ses') = hdr_x (out_hdr ses)" "hdr_cc (out_hdr ses') = hdr_cc (out_hdr ses)"
    using assms by (auto simp: pjmedia_rtp_encode_rtp_def Let_def)
qed

lemma payload_length: "length (snd (create_dtmf_payload s)) = 4"
  by (simp add: create_dtmf_payload_def dtmf_event_bytes_def Let_def)

lemma length_array_erase [simp]: "0 < n \<Longrightarrow> n \<le> length xs \<Longrightarrow> length (array_erase xs n p) = length xs"
  by (auto simp: array_erase_def)

lemma create_dtmf_payload_ok:
  assumes "s_tx_dtmf_count s \<noteq> 0" "length (s_tx_dtmf_buf s) = DTMF_BUF_SIZE" "s_tx_dtmf_count s \<le> DTMF_BUF_SIZE"
  shows "length (s_tx_dtmf_buf (fst (create_dtmf_payload s))) = DTMF_BUF_SIZE"
    "s_tx_dtmf_count (fst (create_dtmf_payload s)) \<le> DTMF_BUF_SIZE"
  using assms by (auto simp: create_dtmf_payload_def Let_def)

lemma put_digit:
  assumes "tx_ready s" "s_tx_dtmf_count s \<noteq> 0" "pf_type f = PJMEDIA_FRAME_TYPE_AUDIO"
  shows "\<exists>s' os h st. put_frame codec_op s f ck = Some (s', os @ [Send_Rtp (hdr_bytes h @ snd (create_dtmf_payload s))], st) \<and>
    rtp_packets os = [] \<and> hdr_v h = RTP_VERSION \<and> hdr_x h = 0 \<and> hdr_cc h = 0 \<and>
    int (unat (hdr_pt h)) = s_tx_event_pt s \<and> tx_ready s' \<and> s_tx_event_pt s' = s_tx_event_pt s \<and>
    enc_ts s' = enc_ts s + of_nat (length (pf_samples f)) \<and>
    s_tx_dtmf_count s' = s_tx_dtmf_count (fst (create_dtmf_payload s)) \<and>
    s_tx_dtmf_buf s' = s_tx_dtmf_buf (fst (create_dtmf_payload s))"
proof -
  let ?n = "length (pf_samples f)"
  define s0 where "s0 = s\<lparr>s_tx_duration := s_tx_duration s + of_nat ?n\<rparr>"
  obtain c buf where shape: "fst (create_dtmf_payload s0) = s0\<lparr>s_tx_dtmf_count := c, s_tx_dtmf_buf := buf\<rparr>"
    using create_dtmf_payload_shape by blast
  have same: "snd (create_dtmf_payload s0) = snd (create_dtmf_payload s)"
    "s_tx_dtmf_count (fst (create_dtmf_payload s)) = c" "s_tx_dtmf_buf (fst (create_dtmf_payload s)) = buf"
  proof -
    have "s_tx_dtmf_count (fst (create_dtmf_payload s0)) = c" "s_tx_dtmf_buf (fst (create_dtmf_payload s0)) = buf"
      using shape by simp_all
    then show "snd (create_dtmf_payload s0) = snd (create_dtmf_payload s)"
      "s_tx_dtmf_count (fst (create_dtmf_payload s)) = c" "s_tx_dtmf_buf (fst (create_dtmf_payload s)) = buf"
      by (simp_all add: s0_def create_dtmf_payload_def Let_def split: if_splits)
  qed
  obtain rtp hdr where e: "pjmedia_rtp_encode_rtp (ch_rtp (s_enc s)) (s_tx_event_pt s) 0 4 (int ?n) = (rtp, hdr)"
    by fastforce
  have pt: "0 \<le> s_tx_event_pt s" "s_tx_event_pt s < 128" using assms(1) by (simp_all add: tx_ready_def)
  note r = encode_rtp_event[OF pt, of 4, OF _ e, simplified]
  define s1 where "s1 = s0\<lparr>s_tx_dtmf_count := c, s_tx_dtmf_buf := buf, s_enc := (s_enc s)\<lparr>ch_rtp := rtp\<rparr>\<rparr>"
  have m: "make_packet codec_op s0 f ?n = Some (s1, Inr (snd (create_dtmf_payload s), Some (out_hdr rtp)))"
    using assms(2) e r(1) shape same(1) payload_length[of s]
    by (simp add: make_packet_def s1_def s0_def encapsulate_def case_prod_beta Let_def)
  have ne: "snd (create_dtmf_payload s) \<noteq> []" using payload_length[of s] by auto
  have q: "\<not> ch_paused (s_enc s)" "rc_ts_freq (s_rtcp s1) \<noteq> 0" "put_frame codec_op s f ck = put_frame_imp codec_op s f ck"
    using assms(1,3) by (simp_all add: tx_ready_def s1_def s0_def put_frame_def)
  define h where "h = (if s_is_streaming s1 then out_hdr rtp else (out_hdr rtp)\<lparr>hdr_m := 1\<rparr>)"
  obtain rtcp last os where k: "put_frame_imp codec_op s f ck =
      Some (s1\<lparr>s_is_streaming := True, s_rtcp := rtcp, s_rtcp_last_tx := last\<rparr>,
            os @ [Send_Rtp (hdr_bytes h @ snd (create_dtmf_payload s))], Inr ())"
    "rtp_packets os = []" "rc_ts_freq rtcp \<noteq> 0"
    using put_frame_imp_sends[OF q(1) _ ne q(2), of codec_op f "out_hdr rtp" ck] m assms(3)
    unfolding h_def s0_def by auto
  let ?s' = "s1\<lparr>s_is_streaming := True, s_rtcp := rtcp, s_rtcp_last_tx := last\<rparr>"
  have "tx_ready ?s'" "enc_ts ?s' = enc_ts s + of_nat ?n"
    using assms(1) k(3) r create_dtmf_payload_ok[OF assms(2)] same by (auto simp: s1_def s0_def tx_ready_def)
  moreover have "hdr_v h = RTP_VERSION" "hdr_x h = 0" "hdr_cc h = 0" "int (unat (hdr_pt h)) = s_tx_event_pt s"
    using r assms(1) by (simp_all add: h_def tx_ready_def)
  ultimately show ?thesis using same(2,3) k q(3)
    by (intro exI[of _ ?s'] exI[of _ os] exI[of _ h] exI[of _ "Inr ()"]) (simp add: s1_def s0_def)
qed

section \<open>The receiver\<close>

text \<open>The RTCP session divides by the clock rates, and by the number of losses, for \<open>n\<close> more packets.\<close>

definition rtcp_ok :: "nat \<Rightarrow> rtcp_session \<Rightarrow> bool" where
  "rtcp_ok n sess \<longleftrightarrow>
     rc_clock_rate sess \<noteq> 0 \<and> rc_ts_freq sess \<noteq> 0 \<and> unat (h_count (ss_loss_period (rx sess))) + n < 2 ^ 32"

lemma rx_loss_history_returns:
  assumes "unat (h_count h) + 1 < 2 ^ 32"
  shows "\<exists>h'. rx_loss_history h p = Some h' \<and> unat (h_count h') = unat (h_count h) + 1"
proof -
  have u: "unat (h_count h + 1) = unat (h_count h) + 1" using assms by (rule unat_plus_one)
  then have "h_count h + 1 \<noteq> 0" by auto
  then show ?thesis using u by (simp add: rx_loss_history_def udiv_def Let_def)
qed

lemma rx_loss_period_returns:
  assumes "rtcp_ok (Suc n) sess"
  shows "\<exists>sess'. rx_loss_period sess d = Some sess' \<and> rtcp_ok n sess'"
proof -
  let ?h = "ss_loss_period (rx sess)"
  obtain h' where h: "rx_loss_history ?h ((ucast d - 1) * rc_pkt_size sess * 1000 div rc_clock_rate sess * 1000) = Some h'"
    "unat (h_count h') = unat (h_count ?h) + 1"
    using rx_loss_history_returns[of ?h] assms by (auto simp: rtcp_ok_def)
  then show ?thesis using assms by (auto simp: rx_loss_period_def rtcp_ok_def udiv_def Let_def)
qed

lemma rx_jitter_returns:
  assumes "rtcp_ok n sess"
  shows "\<exists>sess'. rx_jitter rnd sess ts t = Some sess' \<and> rtcp_ok n sess'"
  using assms by (auto simp: rx_jitter_def rtcp_ok_def udiv_def jitter_usec_def Let_def)

lemma rx_rtp_returns:
  assumes "rtcp_ok (Suc n) sess"
  shows "\<exists>sess'. pjmedia_rtcp_rx_rtp rnd sess seq rtp_ts payload ts = Some sess' \<and> rtcp_ok n sess'"
proof -
  define s1 where "s1 = (if ss_pkt (rx sess) = 0
    then sess\<lparr>rc_seq_ctrl := pjmedia_rtp_seq_init (rc_seq_ctrl sess) (ucast seq)\<rparr> else sess)"
  define s2 where "s2 = upd_rx (\<lambda>s. s\<lparr>ss_pkt := ss_pkt s + 1, ss_bytes := ss_bytes s + payload\<rparr>) s1"
  obtain sc st where q: "pjmedia_rtp_seq_update (rc_seq_ctrl s2) (ucast seq) = (sc, st)" by fastforce
  define s3 where "s3 = s2\<lparr>rc_seq_ctrl := sc\<rparr>"
  define s4 where "s4 = (if fl_restart (st_flag st) then rtcp_init_seq s3 else s3)"
  define s5 where "s5 = (if fl_dup (st_flag st) then upd_rx (\<lambda>s. s\<lparr>ss_dup := ss_dup s + 1\<rparr>) s4 else s4)"
  define s6 where "s6 = (if fl_outorder (st_flag st) \<and> \<not> fl_probation (st_flag st)
    then upd_rx (\<lambda>s. s\<lparr>ss_reorder := ss_reorder s + 1\<rparr>) s5 else s5)"
  have ok: "rtcp_ok (Suc n) s6"
    using assms by (simp add: rtcp_ok_def s6_def s5_def s4_def s3_def s2_def s1_def rtcp_init_seq_def)
  have e: "pjmedia_rtcp_rx_rtp rnd sess seq rtp_ts payload ts =
      (if fl_bad (st_flag st) then Some (upd_rx (\<lambda>s. s\<lparr>ss_discard := ss_discard s + 1\<rparr>) s6)
       else do {
         let sess = s6\<lparr>rc_received := rc_received s6 + 1\<rparr>;
         sess \<leftarrow> (if st_diff st > 1 then rx_loss_period sess (st_diff st) else Some sess);
         sess \<leftarrow> (if st_diff st = 1 \<and> rtp_ts \<noteq> rc_rtp_last_ts sess then rx_jitter rnd sess rtp_ts ts else Some sess);
         Some (sess\<lparr>rc_rtp_last_ts := rtp_ts\<rparr>)
       })"
    unfolding pjmedia_rtcp_rx_rtp_def Let_def s1_def[symmetric] s2_def[symmetric] q prod.case
      s3_def[symmetric] s4_def[symmetric] s5_def[symmetric] s6_def[symmetric] by (rule refl)
  show ?thesis
  proof (cases "fl_bad (st_flag st)")
    case True
    then show ?thesis using ok unfolding e by (simp add: rtcp_ok_def)
  next
    case False
    let ?s7 = "s6\<lparr>rc_received := rc_received s6 + 1\<rparr>"
    have "rtcp_ok (Suc n) ?s7" "rtcp_ok n ?s7" using ok by (simp_all add: rtcp_ok_def)
    then obtain s8 where s8: "(if st_diff st > 1 then rx_loss_period ?s7 (st_diff st) else Some ?s7) = Some s8" "rtcp_ok n s8"
      using rx_loss_period_returns[of n ?s7 "st_diff st"] by (cases "st_diff st > 1") auto
    then obtain s9 where s9: "(if st_diff st = 1 \<and> rtp_ts \<noteq> rc_rtp_last_ts s8 then rx_jitter rnd s8 rtp_ts ts else Some s8) = Some s9"
      "rtcp_ok n s9"
      using rx_jitter_returns[of n s8 rnd rtp_ts ts] by (cases "st_diff st = 1 \<and> rtp_ts \<noteq> rc_rtp_last_ts s8") auto
    have "rtcp_ok n (s9\<lparr>rc_rtp_last_ts := rtp_ts\<rparr>)" using s9(2) by (simp add: rtcp_ok_def)
    then show ?thesis using False s8(1) s9(1) unfolding e by (simp add: Let_def)
  qed
qed

text \<open>What the reception of digits relies on, for \<open>n\<close> more packets.\<close>

definition rx_ready :: "nat \<Rightarrow> 'c media_stream \<Rightarrow> bool" where
  "rx_ready n r \<longleftrightarrow> \<not> ch_paused (s_dec r) \<and> \<not> s_dtmf_cb r \<and> length (s_rx_dtmf_buf r) = DTMF_BUF_SIZE \<and> rtcp_ok n (s_rtcp r)"

lemma receive_event:
  assumes "rx_ready (Suc n) r" "hdr_v h = RTP_VERSION" "hdr_x h = 0" "hdr_cc h = 0"
    "int (unat (hdr_pt h)) = s_rx_event_pt r" "length payload = 4"
  shows "\<exists>rtcp. on_rx_rtp codec_op rnd r (hdr_bytes h @ payload) (int (length (hdr_bytes h @ payload))) ck =
      Some (handle_incoming_dtmf (r\<lparr>s_rtcp := rtcp\<rparr>) payload) \<and> rtcp_ok n rtcp"
proof -
  obtain rtcp where x: "pjmedia_rtcp_rx_rtp rnd (s_rtcp r) (ucast (hdr_seq h)) (hdr_ts h) 4 (ck_ts1 ck) = Some rtcp"
    "rtcp_ok n rtcp"
    using rx_rtp_returns assms(1) unfolding rx_ready_def by blast
  have "pjmedia_rtp_decode_rtp (hdr_bytes h @ payload) 16 = Some (Inr (h, 12, 4))"
    using decode_packet[OF assms(2-4), of payload] assms(6) by fastforce
  then have "on_rx_rtp codec_op rnd r (hdr_bytes h @ payload) (int (length (hdr_bytes h @ payload))) ck =
      Some (handle_incoming_dtmf (r\<lparr>s_rtcp := rtcp\<rparr>) payload)"
    using x assms by (simp add: on_rx_rtp_def rx_ready_def)
  with x(2) show ?thesis by blast
qed

section \<open>One packet\<close>

definition tx_queue :: "'c media_stream \<Rightarrow> int list" where
  "tx_queue s = map dt_event (take (s_tx_dtmf_count s) (s_tx_dtmf_buf s))"

definition tx_elapsed :: "'c media_stream \<Rightarrow> 32 word" where
  "tx_elapsed s = enc_ts s - dt_start_ts (s_tx_dtmf_buf s ! 0)"

definition rx_digits :: "'c media_stream \<Rightarrow> string" where
  "rx_digits r = take (s_rx_dtmf_count r) (s_rx_dtmf_buf r)"

lemma take_erase: "Suc n \<le> length buf \<Longrightarrow> take n (array_erase buf (Suc n) 0) = take n (drop 1 buf)"
  by (cases n) (simp_all add: array_erase_def)

lemma map_event_update: "map dt_event (take n (buf[0 := (buf ! 0)\<lparr>dt_start_ts := t\<rparr>])) = map dt_event (take n buf)"
proof -
  have "map dt_event (buf[0 := (buf ! 0)\<lparr>dt_start_ts := t\<rparr>]) = map dt_event buf"
    by (cases buf) simp_all
  then show ?thesis by (metis take_map)
qed

lemma create_payload_queue:
  assumes "length (s_tx_dtmf_buf s) = DTMF_BUF_SIZE" "s_tx_dtmf_count s \<le> DTMF_BUF_SIZE" "tx_queue s = e # es"
  shows "\<exists>vol. snd (create_dtmf_payload s) = dtmf_event_bytes (of_int e) vol (ucast (tx_elapsed s))"
    "map dt_event (take (s_tx_dtmf_count (fst (create_dtmf_payload s))) (s_tx_dtmf_buf (fst (create_dtmf_payload s)))) =
     (if tx_elapsed s \<ge> PJMEDIA_DTMF_DURATION then es else e # es)"
    "dt_start_ts (s_tx_dtmf_buf (fst (create_dtmf_payload s)) ! 0) =
     (if tx_elapsed s \<ge> PJMEDIA_DTMF_DURATION then enc_ts s else dt_start_ts (s_tx_dtmf_buf s ! 0))"
proof -
  obtain n where n: "s_tx_dtmf_count s = Suc n" using assms(3) by (cases "s_tx_dtmf_count s") (auto simp: tx_queue_def)
  obtain d ds where b: "s_tx_dtmf_buf s = d # ds" using assms(1) by (cases "s_tx_dtmf_buf s") (auto simp: DTMF_BUF_SIZE_def)
  have q: "dt_event d = e" "map dt_event (take n ds) = es" using assms(3) by (simp_all add: tx_queue_def n b)
  have l: "Suc n \<le> length (d # ds)" using assms(1,2) by (simp add: n b)
  have ne: "0 < length (array_erase (d # ds) (Suc n) 0)" using l by simp
  show "\<exists>vol. snd (create_dtmf_payload s) = dtmf_event_bytes (of_int e) vol (ucast (tx_elapsed s))"
    using q(1) by (auto simp: create_dtmf_payload_def tx_elapsed_def b Let_def)
  show "map dt_event (take (s_tx_dtmf_count (fst (create_dtmf_payload s))) (s_tx_dtmf_buf (fst (create_dtmf_payload s)))) =
     (if tx_elapsed s \<ge> PJMEDIA_DTMF_DURATION then es else e # es)"
    using q take_erase[OF l] by (simp add: create_dtmf_payload_def tx_elapsed_def b n map_event_update Let_def)
  show "dt_start_ts (s_tx_dtmf_buf (fst (create_dtmf_payload s)) ! 0) =
     (if tx_elapsed s \<ge> PJMEDIA_DTMF_DURATION then enc_ts s else dt_start_ts (s_tx_dtmf_buf s ! 0))"
    using ne by (simp add: create_dtmf_payload_def tx_elapsed_def b n Let_def)
qed

lemma event_bytes_read:
  "length (dtmf_event_bytes e v d) = 4" "dtmf_event_bytes e v d ! 0 = e" "rd16 (dtmf_event_bytes e v d) 2 = d"
  using rd_drop[of 2 "[e, v] @ be16 d"] rd16_be16[of d "[]"] by (simp_all add: dtmf_event_bytes_def)

text \<open>The receiver takes a packet for a digit it knows if its event is the last one and the duration did not fall.\<close>

definition same_digit :: "'c media_stream \<Rightarrow> int \<Rightarrow> nat \<Rightarrow> bool" where
  "same_digit r e d \<longleftrightarrow> s_last_dtmf r = e \<and> unat (s_last_dtmf_dur r) \<le> d"

lemma handle_event:
  assumes "0 \<le> e" "e \<le> 15" "d < 65536" "rx_ready n r" "\<not> same_digit r e d \<Longrightarrow> s_rx_dtmf_count r < DTMF_BUF_SIZE"
  shows "\<exists>r'. handle_incoming_dtmf r (dtmf_event_bytes (of_int e) v (of_nat d)) = (r', []) \<and>
    s_last_dtmf r' = e \<and> unat (s_last_dtmf_dur r') = d \<and> rx_ready n r' \<and> s_rx_event_pt r' = s_rx_event_pt r \<and>
    s_rx_dtmf_count r' = s_rx_dtmf_count r + (if same_digit r e d then 0 else 1) \<and>
    rx_digits r' = rx_digits r @ (if same_digit r e d then [] else [digitmap ! nat e])"
proof -
  have u: "uint (of_int e :: 8 word) = e" using assms(1,2) by (simp add: uint_word_of_int mod_pos_pos_trivial)
  have d: "unat (ucast (of_nat d :: 16 word) :: 32 word) = d"
    using assms(3) by (simp add: unat_of_nat take_bit_nat_eq_self)
  have c: "s_last_dtmf r \<noteq> - 1 \<and> e = s_last_dtmf r \<and> ucast (of_nat d :: 16 word) \<ge> s_last_dtmf_dur r \<longleftrightarrow> same_digit r e d"
    using assms(1) d by (auto simp: same_digit_def word_le_nat_alt)
  show ?thesis
  proof (cases "same_digit r e d")
    case True
    then have "handle_incoming_dtmf r (dtmf_event_bytes (of_int e) v (of_nat d)) =
        (r\<lparr>s_last_dtmf_dur := ucast (of_nat d :: 16 word)\<rparr>, [])"
      unfolding handle_incoming_dtmf_def event_bytes_read u Let_def c by simp
    then show ?thesis using True d assms(4) by (simp add: same_digit_def rx_ready_def rx_digits_def)
  next
    case False
    let ?r = "r\<lparr>s_last_dtmf := e, s_last_dtmf_dur := ucast (of_nat d :: 16 word)\<rparr>"
    have lt: "s_rx_dtmf_count r < DTMF_BUF_SIZE" using assms(5) False by blast
    have "handle_incoming_dtmf r (dtmf_event_bytes (of_int e) v (of_nat d)) = dtmf_new_digit ?r (digitmap ! nat e)"
      unfolding handle_incoming_dtmf_def event_bytes_read u Let_def c using False assms(2) by simp
    moreover have "dtmf_new_digit ?r (digitmap ! nat e) =
        (?r\<lparr>s_rx_dtmf_buf := (s_rx_dtmf_buf r)[s_rx_dtmf_count r := digitmap ! nat e],
            s_rx_dtmf_count := s_rx_dtmf_count r + 1\<rparr>, [])"
      using lt assms(4) by (simp add: dtmf_new_digit_def rx_ready_def)
    ultimately show ?thesis
      using False d lt assms(4) by (simp add: rx_ready_def rx_digits_def take_Suc_conv_app_nth)
  qed
qed

lemma rtp_packets_append [simp]: "rtp_packets (as @ bs) = rtp_packets as @ rtp_packets bs"
  by (simp add: rtp_packets_def)

lemma transmit_digit:
  assumes "tx_ready s" "rx_ready (Suc n) r" "s_rx_event_pt r = s_tx_event_pt s" "pf_type (fst f) = PJMEDIA_FRAME_TYPE_AUDIO"
    "tx_queue s = e # es" "0 \<le> e" "e \<le> 15" "tx_elapsed s = of_nat d" "d < 65536"
    "\<not> same_digit r e d \<Longrightarrow> s_rx_dtmf_count r < DTMF_BUF_SIZE"
  shows "\<exists>s' r'. transmit op1 op2 rnd s r (f # fs) = transmit op1 op2 rnd s' r' fs \<and> tx_ready s' \<and> rx_ready n r' \<and>
    s_rx_event_pt r' = s_tx_event_pt s' \<and> s_last_dtmf r' = e \<and> unat (s_last_dtmf_dur r') = d \<and>
    s_rx_dtmf_count r' = s_rx_dtmf_count r + (if same_digit r e d then 0 else 1) \<and>
    rx_digits r' = rx_digits r @ (if same_digit r e d then [] else [digitmap ! nat e]) \<and>
    tx_queue s' = (if d \<ge> 1600 then es else e # es) \<and>
    tx_elapsed s' = of_nat (if d \<ge> 1600 then length (pf_samples (fst f)) else d + length (pf_samples (fst f)))"
proof -
  have b: "length (s_tx_dtmf_buf s) = DTMF_BUF_SIZE" "s_tx_dtmf_count s \<le> DTMF_BUF_SIZE" using assms(1) by (simp_all add: tx_ready_def)
  note q = create_payload_queue[OF b assms(5)]
  have c: "s_tx_dtmf_count s \<noteq> 0" using assms(5) by (cases "s_tx_dtmf_count s") (auto simp: tx_queue_def)
  have ge: "tx_elapsed s \<ge> PJMEDIA_DTMF_DURATION \<longleftrightarrow> d \<ge> 1600"
    using assms(8,9) by (simp add: PJMEDIA_DTMF_DURATION_def word_le_nat_alt unat_of_nat take_bit_nat_eq_self)
  obtain s' os h st where p: "put_frame op1 s (fst f) (fst (snd f)) =
      Some (s', os @ [Send_Rtp (hdr_bytes h @ snd (create_dtmf_payload s))], st)"
    "rtp_packets os = []" "hdr_v h = RTP_VERSION" "hdr_x h = 0" "hdr_cc h = 0"
    "int (unat (hdr_pt h)) = s_tx_event_pt s" "tx_ready s'" "s_tx_event_pt s' = s_tx_event_pt s"
    "enc_ts s' = enc_ts s + of_nat (length (pf_samples (fst f)))"
    "s_tx_dtmf_count s' = s_tx_dtmf_count (fst (create_dtmf_payload s))"
    "s_tx_dtmf_buf s' = s_tx_dtmf_buf (fst (create_dtmf_payload s))"
    using put_digit[OF assms(1) c assms(4), of op1 "fst (snd f)"] by blast
  have pt: "int (unat (hdr_pt h)) = s_rx_event_pt r" using p(6) assms(3) by simp
  obtain rtcp where x: "on_rx_rtp op2 rnd r (hdr_bytes h @ snd (create_dtmf_payload s))
        (int (length (hdr_bytes h @ snd (create_dtmf_payload s)))) (snd (snd f)) =
      Some (handle_incoming_dtmf (r\<lparr>s_rtcp := rtcp\<rparr>) (snd (create_dtmf_payload s)))" "rtcp_ok n rtcp"
    using receive_event[OF assms(2) p(3-5) pt payload_length] by blast
  obtain vol where v: "snd (create_dtmf_payload s) = dtmf_event_bytes (of_int e) vol (ucast (of_nat d :: 32 word))"
    using q(1) assms(8) by auto
  have u: "ucast (of_nat d :: 32 word) = (of_nat d :: 16 word)"
    using assms(9) by (simp add: word_unat_eq_iff unsigned_ucast_eq unat_of_nat take_bit_nat_eq_self)
  let ?r = "r\<lparr>s_rtcp := rtcp\<rparr>"
  have r: "rx_ready n ?r" "same_digit ?r e d = same_digit r e d" "rx_digits ?r = rx_digits r"
    using assms(2) x(2) by (simp_all add: rx_ready_def same_digit_def rx_digits_def)
  obtain r' where h': "handle_incoming_dtmf ?r (dtmf_event_bytes (of_int e) vol (of_nat d)) = (r', [])"
    "s_last_dtmf r' = e" "unat (s_last_dtmf_dur r') = d" "rx_ready n r'" "s_rx_event_pt r' = s_rx_event_pt ?r"
    "s_rx_dtmf_count r' = s_rx_dtmf_count ?r + (if same_digit ?r e d then 0 else 1)"
    "rx_digits r' = rx_digits ?r @ (if same_digit ?r e d then [] else [digitmap ! nat e])"
    using handle_event[OF assms(6,7,9) r(1), of vol] assms(10) r(2) by auto
  have t: "transmit op1 op2 rnd s r (f # fs) = transmit op1 op2 rnd s' r' fs"
    using x(1) h'(1) v u p(2) by (simp add: p(1)) (simp add: rtp_packets_def)
  have "tx_queue s' = (if d \<ge> 1600 then es else e # es)" using q(2) ge p(10,11) by (simp add: tx_queue_def)
  moreover have "tx_elapsed s' = of_nat (if d \<ge> 1600 then length (pf_samples (fst f)) else d + length (pf_samples (fst f)))"
    using q(3) ge p(9,11) assms(8) by (auto simp: tx_elapsed_def algebra_simps)
  ultimately show ?thesis using t p(7,8) h' r assms(3)
    by (intro exI[of _ s'] exI[of _ r']) simp
qed

section \<open>The queue of digits\<close>

text \<open>
  The packets a queue needs, when a frame of \<open>L\<close> samples is sent at a time and \<open>k\<close> of them are the
  duration of a digit: the first digit starts at \<open>j\<close>, the others, which take over the timestamp of
  the last packet of their predecessor, at one.
\<close>

definition packets_needed :: "nat \<Rightarrow> nat \<Rightarrow> 'a list \<Rightarrow> nat" where
  "packets_needed k j es = (if es = [] then 0 else k - j + 1 + k * (length es - 1))"

definition pending :: "'c media_stream \<Rightarrow> int list \<Rightarrow> nat \<Rightarrow> int list" where
  "pending r es d = (if es \<noteq> [] \<and> same_digit r (hd es) d then tl es else es)"

lemma transmit_queue:
  assumes L: "0 < L" "L < 1600" "1600 \<le> k * L" "k * L < 1600 + L"
  shows "length fs = packets_needed k j es \<Longrightarrow>
    \<forall>f\<in>set fs. pf_type (fst f) = PJMEDIA_FRAME_TYPE_AUDIO \<and> length (pf_samples (fst f)) = L \<Longrightarrow>
    tx_ready s \<Longrightarrow> rx_ready (length fs) r \<Longrightarrow> s_rx_event_pt r = s_tx_event_pt s \<Longrightarrow>
    tx_queue s = es \<Longrightarrow> (es \<noteq> [] \<longrightarrow> tx_elapsed s = of_nat (j * L)) \<Longrightarrow> j \<le> k \<Longrightarrow> \<forall>e\<in>set es. 0 \<le> e \<and> e \<le> 15 \<Longrightarrow>
    s_rx_dtmf_count r + length (pending r es (j * L)) \<le> DTMF_BUF_SIZE \<Longrightarrow>
    \<exists>s' r'. transmit op1 op2 rnd s r fs = Some (s', r') \<and> s_tx_dtmf_count s' = 0 \<and>
      rx_digits r' = rx_digits r @ map (\<lambda>e. digitmap ! nat e) (pending r es (j * L))"
proof (induction fs arbitrary: s r es j)
  case Nil
  then have "es = []" by (simp add: packets_needed_def split: if_splits)
  moreover from this have "s_tx_dtmf_count s = 0"
    using Nil.prems(3,6) by (auto simp: tx_queue_def tx_ready_def DTMF_BUF_SIZE_def)
  ultimately show ?case by (simp add: pending_def)
next
  case (Cons f fs)
  obtain e es' where es: "es = e # es'" using Cons.prems(1) by (cases es) (auto simp: packets_needed_def)
  have k: "1 < k" using L by (cases "k = 0"; cases "k = 1") auto
  have jk: "j * L \<le> k * L" using Cons.prems(8) by (rule mult_le_mono1)
  have last: "1600 \<le> j * L \<longleftrightarrow> j = k"
  proof
    assume a: "1600 \<le> j * L"
    show "j = k"
    proof (rule ccontr)
      assume "j \<noteq> k"
      then have "(j + 1) * L \<le> k * L" using Cons.prems(8) by (intro mult_le_mono1) simp
      with a L(4) show False by simp
    qed
  qed (use L(3) in simp)
  have free: "s_rx_dtmf_count r < DTMF_BUF_SIZE" if "\<not> same_digit r e (j * L)"
    using Cons.prems(10) that by (simp add: pending_def es)
  have rdy: "rx_ready (Suc (length fs)) r" using Cons.prems(4) by simp
  have f: "pf_type (fst f) = PJMEDIA_FRAME_TYPE_AUDIO" "length (pf_samples (fst f)) = L"
    "\<forall>f\<in>set fs. pf_type (fst f) = PJMEDIA_FRAME_TYPE_AUDIO \<and> length (pf_samples (fst f)) = L"
    using Cons.prems(2) by simp_all
  have short: "j * L < 65536" using jk L(2,4) by linarith
  have q: "tx_queue s = e # es'" "0 \<le> e" "e \<le> 15" "tx_elapsed s = of_nat (j * L)"
    using Cons.prems(6,7,9) by (simp_all add: es)
  obtain s' r' where t: "transmit op1 op2 rnd s r (f # fs) = transmit op1 op2 rnd s' r' fs" "tx_ready s'"
    "rx_ready (length fs) r'" "s_rx_event_pt r' = s_tx_event_pt s'" "s_last_dtmf r' = e" "unat (s_last_dtmf_dur r') = j * L"
    "s_rx_dtmf_count r' = s_rx_dtmf_count r + (if same_digit r e (j * L) then 0 else 1)"
    "rx_digits r' = rx_digits r @ (if same_digit r e (j * L) then [] else [digitmap ! nat e])"
    "tx_queue s' = (if j = k then es' else e # es')"
    "tx_elapsed s' = of_nat (if j = k then L else j * L + L)"
    using transmit_digit[OF Cons.prems(3) rdy Cons.prems(5) f(1) q short free, of op1 op2 rnd fs] unfolding last f(2) by blast
  show ?case
  proof (cases "j = k")
    case True
    have new: "\<not> same_digit r' x (1 * L)" for x using t(6) True k L(1) by (simp add: same_digit_def)
    then have p: "pending r' es' (1 * L) = es'" by (simp add: pending_def)
    have "s_rx_dtmf_count r' + length (pending r' es' (1 * L)) \<le> DTMF_BUF_SIZE"
      using Cons.prems(10) t(7) unfolding p by (auto simp: pending_def es)
    moreover have "length fs = packets_needed k 1 es'"
      using Cons.prems(1) True k by (auto simp: packets_needed_def es) (metis One_nat_def Suc_pred length_greater_0_conv mult_Suc_right)
    moreover have "\<forall>e\<in>set es'. 0 \<le> e \<and> e \<le> 15" using Cons.prems(9) by (simp add: es)
    ultimately obtain s'' r'' where "transmit op1 op2 rnd s' r' fs = Some (s'', r'')" "s_tx_dtmf_count s'' = 0"
      "rx_digits r'' = rx_digits r' @ map (\<lambda>e. digitmap ! nat e) es'"
      using Cons.IH[of 1 es' s' r'] f(3) t(2-4,9,10) True k p by auto
    then show ?thesis using t(1,8) by (auto simp: pending_def es)
  next
    case False
    have known: "same_digit r' e ((j + 1) * L)" using t(5,6) by (simp add: same_digit_def)
    then have p: "pending r' (e # es') ((j + 1) * L) = es'" by (simp add: pending_def)
    have "s_rx_dtmf_count r' + length (pending r' (e # es') ((j + 1) * L)) \<le> DTMF_BUF_SIZE"
      using Cons.prems(10) t(7) unfolding p by (auto simp: pending_def es)
    moreover have "length fs = packets_needed k (j + 1) (e # es')"
      using Cons.prems(1,8) False by (simp add: packets_needed_def es)
    moreover have "tx_elapsed s' = of_nat ((j + 1) * L)" "tx_queue s' = e # es'" using t(9,10) False by (simp_all add: algebra_simps)
    moreover have "j + 1 \<le> k" using Cons.prems(8) False by simp
    moreover have "\<forall>x\<in>set (e # es'). 0 \<le> x \<and> x \<le> 15" using Cons.prems(9) by (simp add: es)
    ultimately obtain s'' r'' where "transmit op1 op2 rnd s' r' fs = Some (s'', r'')" "s_tx_dtmf_count s'' = 0"
      "rx_digits r'' = rx_digits r' @ map (\<lambda>e. digitmap ! nat e) es'"
      using Cons.IH[of "j + 1" "e # es'" s' r'] f(3) t(2-4) p by auto
    then show ?thesis using t(1,8) by (auto simp: pending_def es)
  qed
qed

section \<open>Dialling\<close>

lemma digitmap_events:
  assumes "c \<in> set digitmap"
  shows "\<exists>e. digit_event c = Some e \<and> 0 \<le> e \<and> e \<le> 15 \<and> digitmap ! nat e = c"
proof -
  have "list_all (\<lambda>c. case digit_event c of Some e \<Rightarrow> 0 \<le> e \<and> e \<le> 15 \<and> digitmap ! nat e = c | None \<Rightarrow> False) digitmap"
    by code_simp
  then show ?thesis using assms by (auto simp: list_all_iff split: option.splits)
qed

lemma store_digits_valid:
  assumes "set digits \<subseteq> set digitmap" "i + length digits \<le> length buf"
  shows "\<exists>buf'. store_digits buf i digits = (buf', True) \<and> length buf' = length buf \<and>
    map dt_event (take (i + length digits) buf') = map dt_event (take i buf) @ map (\<lambda>c. the (digit_event c)) digits"
  using assms
proof (induction digits arbitrary: buf i)
  case (Cons c cs)
  obtain e where e: "digit_event c = Some e" using digitmap_events Cons.prems(1) by force
  let ?buf = "buf[i := (buf ! i)\<lparr>dt_event := e\<rparr>]"
  have i: "i < length buf" using Cons.prems(2) by simp
  have "map dt_event (take (i + 1) ?buf) = map dt_event (take i buf) @ [e]"
    using i by (simp add: take_Suc_conv_app_nth)
  then show ?case using Cons.IH[of "i + 1" ?buf] Cons.prems e by auto
qed simp

text \<open>Digits that are dialled are queued behind those that are being sent; a queue that was empty starts now.\<close>

lemma dial_queue:
  assumes "tx_ready s" "set digits \<subseteq> set digitmap" "s_tx_dtmf_count s + length digits < DTMF_BUF_SIZE"
  shows "snd (pjmedia_stream_dial_dtmf s digits) = Inr ()" "tx_ready (fst (pjmedia_stream_dial_dtmf s digits))"
    "tx_queue (fst (pjmedia_stream_dial_dtmf s digits)) = tx_queue s @ map (\<lambda>c. the (digit_event c)) digits"
    "s_tx_event_pt (fst (pjmedia_stream_dial_dtmf s digits)) = s_tx_event_pt s"
    "s_tx_dtmf_count s = 0 \<Longrightarrow> tx_elapsed (fst (pjmedia_stream_dial_dtmf s digits)) = 0"
proof -
  have b: "0 \<le> s_tx_event_pt s" "length (s_tx_dtmf_buf s) = DTMF_BUF_SIZE" using assms(1) by (simp_all add: tx_ready_def)
  obtain buf where d: "store_digits (s_tx_dtmf_buf s) (s_tx_dtmf_count s) digits = (buf, True)" "length buf = DTMF_BUF_SIZE"
    "map dt_event (take (s_tx_dtmf_count s + length digits) buf) = tx_queue s @ map (\<lambda>c. the (digit_event c)) digits"
    using store_digits_valid[OF assms(2), of "s_tx_dtmf_count s" "s_tx_dtmf_buf s"] assms(3) b(2) by (auto simp: tx_queue_def)
  have e: "pjmedia_stream_dial_dtmf s digits =
      (s\<lparr>s_tx_dtmf_buf := (if s_tx_dtmf_count s = 0 then buf[0 := (buf ! 0)\<lparr>dt_start_ts := enc_ts s\<rparr>] else buf),
         s_tx_dtmf_count := s_tx_dtmf_count s + length digits\<rparr>, Inr ())"
    using b(1) d(1) assms(3) by (simp add: pjmedia_stream_dial_dtmf_def)
  show "snd (pjmedia_stream_dial_dtmf s digits) = Inr ()" "tx_ready (fst (pjmedia_stream_dial_dtmf s digits))"
    "s_tx_event_pt (fst (pjmedia_stream_dial_dtmf s digits)) = s_tx_event_pt s"
    using assms d(2) by (simp_all add: e tx_ready_def)
  show "tx_queue (fst (pjmedia_stream_dial_dtmf s digits)) = tx_queue s @ map (\<lambda>c. the (digit_event c)) digits"
    using d(3) by (cases "s_tx_dtmf_count s = 0") (simp_all add: e tx_queue_def map_event_update)
  show "tx_elapsed (fst (pjmedia_stream_dial_dtmf s digits)) = 0" if "s_tx_dtmf_count s = 0"
    using that d(2) by (simp add: e tx_elapsed_def DTMF_BUF_SIZE_def)
qed

lemma digits_back: "set digits \<subseteq> set digitmap \<Longrightarrow> map (\<lambda>e. digitmap ! nat e) (map (\<lambda>c. the (digit_event c)) digits) = digits"
  using digitmap_events by (induction digits) force+

lemma events_range: "set digits \<subseteq> set digitmap \<Longrightarrow> \<forall>e\<in>set (map (\<lambda>c. the (digit_event c)) digits). 0 \<le> e \<and> e \<le> 15"
  using digitmap_events by fastforce

text \<open>
  C15. The digits that are dialled at one end arrive at the other: for any string of the sixteen
  digits that fits the queue, repeated digits included, a number of frames that is a digit's
  duration for each of them and one more carries all of them, in order and each exactly once, into the
  receive buffer of a stream that knows the payload type; the queue is empty afterwards. The frames
  are of any length below the duration of a digit.
\<close>

theorem dtmf_digits_arrive:
  assumes "tx_ready s" "s_tx_dtmf_count s = 0" "set digits \<subseteq> set digitmap" "digits \<noteq> []" "length digits < DTMF_BUF_SIZE"
    "rx_ready (length fs) r" "s_rx_event_pt r = s_tx_event_pt s" "s_last_dtmf r = - 1 \<or> s_last_dtmf_dur r \<noteq> 0"
    "s_rx_dtmf_count r + length digits \<le> DTMF_BUF_SIZE"
    "0 < L" "L < 1600" "\<forall>f\<in>set fs. pf_type (fst f) = PJMEDIA_FRAME_TYPE_AUDIO \<and> length (pf_samples (fst f)) = L"
    "length fs = (1599 + L) div L * length digits + 1"
  shows "snd (pjmedia_stream_dial_dtmf s digits) = Inr () \<and>
    (\<exists>s' r'. transmit op1 op2 rnd (fst (pjmedia_stream_dial_dtmf s digits)) r fs = Some (s', r') \<and>
       s_tx_dtmf_count s' = 0 \<and> rx_digits r' = rx_digits r @ digits)"
proof -
  let ?k = "(1599 + L) div L" and ?s = "fst (pjmedia_stream_dial_dtmf s digits)"
  let ?es = "map (\<lambda>c. the (digit_event c)) digits"
  have "(1599 + L) mod L < L" "?k * L + (1599 + L) mod L = 1599 + L" using assms(10) by simp_all
  then have k: "1600 \<le> ?k * L" "?k * L < 1600 + L" by linarith+
  have q: "s_tx_dtmf_count s + length digits < DTMF_BUF_SIZE" using assms(2,5) by simp
  note d = dial_queue[OF assms(1,3) q]
  have es: "tx_queue ?s = ?es" "tx_elapsed ?s = of_nat (0 * L)" using d(3,5) assms(2) by (simp_all add: tx_queue_def)
  have e0: "0 \<le> hd ?es" using events_range[OF assms(3)] assms(4) by (cases digits) auto
  have "\<not> same_digit r (hd ?es) 0" using assms(8) e0 by (auto simp: same_digit_def unat_eq_0)
  then have p: "pending r ?es (0 * L) = ?es" by (simp add: pending_def)
  have n: "length fs = packets_needed ?k 0 ?es"
    using assms(4,13) by (cases digits) (simp_all add: packets_needed_def)
  have "\<exists>s' r'. transmit op1 op2 rnd ?s r fs = Some (s', r') \<and> s_tx_dtmf_count s' = 0 \<and>
      rx_digits r' = rx_digits r @ map (\<lambda>e. digitmap ! nat e) (pending r ?es (0 * L))"
    by (rule transmit_queue[OF assms(10,11) k n assms(12) d(2) assms(6) _ es(1) _ _ events_range[OF assms(3)]])
      (use assms(7,9) d(4) es(2) p in auto)
  then show ?thesis using d(1) digits_back[OF assms(3)] unfolding p by simp
qed

text \<open>A stream with a null codec, to evaluate the operations on.\<close>

definition demo_channel :: channel where
  "demo_channel = \<lparr>ch_pt = 0, ch_paused = False, ch_out_pkt_size = 1500, ch_rtp = pjmedia_rtp_session_init 0 5 0 100\<rparr>"

definition demo_stream :: "unit media_stream" where
  "demo_stream = \<lparr>s_samples_per_frame = 160, s_clock_rate = 8000, s_enc = demo_channel, s_dec = demo_channel,
     s_dir = \<lparr>dir_encoding = True, dir_decoding = True\<rparr>, s_codec = (), s_param = g711_default_attr 0,
     s_enc_buf = None, s_enc_samples_per_frame = 160, s_enc_buf_pos = 0, s_enc_buf_count = 0, s_vad_enabled = False,
     s_frame_size = 80, s_is_streaming = False, s_tx_duration = 0, s_jb = pjmedia_jbuf_create ''demo'' 80 10 36,
     s_jb_last_frm = PJMEDIA_JB_MISSING_FRAME, s_rtcp = pjmedia_rtcp_init 8000 160 5 (TimeVal 0 0) 0 1000000,
     s_rtcp_last_tx = 0, s_rtcp_interval = 40000, s_tx_event_pt = 101, s_tx_dtmf_count = 0,
     s_tx_dtmf_buf = replicate 32 \<lparr>dt_event = 0, dt_start_ts = 0\<rparr>, s_rx_event_pt = 101, s_last_dtmf = - 1,
     s_last_dtmf_dur = 0, s_rx_dtmf_count = 0, s_rx_dtmf_buf = replicate 32 NUL, s_dtmf_cb = False\<rparr>"

lemma demo_ready: "tx_ready demo_stream" "n < 1000 \<Longrightarrow> rx_ready n demo_stream"
  by (simp_all add: tx_ready_def rx_ready_def demo_stream_def demo_channel_def pjmedia_rtp_session_init_def
      pjmedia_rtcp_init_def DTMF_BUF_SIZE_def rtcp_ok_def zero_stream_stat_def zero_history_def)

definition demo_frame :: "nat \<Rightarrow> pcm_frame \<times> clocks \<times> clocks" where
  "demo_frame L =
     (let ck = \<lparr>ck_ts1 = 0, ck_ts2 = 0, ck_tod = TimeVal 0 0\<rparr>
      in (\<lparr>pf_type = PJMEDIA_FRAME_TYPE_AUDIO, pf_samples = replicate L 0, pf_timestamp = 0\<rparr>, ck, ck))"

definition null_codec :: "unit codec_op" where
  "null_codec = \<lparr>op_open = (\<lambda>c p. (c, p, Inr ())), op_modify = (\<lambda>c p. (c, Inr ())), op_parse = (\<lambda>c pkt ts mx. Inr []),
     op_encode = (\<lambda>c f room. (c, Inr \<lparr>ef_type = PJMEDIA_FRAME_TYPE_NONE, ef_bytes = [], ef_timestamp = pf_timestamp f\<rparr>)),
     op_decode = (\<lambda>c bytes room. (c, Inr [])), op_recover = None\<rparr>"

theorem dtmf_digits_arrive_witness:
  "\<exists>s' r'. transmit null_codec null_codec id (fst (pjmedia_stream_dial_dtmf demo_stream ''7733'')) demo_stream (replicate 41 (demo_frame 160)) =
      Some (s', r') \<and> s_tx_dtmf_count s' = 0 \<and> rx_digits r' = ''7733''"
  using dtmf_digits_arrive[of demo_stream "''7733''" "replicate 41 (demo_frame 160)" demo_stream 160 null_codec null_codec id]
  by (simp add: demo_ready digitmap_def DTMF_BUF_SIZE_def demo_frame_def Let_def)
    (simp add: demo_stream_def rx_digits_def)

text \<open>
  With frames of a digit's duration or longer, which the limit of 200 milliseconds allows, a digit after
  the first is a single packet, and its duration is the one the digit before it ended with: a repeated
  digit is lost.
\<close>

theorem long_frames_lose_digit:
  assumes "tx_ready s" "s_tx_dtmf_count s = 0" "c \<in> set digitmap"
    "rx_ready 3 r" "s_rx_event_pt r = s_tx_event_pt s" "s_last_dtmf r = - 1" "s_rx_dtmf_count r < DTMF_BUF_SIZE"
    "1600 \<le> L" "L < 65536" "fs = [f1, f2, f3]"
    "\<forall>f\<in>set fs. pf_type (fst f) = PJMEDIA_FRAME_TYPE_AUDIO \<and> length (pf_samples (fst f)) = L"
  shows "\<exists>s' r'. transmit op1 op2 rnd (fst (pjmedia_stream_dial_dtmf s [c, c])) r fs = Some (s', r') \<and>
    tx_queue s' = [] \<and> rx_digits r' = rx_digits r @ [c]"
proof -
  let ?s = "fst (pjmedia_stream_dial_dtmf s [c, c])"
  obtain e where e: "digit_event c = Some e" "0 \<le> e" "e \<le> 15" "digitmap ! nat e = c"
    using digitmap_events[OF assms(3)] by blast
  have "s_tx_dtmf_count s + length [c, c] < DTMF_BUF_SIZE" using assms(2) by (simp add: DTMF_BUF_SIZE_def)
  from dial_queue[OF assms(1) _ this] assms(2,3) e(1)
  have d: "tx_ready ?s" "tx_queue ?s = [e, e]" "s_tx_event_pt ?s = s_tx_event_pt s" "tx_elapsed ?s = of_nat 0"
    by (simp_all add: tx_queue_def)
  have f: "pf_type (fst f1) = PJMEDIA_FRAME_TYPE_AUDIO" "length (pf_samples (fst f1)) = L"
    "pf_type (fst f2) = PJMEDIA_FRAME_TYPE_AUDIO" "length (pf_samples (fst f2)) = L"
    "pf_type (fst f3) = PJMEDIA_FRAME_TYPE_AUDIO" "length (pf_samples (fst f3)) = L"
    using assms(10,11) by simp_all
  have n: "\<not> same_digit r e 0" using assms(6) e(2) by (auto simp: same_digit_def)
  have r3: "rx_ready (Suc (Suc (Suc 0))) r" "s_rx_event_pt r = s_tx_event_pt ?s" using assms(4,5) d(3) by (simp_all add: numeral_3_eq_3)
  obtain s1 r1 where 1: "transmit op1 op2 rnd ?s r [f1, f2, f3] = transmit op1 op2 rnd s1 r1 [f2, f3]" "tx_ready s1"
    "rx_ready (Suc (Suc 0)) r1" "s_rx_event_pt r1 = s_tx_event_pt s1" "s_last_dtmf r1 = e" "unat (s_last_dtmf_dur r1) = 0"
    "rx_digits r1 = rx_digits r @ [c]" "tx_queue s1 = [e, e]" "tx_elapsed s1 = of_nat L"
    using transmit_digit[OF d(1) r3 f(1) d(2) e(2,3) d(4) _ assms(7), of op1 op2 rnd "[f2, f3]"] n f(2) e(4) by auto
  have k1: "same_digit r1 e L" using 1(5,6) by (simp add: same_digit_def)
  obtain s2 r2 where 2: "transmit op1 op2 rnd s1 r1 [f2, f3] = transmit op1 op2 rnd s2 r2 [f3]" "tx_ready s2"
    "rx_ready (Suc 0) r2" "s_rx_event_pt r2 = s_tx_event_pt s2" "s_last_dtmf r2 = e" "unat (s_last_dtmf_dur r2) = L"
    "rx_digits r2 = rx_digits r1" "tx_queue s2 = [e]" "tx_elapsed s2 = of_nat L"
    using transmit_digit[OF 1(2,3,4) f(3) 1(8) e(2,3) 1(9) assms(9), of op1 op2 rnd "[f3]"] k1 f(4) assms(8) by auto
  have k2: "same_digit r2 e L" using 2(5,6) by (simp add: same_digit_def)
  obtain s3 r3 where 3: "transmit op1 op2 rnd s2 r2 [f3] = transmit op1 op2 rnd s3 r3 []"
    "rx_digits r3 = rx_digits r2" "tx_queue s3 = []"
    using transmit_digit[OF 2(2,3,4) f(5) 2(8) e(2,3) 2(9) assms(9), of op1 op2 rnd "[]"] k2 assms(8) by auto
  show ?thesis using 1(1,7) 2(1,7) 3 unfolding assms(10) by simp
qed

end
