(* ===== verification/Spec2Isabelle.thy ===== *)
theory Spec2Isabelle
  imports Timer_Heap Hash_Table Tsx_Behaviour Tsx_Layer Sdp_Text Sdp_Exchange Sdp_Compare Rtcp_Reports Codec_Manager Stream_Dtmf
begin

text \<open>
  \<^bold>\<open>symPhonie: the protocol core\<close>

  symPhonie is a SIP telephone. Its engine is the C code of \<^verbatim>\<open>src/pjproject-0.5.10.4\<close>: \<^verbatim>\<open>pjlib\<close>
  (containers, timers, operating system layer), \<^verbatim>\<open>pjsip\<close> (SIP messages, transactions, dialogs)
  and \<^verbatim>\<open>pjmedia\<close> (RTP, jitter buffer, codecs, sound). This library models the parts that carry
  state and protocol logic and proves what makes them correct.

  \<^bold>\<open>Theories\<close>

  \<^item> \<open>Pj_Prelude\<close>: status codes, 32-bit wrapping arithmetic on naturals, C division, the
    collections of simplification rules, generic list lemmas.
  \<^item> \<open>Pj_Time\<close>: \<^verbatim>\<open>pj_time_val\<close> with its macros (\<^verbatim>\<open>pjlib/include/pj/types.h\<close>) and
    \<^verbatim>\<open>pj_time_val_normalize\<close> (\<^verbatim>\<open>pjlib/src/pj/types.c\<close>); an instance of \<open>linorder\<close>.
  \<^item> \<open>Timer_Heap\<close>: \<^verbatim>\<open>pjlib/src/pj/timer.c\<close>. The record \<open>timer_heap\<close> is \<^verbatim>\<open>pj_timer_heap_t\<close> with
    its two arrays and the free list threaded through negated ids; entries are addressed by
    references into a store. Invariant \<open>th_inv\<close>, abstraction \<open>timers\<close> (a finite map from entries
    to deadlines). The interface is the locale \<open>timer_service\<close>. Scheduling and cancelling refine
    map update and deletion, a poll fires due entries in the order of their deadlines and ends.
  \<^item> \<open>Jitter_Buffer\<close>: \<^verbatim>\<open>pjmedia/src/pjmedia/jbuf.c\<close>. The ring of frames represents a list of
    slots (\<open>fl_rep\<close>), locale \<open>playout_queue\<close>; every call returns and keeps \<open>jb_inv\<close>; where a frame
    is stored, what is played and when the delay changes.
  \<^item> \<open>Rtp_Session\<close>: \<^verbatim>\<open>pjmedia/src/pjmedia/rtp.c\<close> on 16- and 32-bit words: sequence number control
    across wrap-around, probation, restart, packet encoding and decoding.
  \<^item> \<open>Hash_Table\<close>: \<^verbatim>\<open>pjlib/src/pj/hash.c\<close>. Chains as lists, \<open>ht_inv\<close>, abstraction to a map from
    pairs of hash value and key; locale \<open>key_value_store\<close>.
  \<^item> \<open>Sip_Transaction\<close>: the state machine of \<^verbatim>\<open>pjsip/src/pjsip/sip_transaction.c\<close>. The record \<open>tsx\<close> is
    \<^verbatim>\<open>pjsip_transaction\<close> with its two timers, the flags of \<^verbatim>\<open>transport_flag\<close>, the results of future sends as
    input and what is sent and reported as output; one definition per handler (\<open>tsx_on_state_calling\<close> is
    \<^verbatim>\<open>tsx_on_state_calling\<close>, and so on), \<open>tsx_send_msg\<close> with the callbacks that may run inside of it.
  \<^item> \<open>Tsx_Invariant\<close>: what every run of a transaction keeps; step relation, reachable states, states
    in their order as an instance of \<open>linorder\<close>.
  \<^item> \<open>Tsx_Behaviour\<close>: timeout and destruction, final responses and ACK, retransmission of requests and
    responses, and two defects.
  \<^item> \<open>Pj_String\<close>, \<open>Pj_Scanner\<close>: number conversion and comparison of \<^verbatim>\<open>pj/string.c\<close>, and the text scanner
    \<^verbatim>\<open>pjlib-util/src/pjlib-util/scanner.c\<close> as far as the SDP parser uses it; a scanner is the rest of its
    input, a syntax error is \<open>None\<close>.
  \<^item> \<open>Sdp_Session\<close>: \<^verbatim>\<open>pjmedia/src/pjmedia/sdp.c\<close>. Records for the structures of \<^verbatim>\<open>sdp.h\<close> with their integers as
    words, attribute lists, rtpmap, fmtp and rtcp values, printer, parser and validation.
  \<^item> \<open>Sdp_Text\<close>: printed sessions and rtpmap attributes read back; what the parser accepts fits its arrays; where
    arrays and buffers are overrun.
  \<^item> \<open>Sdp_Neg\<close>: \<^verbatim>\<open>pjmedia/src/pjmedia/sdp_neg.c\<close>, the record \<open>sdp_neg\<close> is \<^verbatim>\<open>pjmedia_sdp_neg\<close>, one definition for each
    function; runs outside of defined C are \<open>None\<close>.
  \<^item> \<open>Sdp_Answer\<close>: directions, choice of formats, shape of an answer, and that the two sides of a call agree.
  \<^item> \<open>Sdp_Exchange\<close>: step relation, invariant and refinement of the offer and answer exchange; defects.
  \<^item> \<open>Sdp_Compare\<close>: \<^verbatim>\<open>pjmedia/src/pjmedia/sdp_cmp.c\<close>, the comparison of two descriptions and what it decides.
  \<^item> \<open>Rtcp_Session\<close>: \<^verbatim>\<open>pjmedia/src/pjmedia/rtcp.c\<close>. The record \<open>rtcp_session\<close> is \<^verbatim>\<open>pjmedia_rtcp_session\<close> with its
    statistics and its cached packet; it uses the sequence number control of \<open>Rtp_Session\<close>.
  \<^item> \<open>Rtcp_Reports\<close>: reports at the peer, the measured round trip time, the accounting of losses; defects.
  \<^item> \<open>Alaw_Ulaw\<close>: G.711 companding, as the tables and macros of \<^verbatim>\<open>alaw_ulaw_table.c\<close> and \<^verbatim>\<open>alaw_ulaw.h\<close> and
    as the computation of \<^verbatim>\<open>alaw_ulaw.c\<close> (suffix \<open>_calc\<close>); error of a sample, round trip of a code, where
    table and computation agree and where they do not.
  \<^item> \<open>Silence_Det\<close>: \<^verbatim>\<open>pjmedia/src/pjmedia/silencedet.c\<close>, the record \<open>silence_det\<close>, one definition for each part of
    \<^verbatim>\<open>pjmedia_silence_det_apply\<close>; it refines a debouncer. Also the replay algorithm of \<^verbatim>\<open>plc_common.c\<close>.
  \<^item> \<open>Codec_Manager\<close>: \<^verbatim>\<open>pjmedia/src/pjmedia/codec.c\<close>, the table of codecs in the order of their priorities;
    its invariant, and the order that a change of priority leads to.
  \<^item> \<open>G711_Codec\<close>: the codec interface of \<^verbatim>\<open>pjmedia/codec.h\<close> and \<^verbatim>\<open>pjmedia/src/pjmedia/g711.c\<close>. The locale \<open>frame_codec\<close>
    is what the stream needs of a codec, and G.711 is shown to keep it.
  \<^item> \<open>Media_Stream\<close>: \<^verbatim>\<open>pjmedia/src/pjmedia/stream.c\<close>, which composes \<open>Rtp_Session\<close>, \<open>Rtcp_Session\<close>, \<open>Jitter_Buffer\<close> and a
    codec: \<open>put_frame\<close> and \<open>get_frame\<close> of the sound device, \<open>on_rx_rtp\<close> and \<open>on_rx_rtcp\<close> of the transport, the queue
    of digits, creation and control.
  \<^item> \<open>Stream_Dtmf\<close>: two streams connected by their packets; the dialled digits arrive.
  \<^item> \<open>Tsx_Layer\<close>: the table of transactions, which composes \<open>Hash_Table\<close> (through the facts of its
    interpretation) with \<open>Sip_Transaction\<close>: keys, registration, dispatch, creation, stop.

  \<^bold>\<open>Bounds, loops and failure\<close>

  Loops whose end depends on the data are \<open>partial_function (option)\<close> (the poll loop, the put loop
  of the jitter buffer, the size loop of the hash table) and are proved to return; the others carry
  termination measures. Reads outside of a buffer and divisions by zero are the value \<open>None\<close>, with
  the theorem that says when they cannot happen. A send of a transaction can resolve the server and run
  callbacks that send again; each resolution takes one of the results to come, and their number
  bounds the depth (\<open>tsx_send_msg_depth\<close>), so that no send is cut short.

  \<^bold>\<open>Not modelled\<close>

  Memory pools are never exhausted, locks are not modelled (the operations are sequential), logging
  is left out. Sound devices, the conference bridge, sockets, the codecs other than G.711 (vendored
  libraries), the floating point concealment algorithm, the SIP parser, dialogs and the layers above
  them, and the user interface are outside.
\<close>

end
